(* ===== verification/Prelude.thy ===== *)
theory Prelude
  imports Main "HOL-Library.Word"
begin

text \<open>
  The prelude of the snocat development: the result type of Rust with its combinators, the
  \<open>Poll\<close> type of futures, byte strings, big-endian integers, and the generic lemmas on
  lists and words that the component theories share. The collections \<open>result_simps\<close>
  (evaluation of result combinators) and \<open>io_simps\<close> (evaluation of the byte-stream
  primitives) are filled here and in \<open>Byte_IO\<close>.
\<close>

section \<open>Collections\<close>

named_theorems result_simps \<open>evaluation of result combinators\<close>
named_theorems io_simps \<open>evaluation of reads and writes on a link\<close>

section \<open>Results\<close>

type_synonym ('e, 'a) result = "'e + 'a"

abbreviation Err :: "'e \<Rightarrow> ('e, 'a) result" where
  "Err \<equiv> Inl"

abbreviation Ok :: "'a \<Rightarrow> ('e, 'a) result" where
  "Ok \<equiv> Inr"

fun and_then :: "('e, 'a) result \<Rightarrow> ('a \<Rightarrow> ('e, 'b) result) \<Rightarrow> ('e, 'b) result" where
  "and_then (Inl e) f = Inl e"
| "and_then (Inr a) f = f a"

fun map_ok :: "('a \<Rightarrow> 'b) \<Rightarrow> ('e, 'a) result \<Rightarrow> ('e, 'b) result" where
  "map_ok f (Inl e) = Inl e"
| "map_ok f (Inr a) = Inr (f a)"

fun map_err :: "('e \<Rightarrow> 'f) \<Rightarrow> ('e, 'a) result \<Rightarrow> ('f, 'a) result" where
  "map_err f (Inl e) = Inl (f e)"
| "map_err f (Inr a) = Inr a"

fun ok_or :: "'e \<Rightarrow> 'a option \<Rightarrow> ('e, 'a) result" where
  "ok_or e None = Inl e"
| "ok_or e (Some a) = Inr a"

fun ok :: "('e, 'a) result \<Rightarrow> 'a option" where
  "ok (Inl e) = None"
| "ok (Inr a) = Some a"

fun is_ok :: "('e, 'a) result \<Rightarrow> bool" where
  "is_ok (Inl e) = False"
| "is_ok (Inr a) = True"

lemma and_then_Inr_iff [result_simps]:
  "and_then r f = Inr b \<longleftrightarrow> (\<exists>a. r = Inr a \<and> f a = Inr b)"
  by (cases r) auto

lemma and_then_Inl_iff [result_simps]:
  "and_then r f = Inl e \<longleftrightarrow> r = Inl e \<or> (\<exists>a. r = Inr a \<and> f a = Inl e)"
  by (cases r) auto

lemma map_err_Inr_iff [result_simps]: "map_err f r = Inr a \<longleftrightarrow> r = Inr a"
  by (cases r) auto

lemma map_err_Inl_iff [result_simps]: "map_err f r = Inl e \<longleftrightarrow> (\<exists>d. r = Inl d \<and> e = f d)"
  by (cases r) auto

lemma map_ok_Inr_iff [result_simps]: "map_ok f r = Inr b \<longleftrightarrow> (\<exists>a. r = Inr a \<and> b = f a)"
  by (cases r) auto

lemma map_ok_Inl_iff [result_simps]: "map_ok f r = Inl e \<longleftrightarrow> r = Inl e"
  by (cases r) auto

lemma ok_or_Inr_iff [result_simps]: "ok_or e x = Inr a \<longleftrightarrow> x = Some a"
  by (cases x) auto

lemma ok_or_Inl_iff [result_simps]: "ok_or e x = Inl d \<longleftrightarrow> x = None \<and> d = e"
  by (cases x) auto

lemma ok_Some_iff [result_simps]: "ok r = Some a \<longleftrightarrow> r = Inr a"
  by (cases r) auto

lemma map_err_comp [simp]: "map_err f (map_err g r) = map_err (f \<circ> g) r"
  by (cases r) auto

lemma map_err_ident [simp]: "map_err (\<lambda>e. e) r = r"
  by (cases r) auto

lemma map_ok_comp [simp]: "map_ok f (map_ok g r) = map_ok (f \<circ> g) r"
  by (cases r) auto

section \<open>Polls\<close>

datatype 'a poll = Pending | Ready 'a

fun map_poll_ready :: "('a \<Rightarrow> 'b) \<Rightarrow> 'a poll \<Rightarrow> 'b poll" where
  "map_poll_ready f Pending = Pending"
| "map_poll_ready f (Ready a) = Ready (f a)"

section \<open>Bytes and big-endian integers\<close>

type_synonym byte = "8 word"
type_synonym port = "16 word"

lemma unat_byte_less [simp]: "unat (b :: 8 word) < 256"
  using unsigned_less [of b] by simp

lemma unat_word16_less [simp]: "unat (w :: 16 word) < 65536"
  using unsigned_less [of w] by simp

lemma unat_word32_less [simp]: "unat (w :: 32 word) < 4294967296"
  using unsigned_less [of w] by simp

lemma unat_of_nat_byte [simp]: "n < 256 \<Longrightarrow> unat (of_nat n :: 8 word) = n"
  by (simp add: unat_of_nat)

lemma unat_of_nat_word16 [simp]: "n < 65536 \<Longrightarrow> unat (of_nat n :: 16 word) = n"
  by (simp add: unat_of_nat)

lemma unat_of_nat_word32 [simp]: "n < 4294967296 \<Longrightarrow> unat (of_nat n :: 32 word) = n"
  by (simp add: unat_of_nat)

definition u32_to_be_bytes :: "32 word \<Rightarrow> byte list" where
  "u32_to_be_bytes w = (let n = unat w in
     [of_nat (n div 16777216), of_nat (n div 65536 mod 256), of_nat (n div 256 mod 256),
      of_nat (n mod 256)])"

fun u32_from_be_bytes :: "byte list \<Rightarrow> 32 word" where
  "u32_from_be_bytes [a, b, c, d] =
     of_nat (((unat a * 256 + unat b) * 256 + unat c) * 256 + unat d)"
| "u32_from_be_bytes _ = 0"

lemma length_u32_to_be_bytes [simp]: "length (u32_to_be_bytes w) = 4"
  by (simp add: u32_to_be_bytes_def Let_def)

lemma base256_digits: "(((n div 16777216) * 256 + n div 65536 mod 256) * 256 + n div 256 mod 256)
    * 256 + n mod 256 = (n :: nat)"
proof -
  have "n div 65536 = n div 256 div 256" and "n div 16777216 = n div 256 div 256 div 256"
    by (simp_all flip: div_mult2_eq)
  then show ?thesis
    by (simp only: div_mult_mod_eq)
qed

lemma u32_be_round_trip [simp]: "u32_from_be_bytes (u32_to_be_bytes w) = w"
proof -
  have "unat w div 16777216 < 256"
    using unat_word32_less [of w] by (simp add: less_mult_imp_div_less)
  then have "u32_from_be_bytes (u32_to_be_bytes w) = (of_nat (unat w) :: 32 word)"
    by (simp only: u32_to_be_bytes_def Let_def u32_from_be_bytes.simps unat_of_nat_byte
        mod_less_divisor base256_digits zero_less_numeral)
  then show ?thesis by simp
qed

lemma div_mod_base256:
  fixes q r :: nat
  assumes "r < 256"
  shows "(q * 256 + r) div 256 = q" "(q * 256 + r) mod 256 = r"
  using assms by auto

lemma base256_recompose:
  assumes "a < 256" "b < 256" "c < 256" "d < (256 :: nat)" and n: "n = ((a * 256 + b) * 256 + c) * 256 + d"
  shows "n div 16777216 = a" "n div 65536 mod 256 = b" "n div 256 mod 256 = c" "n mod 256 = d"
    "n < 4294967296"
proof -
  have 1: "n div 256 = (a * 256 + b) * 256 + c" "n mod 256 = d"
    unfolding n by (rule div_mod_base256 [OF assms(4)])+
  have 2: "n div 256 div 256 = a * 256 + b" "n div 256 mod 256 = c"
    unfolding 1 by (rule div_mod_base256 [OF assms(3)])+
  have 3: "n div 256 div 256 div 256 = a" "n div 256 div 256 mod 256 = b"
    unfolding 2 by (rule div_mod_base256 [OF assms(2)])+
  have "n div 65536 = n div 256 div 256" "n div 16777216 = n div 256 div 256 div 256"
    by (simp_all flip: div_mult2_eq)
  then show "n div 16777216 = a" "n div 65536 mod 256 = b" "n div 256 mod 256 = c" "n mod 256 = d"
    using 1 2 3 by simp_all
  show "n < 4294967296" unfolding n using assms by simp
qed

lemma u32_be_round_trip' [simp]:
  assumes "length bs = 4"
  shows "u32_to_be_bytes (u32_from_be_bytes bs) = bs"
proof -
  obtain a b c d where bs: "bs = [a, b, c, d]"
    using assms by (auto simp: length_Suc_conv eval_nat_numeral)
  let ?n = "((unat a * 256 + unat b) * 256 + unat c) * 256 + unat d"
  note r = base256_recompose [OF unat_byte_less unat_byte_less unat_byte_less unat_byte_less refl,
      of a b c d]
  show ?thesis
    unfolding bs u32_to_be_bytes_def u32_from_be_bytes.simps Let_def unat_of_nat_word32 [OF r(5)] r(1-4)
    by simp
qed

section \<open>Lists\<close>

lemma length_eq_4_conv: "length xs = 4 \<longleftrightarrow> (\<exists>a b c d. xs = [a, b, c, d])"
  by (auto simp: length_Suc_conv eval_nat_numeral)

lemma distinct_map_filter_fst:
  "distinct (map fst xs) \<Longrightarrow> distinct (map fst (filter P xs))"
  by (induction xs) auto

lemma map_fst_filter_set: "set (map fst (filter P xs)) \<subseteq> set (map fst xs)"
  by auto

section \<open>Encodings\<close>

text \<open>
  The contract of a text or byte format: what is encoded decodes to itself. A canonical format
  also has one encoding only per value. Formats layered on each other (an address printed as
  text and the text as UTF-8) compose.
\<close>

locale codec =
  fixes valid :: "'a \<Rightarrow> bool" and encode :: "'a \<Rightarrow> 'b" and decode :: "'b \<Rightarrow> 'a option"
  assumes decode_encode: "valid x \<Longrightarrow> decode (encode x) = Some x"
begin

lemma encode_inject: "valid x \<Longrightarrow> valid y \<Longrightarrow> encode x = encode y \<longleftrightarrow> x = y"
  by (metis decode_encode option.inject)

end

locale canonical_codec = codec +
  assumes encode_decode: "decode y = Some x \<Longrightarrow> encode x = y \<and> valid x"
begin

lemma decode_iff: "decode y = Some x \<longleftrightarrow> valid x \<and> encode x = y"
  using decode_encode encode_decode by blast

lemma decode_None_iff: "decode y = None \<longleftrightarrow> (\<forall>x. valid x \<longrightarrow> encode x \<noteq> y)"
  by (metis decode_iff option.exhaust option.distinct(1))

end

locale codec_chain =
  outer: canonical_codec valid encode decode + inner: canonical_codec valid' encode' decode'
  for valid :: "'a \<Rightarrow> bool" and encode :: "'a \<Rightarrow> 'b" and decode :: "'b \<Rightarrow> 'a option"
    and valid' :: "'b \<Rightarrow> bool" and encode' :: "'b \<Rightarrow> 'c" and decode' :: "'c \<Rightarrow> 'b option" +
  assumes valid_encode: "valid' (encode x) \<longleftrightarrow> valid x"

sublocale codec_chain \<subseteq> chained:
  canonical_codec valid "\<lambda>x. encode' (encode x)" "\<lambda>z. Option.bind (decode' z) decode"
proof
  show "Option.bind (decode' (encode' (encode x))) decode = Some x" if "valid x" for x
    using that by (simp add: inner.decode_encode outer.decode_encode valid_encode)
  show "encode' (encode x) = z \<and> valid x" if "Option.bind (decode' z) decode = Some x" for x z
    using that by (auto simp: bind_eq_Some_conv outer.decode_iff inner.decode_iff)
qed

end
