(* ===== verification/Rust_Strings.thy ===== *)
theory Rust_Strings
  imports Prelude
begin

text \<open>
  Rust's \<open>String\<close> and \<open>str\<close>: lists of Unicode scalar values, with the parts
  of the standard library that snocat uses on them. UTF-8 encoding (\<open>String::into_bytes\<close>)
  and strict decoding (\<open>String::from_utf8\<close>), decimal printing and \<open>u16::from_str\<close>
  with its error kinds, and splitting at a character. The two UTF-8 functions are shown to be
  inverse to each other, and so are decimal printing and parsing.
\<close>

section \<open>Strings and literals\<close>

type_synonym rchar = nat
type_synonym rstr = "rchar list"

definition lit :: "string \<Rightarrow> rstr" where
  "lit s = map of_char s"

definition scalar :: "rchar \<Rightarrow> bool" where
  "scalar c \<longleftrightarrow> c < 0xD800 \<or> 0xE000 \<le> c \<and> c < 0x110000"

definition valid_str :: "rstr \<Rightarrow> bool" where
  "valid_str s = list_all scalar s"

lemma valid_str_simps [simp]:
  "valid_str []"
  "valid_str (c # s) \<longleftrightarrow> scalar c \<and> valid_str s"
  "valid_str (s @ t) \<longleftrightarrow> valid_str s \<and> valid_str t"
  by (simp_all add: valid_str_def)

section \<open>UTF-8\<close>

definition utf8_char :: "rchar \<Rightarrow> nat list" where
  "utf8_char c =
    (if c < 0x80 then [c]
     else if c < 0x800 then [0xC0 + c div 64, 0x80 + c mod 64]
     else if c < 0x10000 then [0xE0 + c div 4096, 0x80 + c div 64 mod 64, 0x80 + c mod 64]
     else [0xF0 + c div 262144, 0x80 + c div 4096 mod 64, 0x80 + c div 64 mod 64, 0x80 + c mod 64])"

definition cont :: "nat \<Rightarrow> bool" where
  "cont b \<longleftrightarrow> 0x80 \<le> b \<and> b < 0xC0"

fun utf8_decode :: "nat list \<Rightarrow> rstr option" where
  "utf8_decode [] = Some []"
| "utf8_decode (a # xs) =
    (if a < 0x80 then map_option ((#) a) (utf8_decode xs)
     else if 0xC2 \<le> a \<and> a < 0xE0 then
       (case xs of
          b # ys \<Rightarrow>
            if cont b then map_option ((#) ((a - 0xC0) * 64 + (b - 0x80))) (utf8_decode ys)
            else None
        | _ \<Rightarrow> None)
     else if 0xE0 \<le> a \<and> a < 0xF0 then
       (case xs of
          b # c # ys \<Rightarrow>
            if cont b \<and> cont c \<and> (a = 0xE0 \<longrightarrow> 0xA0 \<le> b) \<and> (a = 0xED \<longrightarrow> b < 0xA0)
            then map_option ((#) ((a - 0xE0) * 4096 + (b - 0x80) * 64 + (c - 0x80)))
              (utf8_decode ys)
            else None
        | _ \<Rightarrow> None)
     else if 0xF0 \<le> a \<and> a < 0xF5 then
       (case xs of
          b # c # d # ys \<Rightarrow>
            if cont b \<and> cont c \<and> cont d \<and> (a = 0xF0 \<longrightarrow> 0x90 \<le> b) \<and> (a = 0xF4 \<longrightarrow> b < 0x90)
            then map_option ((#) ((a - 0xF0) * 262144 + (b - 0x80) * 4096 + (c - 0x80) * 64
                + (d - 0x80))) (utf8_decode ys)
            else None
        | _ \<Rightarrow> None)
     else None)"

definition utf8 :: "rstr \<Rightarrow> nat list" where
  "utf8 s = concat (map utf8_char s)"

definition into_bytes :: "rstr \<Rightarrow> byte list" where
  "into_bytes s = map of_nat (utf8 s)"

definition from_utf8 :: "byte list \<Rightarrow> rstr option" where
  "from_utf8 bs = utf8_decode (map unat bs)"

lemma utf8_simps [simp]:
  "utf8 [] = []"
  "utf8 (c # s) = utf8_char c @ utf8 s"
  "utf8 (s @ t) = utf8 s @ utf8 t"
  by (simp_all add: utf8_def)

lemma div64_mod64:
  fixes c :: nat
  shows "c div 4096 * 64 + c div 64 mod 64 = c div 64"
    and "c div 64 * 64 + c mod 64 = c"
    and "c div 262144 * 64 + c div 4096 mod 64 = c div 4096"
proof -
  have "c div 4096 = c div 64 div 64" and "c div 262144 = c div 4096 div 64"
    by (simp_all flip: div_mult2_eq)
  then show "c div 4096 * 64 + c div 64 mod 64 = c div 64"
    and "c div 262144 * 64 + c div 4096 mod 64 = c div 4096"
    by (simp_all only: div_mult_mod_eq)
qed simp

lemma digits64:
  fixes c :: nat
  obtains h i j k where "c = h * 262144 + i * 4096 + j * 64 + k" "i < 64" "j < 64" "k < 64"
    "c mod 64 = k" "c div 64 mod 64 = j" "c div 64 = h * 4096 + i * 64 + j"
    "c div 4096 mod 64 = i" "c div 4096 = h * 64 + i" "c div 262144 = h"
proof
  let ?h = "c div 262144" and ?i = "c div 4096 mod 64" and ?j = "c div 64 mod 64"
  show a: "c div 4096 = ?h * 64 + ?i"
    using div64_mod64(3) [of c] by simp
  then show b: "c div 64 = ?h * 4096 + ?i * 64 + ?j"
    using div64_mod64(1) [of c] by simp
  show "c = ?h * 262144 + ?i * 4096 + ?j * 64 + c mod 64"
    using div64_mod64(2) [of c] arg_cong [OF b, of "\<lambda>x. x * 64 + c mod 64"]
    by (simp only: algebra_simps)
qed auto

lemma utf8_decode_char:
  assumes "scalar c"
  shows "utf8_decode (utf8_char c @ xs) = map_option ((#) c) (utf8_decode xs)"
proof -
  obtain h i j k where c: "c = h * 262144 + i * 4096 + j * 64 + k" "i < 64" "j < 64" "k < 64"
    and d: "c mod 64 = k" "c div 64 mod 64 = j" "c div 64 = h * 4096 + i * 64 + j"
      "c div 4096 mod 64 = i" "c div 4096 = h * 64 + i" "c div 262144 = h"
    by (rule digits64)
  consider (one) "c < 0x80" | (two) "0x80 \<le> c" "c < 0x800" | (three) "0x800 \<le> c" "c < 0x10000"
    | (four) "0x10000 \<le> c" "c < 0x110000"
    using assms by (force simp: scalar_def)
  then show ?thesis
  proof cases
    case one
    then show ?thesis by (simp add: utf8_char_def)
  next
    case two
    then have z: "h = 0" "i = 0"
      using c by linarith+
    then have "2 \<le> j" "j < 32"
      using two c by linarith+
    then show ?thesis
      using two c z by (simp add: utf8_char_def d cont_def)
  next
    case three
    then have z: "h = 0"
      using c by linarith
    then have "i < 16" "i = 0 \<longrightarrow> 32 \<le> j" "i = 13 \<longrightarrow> j < 32"
      using three c assms z by (auto simp: scalar_def)
    moreover have "i * 4096 + j * 64 + k = c"
      using c(1) z by simp
    ultimately show ?thesis
      using three c(2-4) z by (simp add: utf8_char_def d cont_def)
  next
    case four
    then have "h < 5" "h = 0 \<longrightarrow> 16 \<le> i" "h = 4 \<longrightarrow> i < 16"
      using c by auto
    moreover have "h * 262144 + i * 4096 + j * 64 + k = c"
      using c(1) by simp
    ultimately show ?thesis
      using four c(2-4) d(2) by (simp add: utf8_char_def d(1,4-6) cont_def)
  qed
qed

lemma utf8_decode_utf8: "valid_str s \<Longrightarrow> utf8_decode (utf8 s) = Some s"
  by (induction s) (simp_all add: utf8_decode_char)

lemma utf8_char_less: "scalar c \<Longrightarrow> b \<in> set (utf8_char c) \<Longrightarrow> b < 256"
  by (auto simp: utf8_char_def scalar_def less_mult_imp_div_less split: if_splits)

lemma utf8_less: "valid_str s \<Longrightarrow> b \<in> set (utf8 s) \<Longrightarrow> b < 256"
  by (induction s) (auto dest: utf8_char_less)

lemma from_utf8_into_bytes [simp]: "valid_str s \<Longrightarrow> from_utf8 (into_bytes s) = Some s"
proof -
  assume v: "valid_str s"
  then have "map (unat \<circ> (of_nat :: nat \<Rightarrow> byte)) (utf8 s) = utf8 s"
    by (intro map_idI) (auto dest: utf8_less)
  then show ?thesis
    using v by (simp add: from_utf8_def into_bytes_def utf8_decode_utf8)
qed

lemma div_mod_base64:
  fixes q r :: nat
  assumes "r < 64"
  shows "(q * 64 + r) div 64 = q" "(q * 64 + r) mod 64 = r"
  using assms by auto

lemma div_mod_base64_2:
  fixes p q r :: nat
  assumes "q < 64" "r < 64"
  shows "((p * 64 + q) * 64 + r) div 4096 = p"
proof -
  have "((p * 64 + q) * 64 + r) div 4096 = ((p * 64 + q) * 64 + r) div 64 div 64"
    by (simp flip: div_mult2_eq)
  then show ?thesis
    using assms by (simp only: div_mod_base64)
qed

lemma div_mod_base64_3:
  fixes p q r t :: nat
  assumes "q < 64" "r < 64" "t < 64"
  shows "(((p * 64 + q) * 64 + r) * 64 + t) div 262144 = p"
proof -
  have "(((p * 64 + q) * 64 + r) * 64 + t) div 262144
      = (((p * 64 + q) * 64 + r) * 64 + t) div 64 div 4096"
    by (simp flip: div_mult2_eq)
  then show ?thesis
    using assms by (simp only: div_mod_base64 div_mod_base64_2)
qed

lemma utf8_char_2:
  assumes "2 \<le> p" "p < 32" "q < 64"
  shows "utf8_char (p * 64 + q) = [0xC0 + p, 0x80 + q]" "scalar (p * 64 + q)"
  using assms div_mod_base64 [of q p] by (simp_all add: utf8_char_def scalar_def)

lemma utf8_char_3:
  assumes "p < 16" "q < 64" "r < 64" "p = 0 \<longrightarrow> 32 \<le> q" "p = 13 \<longrightarrow> q < 32"
  shows "utf8_char ((p * 64 + q) * 64 + r) = [0xE0 + p, 0x80 + q, 0x80 + r]"
    "scalar ((p * 64 + q) * 64 + r)"
proof -
  have "0x800 \<le> (p * 64 + q) * 64 + r" "(p * 64 + q) * 64 + r < 0x10000"
    using assms by (cases "p = 0"; simp)+
  then show "utf8_char ((p * 64 + q) * 64 + r) = [0xE0 + p, 0x80 + q, 0x80 + r]"
    using assms by (simp only: utf8_char_def div_mod_base64 div_mod_base64_2) simp
  show "scalar ((p * 64 + q) * 64 + r)"
    unfolding scalar_def using assms by (cases p "13 :: nat" rule: linorder_cases) auto
qed

lemma utf8_char_4:
  assumes "p < 5" "q < 64" "r < 64" "t < 64" "p = 0 \<longrightarrow> 16 \<le> q" "p = 4 \<longrightarrow> q < 16"
  shows "utf8_char (((p * 64 + q) * 64 + r) * 64 + t) = [0xF0 + p, 0x80 + q, 0x80 + r, 0x80 + t]"
    "scalar (((p * 64 + q) * 64 + r) * 64 + t)"
proof -
  have ge: "0x10000 \<le> ((p * 64 + q) * 64 + r) * 64 + t"
    using assms by (cases "p = 0"; simp)
  have "((p * 64 + q) * 64 + r) * 64 + t < 0x110000"
    using assms by (cases "p = 4"; simp)
  then show "scalar (((p * 64 + q) * 64 + r) * 64 + t)"
    using ge by (simp add: scalar_def)
  show "utf8_char (((p * 64 + q) * 64 + r) * 64 + t) = [0xF0 + p, 0x80 + q, 0x80 + r, 0x80 + t]"
    using ge assms
    by (simp only: utf8_char_def div_mod_base64 div_mod_base64_2 div_mod_base64_3) simp
qed

lemma contE:
  assumes "cont b"
  obtains q where "b = 0x80 + q" "q < 64"
proof
  show "b = 0x80 + (b - 0x80)" "b - 0x80 < 64"
    using assms by (auto simp: cont_def)
qed

lemma utf8_utf8_decode: "utf8_decode bs = Some s \<Longrightarrow> utf8 s = bs \<and> valid_str s"
proof (induction bs arbitrary: s rule: utf8_decode.induct)
  case (2 a xs)
  consider (one) "a < 0x80" | (two) "\<not> a < 0x80" "0xC2 \<le> a \<and> a < 0xE0"
    | (three) "\<not> a < 0x80" "\<not> (0xC2 \<le> a \<and> a < 0xE0)" "0xE0 \<le> a \<and> a < 0xF0"
    | (four) "\<not> a < 0x80" "\<not> (0xC2 \<le> a \<and> a < 0xE0)" "\<not> (0xE0 \<le> a \<and> a < 0xF0)"
       "0xF0 \<le> a \<and> a < 0xF5"
    using "2.prems" by (auto split: if_splits)
  then show ?case
  proof cases
    case one
    with 2 show ?thesis by (auto simp: utf8_char_def scalar_def)
  next
    case two
    then obtain b ys t where xs: "xs = b # ys" "cont b" "utf8_decode ys = Some t"
      and s: "s = ((a - 0xC0) * 64 + (b - 0x80)) # t"
      using "2.prems" by (auto split: list.splits if_splits)
    obtain q where q: "b = 0x80 + q" "q < 64" using xs(2) by (rule contE)
    obtain p where p: "a = 0xC0 + p" using two le_Suc_ex [of "0xC0" a] by auto
    show ?thesis
      using "2.IH"(2) [OF two xs] two utf8_char_2 [of p q] s xs p q by simp
  next
    case three
    then obtain b c ys t where xs: "xs = b # c # ys" "utf8_decode ys = Some t"
      and g: "cont b \<and> cont c \<and> (a = 0xE0 \<longrightarrow> 0xA0 \<le> b) \<and> (a = 0xED \<longrightarrow> b < 0xA0)"
      and s: "s = ((a - 0xE0) * 4096 + (b - 0x80) * 64 + (c - 0x80)) # t"
      using "2.prems" by (auto split: list.splits if_splits)
    obtain q where q: "b = 0x80 + q" "q < 64" using g by (auto elim: contE)
    obtain r where r: "c = 0x80 + r" "r < 64" using g by (auto elim: contE)
    obtain p where p: "a = 0xE0 + p" using three le_Suc_ex [of "0xE0" a] by auto
    show ?thesis
      using "2.IH"(3) [OF three xs(1) _ g xs(2)] three utf8_char_3 [of p q r] g s xs p q r
      by (simp add: algebra_simps)
  next
    case four
    then obtain b c d ys t where xs: "xs = b # c # d # ys" "utf8_decode ys = Some t"
      and g: "cont b \<and> cont c \<and> cont d \<and> (a = 0xF0 \<longrightarrow> 0x90 \<le> b) \<and> (a = 0xF4 \<longrightarrow> b < 0x90)"
      and s: "s = ((a - 0xF0) * 262144 + (b - 0x80) * 4096 + (c - 0x80) * 64 + (d - 0x80)) # t"
      using "2.prems" by (auto split: list.splits if_splits)
    obtain q where q: "b = 0x80 + q" "q < 64" using g by (auto elim: contE)
    obtain r where r: "c = 0x80 + r" "r < 64" using g by (auto elim: contE)
    obtain u where u: "d = 0x80 + u" "u < 64" using g by (auto elim: contE)
    obtain p where p: "a = 0xF0 + p" using four le_Suc_ex [of "0xF0" a] by auto
    show ?thesis
      using "2.IH"(4) [OF four xs(1) _ _ g xs(2)] four utf8_char_4 [of p q r u] g s xs p q r u
      by (simp add: algebra_simps)
  qed
qed simp

lemma into_bytes_from_utf8: "from_utf8 bs = Some s \<Longrightarrow> into_bytes s = bs \<and> valid_str s"
proof -
  assume "from_utf8 bs = Some s"
  then have "utf8 s = map unat bs" "valid_str s"
    by (simp_all add: from_utf8_def utf8_utf8_decode)
  then show ?thesis by (simp add: into_bytes_def comp_def)
qed

interpretation utf8_text: canonical_codec valid_str into_bytes from_utf8
  by unfold_locales (simp_all add: into_bytes_from_utf8)

section \<open>Decimal integers\<close>

datatype int_error_kind = Empty | InvalidDigit | PosOverflow

fun show_nat :: "nat \<Rightarrow> rstr" where
  "show_nat n = (if n < 10 then [48 + n] else show_nat (n div 10) @ [48 + n mod 10])"

declare show_nat.simps [simp del]

definition is_digit :: "rchar \<Rightarrow> bool" where
  "is_digit c \<longleftrightarrow> 48 \<le> c \<and> c < 58"

fun parse_digits :: "nat \<Rightarrow> nat \<Rightarrow> rstr \<Rightarrow> (int_error_kind, nat) result" where
  "parse_digits mx acc [] = Ok acc"
| "parse_digits mx acc (c # cs) =
    (if \<not> is_digit c then Err InvalidDigit
     else if mx < acc * 10 then Err PosOverflow
     else if mx < acc * 10 + (c - 48) then Err PosOverflow
     else parse_digits mx (acc * 10 + (c - 48)) cs)"

definition parse_uint :: "nat \<Rightarrow> rstr \<Rightarrow> (int_error_kind, nat) result" where
  "parse_uint mx s =
    (case s of
       [] \<Rightarrow> Err Empty
     | [c] \<Rightarrow> if c = 43 \<or> c = 45 then Err InvalidDigit else parse_digits mx 0 s
     | c # cs \<Rightarrow> parse_digits mx 0 (if c = 43 then cs else s))"

definition parse_u16 :: "rstr \<Rightarrow> (int_error_kind, port) result" where
  "parse_u16 s = map_ok of_nat (parse_uint 65535 s)"

definition show_u16 :: "port \<Rightarrow> rstr" where
  "show_u16 p = show_nat (unat p)"

lemma show_nat_digits: "c \<in> set (show_nat n) \<Longrightarrow> is_digit c"
proof (induction n rule: show_nat.induct)
  case (1 n)
  have "n mod 10 < 10" by simp
  then show ?case
    using 1 by (subst (asm) (2) show_nat.simps) (auto simp: is_digit_def split: if_splits)
qed

lemma show_nat_not_Nil [simp]: "show_nat n \<noteq> []"
  by (subst show_nat.simps) simp

lemma valid_show_nat [simp]: "valid_str (show_nat n)"
  by (auto simp: valid_str_def list_all_iff is_digit_def scalar_def dest!: show_nat_digits)

lemma parse_digits_append:
  "parse_digits mx acc (s @ t) = and_then (parse_digits mx acc s) (\<lambda>a. parse_digits mx a t)"
  by (induction s arbitrary: acc) auto

lemma parse_digits_show_nat: "n \<le> mx \<Longrightarrow> parse_digits mx 0 (show_nat n) = Ok n"
proof (induction n rule: show_nat.induct)
  case (1 n)
  have m: "n mod 10 < 10" "n div 10 * 10 \<le> n" by simp_all
  show ?case
  proof (cases "n < 10")
    case True
    then show ?thesis
      using 1 by (simp add: show_nat.simps [of n] is_digit_def)
  next
    case False
    then have "parse_digits mx 0 (show_nat (n div 10)) = Ok (n div 10)"
      using 1 m by (intro "1.IH") linarith+
    then show ?thesis
      using False 1 m by (simp add: show_nat.simps [of n] parse_digits_append is_digit_def)
  qed
qed

lemma parse_uint_show_nat: "n \<le> mx \<Longrightarrow> parse_uint mx (show_nat n) = Ok n"
proof -
  assume "n \<le> mx"
  then have p: "parse_digits mx 0 (show_nat n) = Ok n" by (rule parse_digits_show_nat)
  obtain c cs where s: "show_nat n = c # cs" by (cases "show_nat n") auto
  have "is_digit c" using show_nat_digits [of c n] s by simp
  then show ?thesis
    using p by (cases cs) (auto simp: s parse_uint_def is_digit_def)
qed

lemma parse_show_u16 [simp]: "parse_u16 (show_u16 p) = Ok p"
proof -
  have "unat p \<le> 65535" using unat_word16_less [of p] by linarith
  then show ?thesis by (simp add: parse_u16_def show_u16_def parse_uint_show_nat)
qed

lemma valid_show_u16 [simp]: "valid_str (show_u16 p)"
  by (simp add: show_u16_def)

lemma show_u16_not_mem [simp]: "\<not> is_digit c \<Longrightarrow> c \<notin> set (show_u16 p)"
  by (auto simp: show_u16_def dest: show_nat_digits)

lemma show_u16_inj [simp]: "show_u16 p = show_u16 q \<longleftrightarrow> p = q"
  by (metis parse_show_u16 sum.inject(2))

interpretation u16_text: codec "\<lambda>_. True" show_u16 "\<lambda>s. ok (parse_u16 s)"
  by unfold_locales simp

end
