(* ===== verification/Byte_IO.thy ===== *)
theory Byte_IO
  imports Prelude
begin

text \<open>
  Asynchronous byte-stream code. An \<open>async fn\<close> that reads from and writes to a
  \<open>TunnelStream\<close> is an \<open>io\<close> value: a tree whose nodes are the calls of tokio's
  \<open>AsyncReadExt\<close> and \<open>AsyncWriteExt\<close> the code awaits, in the order the code awaits
  them, each with the continuation that receives its outcome.

  Two semantics are given. \<open>run_io\<close> runs one party against a \<open>link\<close>: the bytes the
  remote sends before it closes, the bytes written so far, and how many more bytes the stream
  accepts before a write fails. \<open>net_step\<close> runs two parties against each other over a
  bidirectional stream, one await at a time and in every interleaving; it is shown to terminate
  and to be confluent, so that one run to completion determines all of them.
\<close>

section \<open>Programs\<close>

datatype 'a io =
    Done 'a
  | Recv nat "byte list option \<Rightarrow> 'a io"
  | Send "byte list" "bool \<Rightarrow> 'a io"
  | Race "bool \<Rightarrow> 'a io"

text \<open>
  \<open>Recv n\<close> is \<open>read_exact\<close> with a buffer of \<open>n\<close> bytes: \<open>None\<close> when the
  stream ends or fails before the buffer is full. \<open>Send bs\<close> is \<open>write_all(bs)\<close>.
  \<open>Race k\<close> is a \<open>try_join\<close> of a reading half and a writing half; \<open>k True\<close> is
  the order in which the reading half completes first and \<open>k False\<close> the order in which the
  writing half does.
\<close>

primrec io_bind :: "'a io \<Rightarrow> ('a \<Rightarrow> 'b io) \<Rightarrow> 'b io" where
  "io_bind (Done a) f = f a"
| "io_bind (Recv n k) f = Recv n (\<lambda>r. io_bind (k r) f)"
| "io_bind (Send bs k) f = Send bs (\<lambda>r. io_bind (k r) f)"
| "io_bind (Race k) f = Race (\<lambda>r. io_bind (k r) f)"

definition io_then :: "('e, 'a) result io \<Rightarrow> ('a \<Rightarrow> ('e, 'b) result io) \<Rightarrow> ('e, 'b) result io" where
  "io_then p f = io_bind p (\<lambda>r. case r of Inl e \<Rightarrow> Done (Inl e) | Inr a \<Rightarrow> f a)"

definition io_map :: "('a \<Rightarrow> 'b) \<Rightarrow> 'a io \<Rightarrow> 'b io" where
  "io_map f p = io_bind p (\<lambda>a. Done (f a))"

definition io_map_err :: "('e \<Rightarrow> 'f) \<Rightarrow> ('e, 'a) result io \<Rightarrow> ('f, 'a) result io" where
  "io_map_err f p = io_map (map_err f) p"

lemma io_bind_Done [simp]: "io_bind p Done = p"
  by (induction p) auto

lemma io_bind_assoc [simp]: "io_bind (io_bind p f) g = io_bind p (\<lambda>a. io_bind (f a) g)"
  by (induction p) auto

section \<open>The primitives of AsyncReadExt and AsyncWriteExt\<close>

definition read_exact :: "nat \<Rightarrow> byte list option io" where
  "read_exact n = Recv n Done"

definition read_u8 :: "byte option io" where
  "read_u8 = Recv 1 (\<lambda>r. Done (map_option hd r))"

definition read_u32 :: "32 word option io" where
  "read_u32 = Recv 4 (\<lambda>r. Done (map_option u32_from_be_bytes r))"

definition write_all :: "byte list \<Rightarrow> bool io" where
  "write_all bs = Send bs Done"

definition write_u8 :: "byte \<Rightarrow> bool io" where
  "write_u8 b = Send [b] Done"

definition write_u32 :: "32 word \<Rightarrow> bool io" where
  "write_u32 w = Send (u32_to_be_bytes w) Done"

definition or_err :: "'e \<Rightarrow> 'a option io \<Rightarrow> ('e, 'a) result io" where
  "or_err e p = io_map (ok_or e) p"

definition or_fail :: "'e \<Rightarrow> bool io \<Rightarrow> ('e, unit) result io" where
  "or_fail e p = io_map (\<lambda>b. if b then Ok () else Err e) p"

lemmas io_prim_defs = read_exact_def read_u8_def read_u32_def write_all_def write_u8_def
  write_u32_def or_err_def or_fail_def io_map_def io_map_err_def io_then_def

section \<open>One party against a link\<close>

record link =
  rx :: "byte list"
  tx :: "byte list"
  wcap :: "nat option"
  read_first :: bool

definition link_recv :: "nat \<Rightarrow> link \<Rightarrow> byte list option \<times> link" where
  "link_recv n l = (if n \<le> length (rx l) then (Some (take n (rx l)), l\<lparr>rx := drop n (rx l)\<rparr>)
                    else (None, l\<lparr>rx := []\<rparr>))"

definition link_send :: "byte list \<Rightarrow> link \<Rightarrow> bool \<times> link" where
  "link_send bs l = (case wcap l of
      None \<Rightarrow> (True, l\<lparr>tx := tx l @ bs\<rparr>)
    | Some c \<Rightarrow> if length bs \<le> c then (True, l\<lparr>tx := tx l @ bs, wcap := Some (c - length bs)\<rparr>)
        else (False, l\<lparr>tx := tx l @ take c bs, wcap := Some 0\<rparr>))"

primrec run_io :: "'a io \<Rightarrow> link \<Rightarrow> 'a \<times> link" where
  "run_io (Done a) l = (a, l)"
| "run_io (Recv n k) l = (case link_recv n l of (r, l') \<Rightarrow> run_io (k r) l')"
| "run_io (Send bs k) l = (case link_send bs l of (r, l') \<Rightarrow> run_io (k r) l')"
| "run_io (Race k) l = run_io (k (read_first l)) l"

lemma run_io_bind [io_simps]:
  "run_io (io_bind p f) l = (case run_io p l of (a, l') \<Rightarrow> run_io (f a) l')"
  by (induction p arbitrary: l) (auto split: prod.splits)

lemma run_io_then [io_simps]:
  "run_io (io_then p f) l = (case run_io p l of (Inl e, l') \<Rightarrow> (Inl e, l') | (Inr a, l') \<Rightarrow> run_io (f a) l')"
  by (auto simp: io_then_def run_io_bind split: prod.splits sum.splits)

lemma run_then_Err: "fst (run_io p l) = Err e \<Longrightarrow> fst (run_io (io_then p f) l) = Err e"
  by (auto simp: run_io_then split: prod.splits sum.splits)

lemma run_then_Ok: "run_io p l = (Ok a, l') \<Longrightarrow> run_io (io_then p f) l = run_io (f a) l'"
  by (simp add: run_io_then)

lemma run_io_map [io_simps]:
  "run_io (io_map f p) l = (case run_io p l of (a, l') \<Rightarrow> (f a, l'))"
  by (simp add: io_map_def run_io_bind)

lemma run_io_map_err [io_simps]:
  "run_io (io_map_err f p) l = (case run_io p l of (a, l') \<Rightarrow> (map_err f a, l'))"
  by (simp add: io_map_err_def run_io_map)

lemma run_or_err [io_simps]:
  "run_io (or_err e p) l = (case run_io p l of (a, l') \<Rightarrow> (ok_or e a, l'))"
  by (simp add: or_err_def run_io_map)

lemma run_or_fail [io_simps]:
  "run_io (or_fail e p) l = (case run_io p l of (b, l') \<Rightarrow> (if b then Ok () else Err e, l'))"
  by (simp add: or_fail_def run_io_map)

lemma run_prims [io_simps]:
  "run_io (read_exact n) l = link_recv n l"
  "run_io read_u8 l = (case link_recv 1 l of (r, l') \<Rightarrow> (map_option hd r, l'))"
  "run_io read_u32 l = (case link_recv 4 l of (r, l') \<Rightarrow> (map_option u32_from_be_bytes r, l'))"
  "run_io (write_all bs) l = link_send bs l"
  "run_io (write_u8 b) l = link_send [b] l"
  "run_io (write_u32 w) l = link_send (u32_to_be_bytes w) l"
  by (simp_all add: io_prim_defs split: prod.splits)

lemma link_recv_append [io_simps]:
  "length bs = n \<Longrightarrow> rx l = bs @ rest \<Longrightarrow> link_recv n l = (Some bs, l\<lparr>rx := rest\<rparr>)"
  by (auto simp: link_recv_def)

lemma link_recv_short: "length (rx l) < n \<Longrightarrow> link_recv n l = (None, l\<lparr>rx := []\<rparr>)"
  by (simp add: link_recv_def)

lemma link_send_open: "wcap l = None \<Longrightarrow> link_send bs l = (True, l\<lparr>tx := tx l @ bs\<rparr>)"
  by (simp add: link_send_def)

text \<open>Writing never reads and reading never writes, and what is written is only ever extended.\<close>

lemma link_recv_frame:
  "link_recv n l = (r, l') \<Longrightarrow> tx l' = tx l \<and> wcap l' = wcap l \<and> read_first l' = read_first l
     \<and> (\<exists>used. rx l = used @ rx l')"
  by (auto simp: link_recv_def split: if_splits) (metis append_take_drop_id)

lemma link_send_frame:
  "link_send bs l = (r, l') \<Longrightarrow> rx l' = rx l \<and> read_first l' = read_first l
     \<and> (\<exists>out. tx l' = tx l @ out)"
  by (auto simp: link_send_def split: option.splits if_splits)

lemma run_io_frame:
  "run_io p l = (a, l') \<Longrightarrow> (\<exists>used. rx l = used @ rx l') \<and> (\<exists>out. tx l' = tx l @ out)"
proof (induction p arbitrary: l)
  case (Recv n k)
  obtain r m where m: "link_recv n l = (r, m)" by (cases "link_recv n l")
  then have "run_io (k r) m = (a, l')" using Recv.prems by simp
  from Recv.IH [OF rangeI this] link_recv_frame [OF m] show ?case
    by (metis append.assoc)
next
  case (Send bs k)
  obtain r m where m: "link_send bs l = (r, m)" by (cases "link_send bs l")
  then have "run_io (k r) m = (a, l')" using Send.prems by simp
  from Send.IH [OF rangeI this] link_send_frame [OF m] show ?case
    by (metis append.assoc)
next
  case (Race k)
  then show ?case using Race.IH [OF rangeI] by simp
qed simp

lemma link_open:
  "wcap l = None \<Longrightarrow> wcap (snd (link_recv n l)) = None"
  "wcap l = None \<Longrightarrow> wcap (snd (link_send bs l)) = None"
  by (simp_all add: link_recv_def link_send_def)

lemma run_io_open: "wcap l = None \<Longrightarrow> wcap (snd (run_io p l)) = None"
proof (induction p arbitrary: l)
  case (Recv n k)
  then show ?case
    using link_open(1) [of l n] by (cases "link_recv n l") simp
next
  case (Send bs k)
  then show ?case
    using link_open(2) [of l bs] by (cases "link_send bs l") simp
qed simp_all

section \<open>Two parties over one stream\<close>

text \<open>
  A configuration of two parties: the program of each and the bytes in flight in each direction.
  A party whose program has ended with an error drops its end of the stream, which the other
  party sees as the end of the stream once the bytes in flight are consumed; a party that ended
  with \<open>Ok\<close> keeps the stream. Writes are buffered and succeed. A \<open>Race\<close> goes
  through its writing half first: it never has to wait for the remote, whereas the reading half
  is seen first only when the remote's bytes have already arrived, and the two orders of a
  successful exchange are shown equal where the protocol is modelled.
\<close>

record ('a, 'b) net =
  lhs :: "'a io"
  rhs :: "'b io"
  to_rhs :: "byte list"
  to_lhs :: "byte list"

fun dropped :: "('e, 'a) result io \<Rightarrow> bool" where
  "dropped (Done (Inl e)) = True"
| "dropped p = False"

fun party_step :: "'a io \<Rightarrow> bool \<Rightarrow> byte list \<Rightarrow> ('a io \<times> byte list \<times> byte list) option" where
  "party_step (Done a) eof inp = None"
| "party_step (Recv n k) eof inp =
    (if n \<le> length inp then Some (k (Some (take n inp)), drop n inp, [])
     else if eof then Some (k None, [], [])
     else None)"
| "party_step (Send bs k) eof inp = Some (k True, inp, bs)"
| "party_step (Race k) eof inp = Some (k False, inp, [])"

inductive net_step ::
  "(('e, 'a) result, ('f, 'b) result) net \<Rightarrow> (('e, 'a) result, ('f, 'b) result) net \<Rightarrow> bool" where
  step_lhs: "party_step (lhs c) (dropped (rhs c)) (to_lhs c) = Some (p, inp, out) \<Longrightarrow>
     net_step c (c\<lparr>lhs := p, to_lhs := inp, to_rhs := to_rhs c @ out\<rparr>)"
| step_rhs: "party_step (rhs c) (dropped (lhs c)) (to_rhs c) = Some (p, inp, out) \<Longrightarrow>
     net_step c (c\<lparr>rhs := p, to_rhs := inp, to_lhs := to_lhs c @ out\<rparr>)"

inductive_cases net_stepE: "net_step c d"

definition net_start :: "'a io \<Rightarrow> 'b io \<Rightarrow> ('a, 'b) net" where
  "net_start p q = \<lparr>lhs = p, rhs = q, to_rhs = [], to_lhs = []\<rparr>"

subsection \<open>Every run of two parties ends\<close>

inductive sub_io :: "'a io \<Rightarrow> 'a io \<Rightarrow> bool" where
  "sub_io (k r) (Recv n k)"
| "sub_io (k b) (Send bs k)"
| "sub_io (k b) (Race k)"

inductive_simps sub_io_simps [simp]:
  "sub_io q (Done a)"
  "sub_io q (Recv n k)"
  "sub_io q (Send bs k)"
  "sub_io q (Race k)"

lemma wfP_sub_io: "wfP sub_io"
proof (rule wfpUNIVI)
  fix P :: "'a io \<Rightarrow> bool" and p
  assume hyp: "\<forall>p. (\<forall>q. sub_io q p \<longrightarrow> P q) \<longrightarrow> P p"
  show "P p"
  proof (induction p)
    case (Done a)
    show ?case by (rule hyp [rule_format]) simp
  next
    case (Recv n k)
    show ?case by (rule hyp [rule_format]) (use Recv in auto)
  next
    case (Send bs k)
    show ?case by (rule hyp [rule_format]) (use Send in auto)
  next
    case (Race k)
    show ?case by (rule hyp [rule_format]) (use Race in auto)
  qed
qed

lemma party_step_sub: "party_step p eof inp = Some (q, inp', out) \<Longrightarrow> sub_io q p"
  by (cases p) (auto split: if_splits)

lemma wf_net_step: "wf {(d, c). net_step c d}"
proof -
  let ?s = "{(p :: ('a, 'b) result io, q). sub_io p q}" and ?t = "{(p :: ('c, 'd) result io, q). sub_io p q}"
  have "wf ?s" "wf ?t"
    using wfP_sub_io [unfolded wfp_def] by simp_all
  then have "wf (inv_image (?s <*lex*> ?t) (\<lambda>c. (lhs c, rhs c)))"
    by (intro wf_inv_image wf_lex_prod)
  then show ?thesis
    by (rule wf_subset) (auto elim!: net_stepE dest!: party_step_sub)
qed

subsection \<open>Determinacy\<close>

lemma party_step_more:
  assumes "party_step p eof inp = Some (q, inp', out)" and "\<not> eof"
  shows "party_step p eof' (inp @ ext) = Some (q, inp' @ ext, out)"
  using assms by (cases p) (auto split: if_splits)

lemma party_step_not_Done: "party_step p eof inp = Some r \<Longrightarrow> \<not> dropped p"
  by (cases p) auto

lemma net_step_diamond:
  assumes "net_step c d" "net_step c e" "d \<noteq> e"
  shows "\<exists>f. net_step d f \<and> net_step e f"
proof -
  have lr: "\<exists>f. net_step (c\<lparr>lhs := p, to_lhs := i, to_rhs := to_rhs c @ out\<rparr>) f
        \<and> net_step (c\<lparr>rhs := q, to_rhs := j, to_lhs := to_lhs c @ out'\<rparr>) f"
    if l: "party_step (lhs c) (dropped (rhs c)) (to_lhs c) = Some (p, i, out)"
      and r: "party_step (rhs c) (dropped (lhs c)) (to_rhs c) = Some (q, j, out')"
    for p q i j out out'
  proof -
    have "\<not> dropped (rhs c)" "\<not> dropped (lhs c)"
      using l r by (auto dest: party_step_not_Done)
    then have "party_step (lhs c) (dropped q) (to_lhs c @ out') = Some (p, i @ out', out)"
      and "party_step (rhs c) (dropped p) (to_rhs c @ out) = Some (q, j @ out, out')"
      using l r party_step_more by blast+
    then have
      "net_step (c\<lparr>lhs := p, to_lhs := i, to_rhs := to_rhs c @ out\<rparr>)
         \<lparr>lhs = p, rhs = q, to_rhs = j @ out, to_lhs = i @ out'\<rparr>"
      "net_step (c\<lparr>rhs := q, to_rhs := j, to_lhs := to_lhs c @ out'\<rparr>)
         \<lparr>lhs = p, rhs = q, to_rhs = j @ out, to_lhs = i @ out'\<rparr>"
      using net_step.step_rhs [of "c\<lparr>lhs := p, to_lhs := i, to_rhs := to_rhs c @ out\<rparr>"
          q "j @ out" out']
        net_step.step_lhs [of "c\<lparr>rhs := q, to_rhs := j, to_lhs := to_lhs c @ out'\<rparr>"
          p "i @ out'" out]
      by (cases c, simp)+
    then show ?thesis by blast
  qed
  from assms(1) show ?thesis
  proof cases
    case l: (step_lhs p i out)
    from assms(2) show ?thesis
    proof cases
      case (step_lhs p' i' out')
      then show ?thesis using l assms(3) by simp
    next
      case (step_rhs q j out')
      then show ?thesis using lr [OF l(2)] l(1) by blast
    qed
  next
    case r: (step_rhs q j out)
    from assms(2) show ?thesis
    proof cases
      case (step_lhs p i out')
      then show ?thesis using lr [OF _ r(2)] r(1) by blast
    next
      case (step_rhs q' j' out')
      then show ?thesis using r assms(3) by simp
    qed
  qed
qed

lemma net_strip:
  assumes "net_step\<^sup>*\<^sup>* c d" "net_step c e"
  shows "\<exists>f. net_step\<^sup>=\<^sup>= d f \<and> net_step\<^sup>*\<^sup>* e f"
  using assms
proof (induction rule: rtranclp_induct)
  case (step d d')
  then obtain f where f: "net_step\<^sup>=\<^sup>= d f" "net_step\<^sup>*\<^sup>* e f" by blast
  show ?case
  proof (cases "d = f \<or> d' = f")
    case True
    then show ?thesis
      using f step.hyps by (auto intro: rtranclp.rtrancl_into_rtrancl)
  next
    case False
    then have "net_step d f" using f by auto
    then obtain g where "net_step d' g" "net_step f g"
      using net_step_diamond [OF step.hyps(2)] False by blast
    then show ?thesis
      using f by (auto intro: rtranclp.rtrancl_into_rtrancl)
  qed
qed auto

definition settled :: "(('e, 'a) result, ('f, 'b) result) net \<Rightarrow> bool" where
  "settled c \<longleftrightarrow> party_step (lhs c) (dropped (rhs c)) (to_lhs c) = None
     \<and> party_step (rhs c) (dropped (lhs c)) (to_rhs c) = None"

lemma settled_iff: "settled c \<longleftrightarrow> (\<forall>d. \<not> net_step c d)"
proof
  assume "settled c"
  then show "\<forall>d. \<not> net_step c d"
    by (auto simp: settled_def elim: net_stepE)
next
  assume a: "\<forall>d. \<not> net_step c d"
  have "party_step (lhs c) (dropped (rhs c)) (to_lhs c) \<noteq> Some (p, i, out)"
    "party_step (rhs c) (dropped (lhs c)) (to_rhs c) \<noteq> Some (q, j, out')" for p q i j out out'
    using a net_step.intros [of c] by blast+
  then show "settled c"
    unfolding settled_def by (metis option.exhaust prod_cases3)
qed

theorem net_determined:
  assumes "net_step\<^sup>*\<^sup>* c d" "settled d" "net_step\<^sup>*\<^sup>* c e"
  shows "net_step\<^sup>*\<^sup>* e d"
  using assms(3,1)
proof (induction rule: rtranclp_induct)
  case (step e e')
  from net_strip [OF step.IH [OF step.prems] step.hyps(2)] obtain f
    where "net_step\<^sup>=\<^sup>= d f" "net_step\<^sup>*\<^sup>* e' f" by blast
  then show ?case
    using assms(2) by (auto simp: settled_iff)
qed

subsection \<open>Running a configuration to its end\<close>

text \<open>
  \<open>net_run\<close> lets the left party go as far as it can, then the right party, until neither can
  move. By determinacy any other order ends in the same configuration.
\<close>

definition net_next ::
  "(('e, 'a) result, ('f, 'b) result) net \<Rightarrow> (('e, 'a) result, ('f, 'b) result) net option" where
  "net_next c = (case party_step (lhs c) (dropped (rhs c)) (to_lhs c) of
      Some (p, inp, out) \<Rightarrow> Some (c\<lparr>lhs := p, to_lhs := inp, to_rhs := to_rhs c @ out\<rparr>)
    | None \<Rightarrow>
      (case party_step (rhs c) (dropped (lhs c)) (to_rhs c) of
         Some (p, inp, out) \<Rightarrow> Some (c\<lparr>rhs := p, to_rhs := inp, to_lhs := to_lhs c @ out\<rparr>)
       | None \<Rightarrow> None))"

lemma net_next_step: "net_next c = Some d \<Longrightarrow> net_step c d"
  by (auto simp: net_next_def split: option.splits intro: net_step.intros)

lemma net_next_settled: "net_next c = None \<longleftrightarrow> settled c"
  by (auto simp: net_next_def settled_def split: option.splits)

function net_run ::
  "(('e, 'a) result, ('f, 'b) result) net \<Rightarrow> (('e, 'a) result, ('f, 'b) result) net" where
  "net_run c = (case net_next c of None \<Rightarrow> c | Some d \<Rightarrow> net_run d)"
  by pat_completeness auto
termination
  by (relation "{(d, c). net_step c d}") (auto simp: wf_net_step net_next_step)

declare net_run.simps [simp del]

lemma net_run_reach: "net_step\<^sup>*\<^sup>* c (net_run c) \<and> settled (net_run c)"
proof (induction c rule: net_run.induct)
  case (1 c)
  show ?case
  proof (cases "net_next c")
    case None
    then have "net_run c = c" "settled c"
      by (simp_all add: net_run.simps [of c] flip: net_next_settled)
    then show ?thesis by simp
  next
    case (Some d)
    then have "net_step\<^sup>*\<^sup>* c (net_run d)"
      using 1 net_next_step [OF Some] by (auto intro: converse_rtranclp_into_rtranclp)
    then show ?thesis
      using 1 Some by (simp add: net_run.simps [of c])
  qed
qed

theorem net_run_only_end:
  assumes "net_step\<^sup>*\<^sup>* c e"
  shows "net_step\<^sup>*\<^sup>* e (net_run c)" and "settled e \<Longrightarrow> e = net_run c"
proof -
  show *: "net_step\<^sup>*\<^sup>* e (net_run c)"
    using net_determined net_run_reach assms by blast
  show "e = net_run c" if "settled e"
    using * that by (auto simp: settled_iff elim: converse_rtranclpE)
qed

lemma net_run_step: "net_step c d \<Longrightarrow> net_run c = net_run d"
  using net_run_only_end(2) [of c "net_run d"] net_run_reach [of d]
  by (metis converse_rtranclp_into_rtranclp)

lemma net_run_lhs:
  assumes "party_step p (dropped q) y = Some (p', y', out)"
  shows "net_run \<lparr>lhs = p, rhs = q, to_rhs = x, to_lhs = y\<rparr> =
    net_run \<lparr>lhs = p', rhs = q, to_rhs = x @ out, to_lhs = y'\<rparr>"
  using net_run_step [OF step_lhs [of "\<lparr>lhs = p, rhs = q, to_rhs = x, to_lhs = y\<rparr>"]] assms
  by simp

lemma net_run_rhs:
  assumes "party_step q (dropped p) x = Some (q', x', out)"
  shows "net_run \<lparr>lhs = p, rhs = q, to_rhs = x, to_lhs = y\<rparr> =
    net_run \<lparr>lhs = p, rhs = q', to_rhs = x', to_lhs = y @ out\<rparr>"
  using net_run_step [OF step_rhs [of "\<lparr>lhs = p, rhs = q, to_rhs = x, to_lhs = y\<rparr>"]] assms
  by simp

named_theorems net_simps \<open>execution of two parties\<close>

lemma net_run_simps [net_simps]:
  "net_run \<lparr>lhs = Send bs k, rhs = q, to_rhs = x, to_lhs = y\<rparr> =
     net_run \<lparr>lhs = k True, rhs = q, to_rhs = x @ bs, to_lhs = y\<rparr>"
  "net_run \<lparr>lhs = Race k, rhs = q, to_rhs = x, to_lhs = y\<rparr> =
     net_run \<lparr>lhs = k False, rhs = q, to_rhs = x, to_lhs = y\<rparr>"
  "n \<le> length y \<Longrightarrow> net_run \<lparr>lhs = Recv n j, rhs = q, to_rhs = x, to_lhs = y\<rparr> =
     net_run \<lparr>lhs = j (Some (take n y)), rhs = q, to_rhs = x, to_lhs = drop n y\<rparr>"
  "length y < n \<Longrightarrow> net_run \<lparr>lhs = Recv n j, rhs = Done (Inl e), to_rhs = x, to_lhs = y\<rparr> =
     net_run \<lparr>lhs = j None, rhs = Done (Inl e), to_rhs = x, to_lhs = []\<rparr>"
  "net_run \<lparr>lhs = p, rhs = Send bs l, to_rhs = x, to_lhs = y\<rparr> =
     net_run \<lparr>lhs = p, rhs = l True, to_rhs = x, to_lhs = y @ bs\<rparr>"
  "net_run \<lparr>lhs = p, rhs = Race l, to_rhs = x, to_lhs = y\<rparr> =
     net_run \<lparr>lhs = p, rhs = l False, to_rhs = x, to_lhs = y\<rparr>"
  "n \<le> length x \<Longrightarrow> net_run \<lparr>lhs = p, rhs = Recv n m, to_rhs = x, to_lhs = y\<rparr> =
     net_run \<lparr>lhs = p, rhs = m (Some (take n x)), to_rhs = drop n x, to_lhs = y\<rparr>"
  "length x < n \<Longrightarrow> net_run \<lparr>lhs = Done (Inl d), rhs = Recv n m, to_rhs = x, to_lhs = y\<rparr> =
     net_run \<lparr>lhs = Done (Inl d), rhs = m None, to_rhs = [], to_lhs = y\<rparr>"
  "net_run \<lparr>lhs = Done a, rhs = Done b, to_rhs = x, to_lhs = y\<rparr> =
     \<lparr>lhs = Done a, rhs = Done b, to_rhs = x, to_lhs = y\<rparr>"
  by (simp_all add: net_run_lhs net_run_rhs)
    (simp add: net_run.simps [of "\<lparr>lhs = Done a, rhs = Done b, to_rhs = x, to_lhs = y\<rparr>"] net_next_def)

end
