(* ===== verification/Address.thy ===== *)
theory Address
  imports Rust_Strings
begin

text \<open>
  Route addresses (\<open>common/protocol/address.rs\<close>): the segment list, its operations, the
  escaped rendering and the parser. Rendering and parsing are inverse to each other, the
  capacity estimate of the renderer is the exact byte length, and parsing fails exactly on a
  missing leading slash and on an escape sequence other than the two legal ones.
\<close>

section \<open>Addresses and their segments\<close>

record route_address =
  segments :: "rstr list"

definition iter_segments :: "route_address \<Rightarrow> rstr list" where
  "iter_segments a = segments a"

definition into_suffixed :: "route_address \<Rightarrow> rstr list \<Rightarrow> route_address" where
  "into_suffixed a added_suffix = a\<lparr>segments := segments a @ added_suffix\<rparr>"

definition with_suffix :: "route_address \<Rightarrow> rstr list \<Rightarrow> route_address" where
  "with_suffix a added_suffix = into_suffixed a added_suffix"

definition with_prefix :: "route_address \<Rightarrow> rstr list \<Rightarrow> route_address" where
  "with_prefix a added_prefix = \<lparr>segments = added_prefix @ segments a\<rparr>"

fun strip_segments :: "rstr list \<Rightarrow> rstr list \<Rightarrow> rstr list option" where
  "strip_segments actual [] = Some actual"
| "strip_segments [] (e # es) = None"
| "strip_segments (x # xs) (e # es) = (if x \<noteq> e then None else strip_segments xs es)"

definition strip_segment_prefix :: "route_address \<Rightarrow> rstr list \<Rightarrow> rstr list option" where
  "strip_segment_prefix a expected_segments = strip_segments (iter_segments a) expected_segments"

definition address_of_segments :: "rstr list \<Rightarrow> route_address" where
  "address_of_segments ss = \<lparr>segments = ss\<rparr>"

section \<open>Rendering\<close>

abbreviation slash :: rchar where "slash \<equiv> 47"
abbreviation backslash :: rchar where "backslash \<equiv> 92"

definition needs_escaped :: "rchar \<Rightarrow> bool" where
  "needs_escaped c \<longleftrightarrow> c = slash \<or> c = backslash"

definition estimate_rendered_segment_upper_length_bound :: "rstr \<Rightarrow> nat" where
  "estimate_rendered_segment_upper_length_bound segment =
     length (utf8 segment) + 1 + 1 * length (filter needs_escaped segment)"

fun render_chars :: "rstr \<Rightarrow> rstr" where
  "render_chars [] = []"
| "render_chars (c # cs) =
    (if needs_escaped c then backslash # c # render_chars cs else c # render_chars cs)"

fun render_segments :: "rstr list \<Rightarrow> rstr" where
  "render_segments [] = []"
| "render_segments (s # ss) = slash # render_chars s @ render_segments ss"

definition rendered :: "route_address \<Rightarrow> rstr" where
  "rendered a = (if segments a = [] then [] else render_segments (iter_segments a))"

definition rendered_capacity :: "route_address \<Rightarrow> nat" where
  "rendered_capacity a =
     sum_list (map estimate_rendered_segment_upper_length_bound (iter_segments a))"

definition address_into_bytes :: "route_address \<Rightarrow> byte list" where
  "address_into_bytes a = into_bytes (rendered a)"

section \<open>Parsing\<close>

datatype route_address_parse_error = InvalidPrefix | InvalidEscapeSequence

fun parse_loop ::
  "rstr list \<Rightarrow> rstr \<Rightarrow> rstr \<Rightarrow> (route_address_parse_error, route_address) result" where
  "parse_loop segs cur [] = Ok \<lparr>segments = segs @ [cur]\<rparr>"
| "parse_loop segs cur (c # cs) =
    (if c = slash then parse_loop (segs @ [cur]) [] cs
     else if c = backslash then
       (case cs of
          d # ds \<Rightarrow> if d = backslash \<or> d = slash then parse_loop segs (cur @ [d]) ds
                    else Err InvalidEscapeSequence
        | [] \<Rightarrow> Err InvalidEscapeSequence)
     else parse_loop segs (cur @ [c]) cs)"

definition address_from_str :: "rstr \<Rightarrow> (route_address_parse_error, route_address) result" where
  "address_from_str s =
    (case s of
       [] \<Rightarrow> Ok \<lparr>segments = []\<rparr>
     | c # cs \<Rightarrow> if c \<noteq> slash then Err InvalidPrefix else parse_loop [] [] cs)"

section \<open>Segment operations\<close>

lemma strip_segments_iff: "strip_segments xs es = Some rest \<longleftrightarrow> xs = es @ rest"
  by (induction xs es rule: strip_segments.induct) auto

lemma strip_segment_prefix_iff:
  "strip_segment_prefix a es = Some rest \<longleftrightarrow> a = with_prefix \<lparr>segments = rest\<rparr> es"
  by (cases a) (simp add: strip_segment_prefix_def iter_segments_def with_prefix_def
      strip_segments_iff)

section \<open>Rendering and parsing are inverse\<close>

lemma parse_loop_render_chars:
  "parse_loop segs cur (render_chars s @ cs) = parse_loop segs (cur @ s) cs"
  by (induction s arbitrary: cur) (auto simp: needs_escaped_def)

lemma parse_loop_render_segments:
  "parse_loop segs cur (render_segments ss) = Ok \<lparr>segments = segs @ cur # ss\<rparr>"
  by (induction ss arbitrary: segs cur) (simp_all add: parse_loop_render_chars)

lemma from_str_rendered: "address_from_str (rendered a) = Ok a"
proof (cases "segments a")
  case Nil
  then show ?thesis by (cases a) (simp add: rendered_def address_from_str_def)
next
  case (Cons s ss)
  then show ?thesis
    by (cases a) (simp add: rendered_def iter_segments_def address_from_str_def
        parse_loop_render_chars parse_loop_render_segments)
qed

lemma render_segments_append:
  "render_segments (ss @ ts) = render_segments ss @ render_segments ts"
  by (induction ss) auto

lemma render_chars_append: "render_chars (s @ t) = render_chars s @ render_chars t"
  by (induction s) auto

lemma render_parse_loop:
  "parse_loop segs cur cs = Ok a \<Longrightarrow>
     segments a \<noteq> [] \<and> render_segments (segments a) = render_segments (segs @ [cur]) @ cs"
proof (induction segs cur cs rule: parse_loop.induct)
  case (2 segs cur c cs)
  consider "c = slash" | "c = backslash" | "c \<noteq> slash" "c \<noteq> backslash" by blast
  then show ?case
  proof cases
    case 1
    then show ?thesis using 2 by (simp add: render_segments_append)
  next
    case c: 2
    then show ?thesis
      using 2 by (cases cs) (auto simp: render_segments_append render_chars_append
          needs_escaped_def split: if_splits)
  next
    case 3
    then show ?thesis
      using 2 by (simp add: render_segments_append render_chars_append needs_escaped_def)
  qed
qed (auto simp: render_segments_append)

lemma rendered_from_str: "address_from_str s = Ok a \<Longrightarrow> rendered a = s"
  by (cases s) (auto simp: address_from_str_def rendered_def iter_segments_def
      dest!: render_parse_loop split: if_splits)

interpretation address_text: canonical_codec "\<lambda>_. True" rendered "\<lambda>s. ok (address_from_str s)"
  by unfold_locales (simp_all add: from_str_rendered rendered_from_str result_simps)

text \<open>
  C2: \<open>RouteAddress::from_str\<close> and \<open>RouteAddress::rendered\<close> are inverse to each other:
  a string parses to an address exactly when the address renders to that string.
\<close>

theorem address_parse_render: "address_from_str s = Ok a \<longleftrightarrow> rendered a = s"
  using address_text.decode_iff [of s a] by (simp add: result_simps)

section \<open>When parsing fails\<close>

fun well_escaped :: "rstr \<Rightarrow> bool" where
  "well_escaped [] = True"
| "well_escaped (c # cs) =
    (if c = backslash then
       (case cs of [] \<Rightarrow> False | d # ds \<Rightarrow> (d = slash \<or> d = backslash) \<and> well_escaped ds)
     else well_escaped cs)"

lemma parse_loop_well_escaped:
  "parse_loop segs cur cs = Err e \<longleftrightarrow> \<not> well_escaped cs \<and> e = InvalidEscapeSequence"
proof (induction segs cur cs rule: parse_loop.induct)
  case (2 segs cur c cs)
  consider "c = slash" | "c = backslash" | "c \<noteq> slash" "c \<noteq> backslash" by blast
  then show ?case
  proof cases
    case c: 2
    then show ?thesis using 2 by (cases cs) auto
  qed (use 2 in simp_all)
qed simp

text \<open>
  C9: \<open>RouteAddress::from_str\<close> rejects a string exactly when it is non-empty and does not
  start with a slash (\<open>InvalidPrefix\<close>), or starts with one and has a backslash that is not
  followed by a slash or a backslash (\<open>InvalidEscapeSequence\<close>).
\<close>

theorem address_parse_errors:
  "address_from_str s = Err e \<longleftrightarrow>
     (e = InvalidPrefix \<and> s \<noteq> [] \<and> hd s \<noteq> slash) \<or>
     (e = InvalidEscapeSequence \<and> (\<exists>cs. s = slash # cs \<and> \<not> well_escaped cs))"
  by (cases s) (auto simp: address_from_str_def parse_loop_well_escaped)

section \<open>The capacity estimate\<close>

lemma length_utf8_render_chars:
  "length (utf8 (render_chars s)) = length (utf8 s) + length (filter needs_escaped s)"
  by (induction s) (auto simp: utf8_char_def)

lemma length_utf8_render_segments:
  "length (utf8 (render_segments ss)) =
     sum_list (map estimate_rendered_segment_upper_length_bound ss)"
  by (induction ss)
    (auto simp: length_utf8_render_chars estimate_rendered_segment_upper_length_bound_def
      utf8_char_def)

lemma length_address_into_bytes: "length (address_into_bytes a) = rendered_capacity a"
  by (cases "segments a = []")
    (simp_all add: address_into_bytes_def into_bytes_def rendered_def rendered_capacity_def
      iter_segments_def length_utf8_render_segments)

text \<open>
  The capacity reserved by \<open>RouteAddress::rendered\<close> is the exact number of bytes of the
  rendering, so its debug assertion holds and the buffer is never resized.
\<close>

lemma rendered_capacity_exact: "length (address_into_bytes a) = rendered_capacity a"
  by (rule length_address_into_bytes)

section \<open>Addresses as bytes\<close>

definition valid_address :: "route_address \<Rightarrow> bool" where
  "valid_address a = list_all valid_str (segments a)"

definition address_from_bytes :: "byte list \<Rightarrow> route_address option" where
  "address_from_bytes bs = Option.bind (from_utf8 bs) (\<lambda>s. ok (address_from_str s))"

lemma valid_render_chars [simp]: "valid_str (render_chars s) = valid_str s"
  by (induction s) (auto simp: scalar_def)

lemma valid_rendered [simp]: "valid_str (rendered a) = valid_address a"
proof -
  have "valid_str (render_segments ss) = list_all valid_str ss" for ss
    by (induction ss) (auto simp: scalar_def)
  then show ?thesis
    by (cases "segments a = []") (simp_all add: rendered_def iter_segments_def valid_address_def)
qed

interpretation valid_address_text:
  canonical_codec valid_address rendered
    "\<lambda>s. if valid_str s then ok (address_from_str s) else None"
  by unfold_locales
    (auto simp: from_str_rendered result_simps dest: rendered_from_str split: if_splits)

interpretation address_bytes:
  codec_chain valid_address rendered
    "\<lambda>s. if valid_str s then ok (address_from_str s) else None" valid_str into_bytes from_utf8
  by unfold_locales simp

lemma address_from_bytes_chain:
  "address_from_bytes bs =
     Option.bind (from_utf8 bs) (\<lambda>s. if valid_str s then ok (address_from_str s) else None)"
  by (cases "from_utf8 bs") (auto simp: address_from_bytes_def dest: into_bytes_from_utf8)

lemma address_from_bytes_iff:
  "address_from_bytes bs = Some a \<longleftrightarrow> valid_address a \<and> address_into_bytes a = bs"
  unfolding address_from_bytes_chain address_into_bytes_def
  by (rule address_bytes.chained.decode_iff)

end
