(* ===== verification/Framed.thy ===== *)
theory Framed
  imports Byte_IO
begin

text \<open>
  Length-prefixed frames (\<open>util/framed.rs\<close>): \<open>read_frame\<close> and \<open>write_frame\<close>
  with a 32-bit big-endian length, and the JSON frames built on them. The \<open>serde_json\<close>
  functions are parameters \<open>to_vec\<close> and \<open>from_slice\<close>. The \<open>io::Error\<close> carried by
  the error values is not kept.
\<close>

section \<open>Errors\<close>

datatype next_expected = LengthSpecifier | Content nat

datatype read_error = MaxLengthExceeded nat nat | UnexpectedEnd next_expected

datatype 'j json_read_error = Read read_error | Deserialization 'j

datatype write_error = UnexpectedEnd

datatype 'j json_write_error = Write write_error | Serialization 'j | MaxLengthExceeded nat nat

section \<open>Frames\<close>

definition read_frame_content :: "nat \<Rightarrow> (read_error, byte list) result io" where
  "read_frame_content len = or_err (read_error.UnexpectedEnd (Content len)) (read_exact len)"

definition read_frame :: "nat option \<Rightarrow> (read_error, byte list) result io" where
  "read_frame max_length =
    io_then (or_err (read_error.UnexpectedEnd LengthSpecifier) read_u32) (\<lambda>w.
      let len = unat w in
      case max_length of
        Some m \<Rightarrow> if len > m then Done (Err (read_error.MaxLengthExceeded m len))
                  else read_frame_content len
      | None \<Rightarrow> read_frame_content len)"

definition write_frame :: "byte list \<Rightarrow> (write_error, unit) result io" where
  "write_frame buffer =
    io_then (or_fail write_error.UnexpectedEnd (write_u32 (of_nat (length buffer)))) (\<lambda>_.
      or_fail write_error.UnexpectedEnd (write_all buffer))"

section \<open>JSON frames\<close>

definition read_framed_json ::
  "(byte list \<Rightarrow> ('j, 'v) result) \<Rightarrow> nat option \<Rightarrow> ('j json_read_error, 'v) result io" where
  "read_framed_json from_slice max_length =
    io_then (io_map_err Read (read_frame max_length)) (\<lambda>buffer.
      Done (map_err Deserialization (from_slice buffer)))"

definition write_framed_json ::
  "('v \<Rightarrow> ('j, byte list) result) \<Rightarrow> 'v \<Rightarrow> nat option \<Rightarrow> ('j json_write_error, unit) result io" where
  "write_framed_json to_vec value max_length =
    (case to_vec value of
       Inl e \<Rightarrow> Done (Err (Serialization e))
     | Inr buffer \<Rightarrow>
         (case max_length of
            Some m \<Rightarrow>
              if length buffer + 4 > m
              then Done (Err (json_write_error.MaxLengthExceeded m (length buffer + 4)))
              else io_map_err Write (write_frame buffer)
          | None \<Rightarrow> io_map_err Write (write_frame buffer)))"

section \<open>What is on the wire\<close>

definition frame :: "byte list \<Rightarrow> byte list" where
  "frame bs = u32_to_be_bytes (of_nat (length bs)) @ bs"

definition fits :: "nat option \<Rightarrow> nat \<Rightarrow> bool" where
  "fits max_length n = (case max_length of None \<Rightarrow> True | Some m \<Rightarrow> n \<le> m)"

lemma run_write_frame:
  "wcap l = None \<Longrightarrow> run_io (write_frame bs) l = (Ok (), l\<lparr>tx := tx l @ frame bs\<rparr>)"
  by (simp add: write_frame_def frame_def io_simps link_send_def)

lemma run_write_frame_capped:
  "wcap l = Some c \<Longrightarrow> c < length (frame bs) \<Longrightarrow>
     run_io (write_frame bs) l = (Err write_error.UnexpectedEnd,
       l\<lparr>tx := tx l @ take c (frame bs), wcap := Some 0\<rparr>)"
  by (auto simp: write_frame_def frame_def io_simps link_send_def)

lemma run_read_frame_short:
  "length (rx l) < 4 \<Longrightarrow>
     run_io (read_frame mx) l = (Err (read_error.UnexpectedEnd LengthSpecifier), l\<lparr>rx := []\<rparr>)"
  by (simp add: read_frame_def io_simps link_recv_short)

lemma run_read_frame:
  assumes "rx l = u32_to_be_bytes w @ rest"
  shows "run_io (read_frame mx) l =
    (if \<not> fits mx (unat w)
     then (Err (read_error.MaxLengthExceeded (the mx) (unat w)), l\<lparr>rx := rest\<rparr>)
     else if length rest < unat w
     then (Err (read_error.UnexpectedEnd (Content (unat w))), l\<lparr>rx := []\<rparr>)
     else (Ok (take (unat w) rest), l\<lparr>rx := drop (unat w) rest\<rparr>))"
proof -
  have "link_recv 4 l = (Some (u32_to_be_bytes w), l\<lparr>rx := rest\<rparr>)"
    using assms by (simp add: link_recv_append)
  then show ?thesis
    by (auto simp: read_frame_def read_frame_content_def io_simps link_recv_def [of "unat w"]
        fits_def Let_def split: option.splits)
qed

lemma run_read_frame_frame:
  assumes "rx l = frame bs @ rest" "length bs < 4294967296" "fits mx (length bs)"
  shows "run_io (read_frame mx) l = (Ok bs, l\<lparr>rx := rest\<rparr>)"
  using assms run_read_frame [of l "of_nat (length bs)" "bs @ rest" mx]
  by (simp add: frame_def)

lemma read_frame_Ok_iff:
  "fst (run_io (read_frame mx) l) = Ok bs \<longleftrightarrow>
     (\<exists>rest. rx l = frame bs @ rest \<and> length bs < 4294967296 \<and> fits mx (length bs))"
proof
  assume ok: "fst (run_io (read_frame mx) l) = Ok bs"
  then have "4 \<le> length (rx l)"
    using run_read_frame_short [of l mx] by force
  then obtain w rest where w: "rx l = u32_to_be_bytes w @ rest"
    using u32_be_round_trip' [of "take 4 (rx l)"] append_take_drop_id [of 4 "rx l"]
    by (metis length_take min.absorb2)
  with ok have "bs = take (unat w) rest" "unat w \<le> length rest" "fits mx (unat w)"
    by (auto simp: run_read_frame split: if_splits)
  with w show "\<exists>rest. rx l = frame bs @ rest \<and> length bs < 4294967296 \<and> fits mx (length bs)"
    by (intro exI [of _ "drop (unat w) rest"]) (simp add: frame_def min_def)
next
  assume "\<exists>rest. rx l = frame bs @ rest \<and> length bs < 4294967296 \<and> fits mx (length bs)"
  then show "fst (run_io (read_frame mx) l) = Ok bs"
    by (auto simp: run_read_frame_frame)
qed

text \<open>
  C5: what \<open>read_frame\<close> reads back of a frame sent by \<open>write_frame\<close>. The length
  travels as \<open>buffer.len() as u32\<close>, so the reader gets the first \<open>len mod 2\<^sup>3\<^sup>2\<close> bytes of
  the buffer, which is all of it exactly when the buffer is shorter than 4 GiB, and the rest
  stays on the stream.
\<close>

theorem frame_round_trip:
  assumes "wcap l = None" "rx m = tx (snd (run_io (write_frame bs) (l\<lparr>tx := []\<rparr>))) @ rest"
  shows "run_io (read_frame None) m =
    (Ok (take (length bs mod 4294967296) bs), m\<lparr>rx := drop (length bs mod 4294967296) bs @ rest\<rparr>)"
proof -
  have "length bs mod 4294967296 \<le> length bs" by simp
  then show ?thesis
    using assms run_read_frame [of m "of_nat (length bs)" "bs @ rest" None]
    by (simp add: run_write_frame frame_def fits_def unat_of_nat)
qed

theorem frame_round_trip_witness:
  "run_io (read_frame None) \<lparr>rx = [0, 0, 0, 2, 7, 8, 9], tx = [], wcap = None, read_first = True\<rparr>
    = (Ok [7, 8], \<lparr>rx = [9], tx = [], wcap = None, read_first = True\<rparr>)"
  using frame_round_trip [of "\<lparr>rx = [], tx = [], wcap = None, read_first = True\<rparr>"
      "\<lparr>rx = [0, 0, 0, 2, 7, 8, 9], tx = [], wcap = None, read_first = True\<rparr>" "[7, 8]" "[9]"]
  by (simp add: run_write_frame frame_def u32_to_be_bytes_def)

text \<open>
  C6: \<open>read_frame\<close> with a maximum length accepts exactly the streams that start with a
  complete frame whose content is no longer than the maximum.
\<close>

theorem read_frame_accepts:
  "fst (run_io (read_frame mx) l) = Ok bs \<longleftrightarrow>
     (\<exists>rest. rx l = frame bs @ rest \<and> length bs < 4294967296 \<and> fits mx (length bs))"
  by (rule read_frame_Ok_iff)

lemma run_write_framed_json:
  assumes "wcap l = None"
  shows "run_io (write_framed_json to_vec v mx) l =
    (case to_vec v of
       Inl e \<Rightarrow> (Err (Serialization e), l)
     | Inr b \<Rightarrow> if fits mx (length b + 4) then (Ok (), l\<lparr>tx := tx l @ frame b\<rparr>)
                else (Err (json_write_error.MaxLengthExceeded (the mx) (length b + 4)), l))"
  using assms by (auto simp: write_framed_json_def io_simps run_write_frame fits_def
      split: sum.splits option.splits)

lemma run_read_framed_json:
  assumes "rx l = frame b @ rest" "length b < 4294967296" "fits mx (length b)"
  shows "run_io (read_framed_json from_slice mx) l =
    (map_err Deserialization (from_slice b), l\<lparr>rx := rest\<rparr>)"
  using assms by (simp add: read_framed_json_def io_simps run_read_frame_frame)

text \<open>
  A value that \<open>write_framed_json\<close> sends under a length limit below 4 GiB is read
  back by \<open>read_framed_json\<close> under the same limit, although the writer counts the four
  length bytes and the reader does not; a value over the limit leaves the stream untouched.
  \<open>serde_json\<close> enters by its documented round trip on the value.
\<close>

lemma json_frame_round_trip:
  assumes open_link: "wcap l = None" and limit: "m \<le> 4294967296"
    and serde: "\<And>b. to_vec v = Ok b \<Longrightarrow> from_slice b = Ok v"
    and run: "run_io (write_framed_json to_vec v (Some m)) l = (r, l')"
  shows "case r of
      Inl e \<Rightarrow> l' = l
    | Inr _ \<Rightarrow> (\<exists>sent. tx l' = tx l @ sent \<and>
        (\<forall>k rest. rx k = sent @ rest \<longrightarrow>
           run_io (read_framed_json from_slice (Some m)) k = (Ok v, k\<lparr>rx := rest\<rparr>)))"
proof (cases "\<exists>b. to_vec v = Ok b \<and> length b + 4 \<le> m")
  case True
  then obtain b where b: "to_vec v = Ok b" "length b + 4 \<le> m" by blast
  then have "run_io (read_framed_json from_slice (Some m)) k = (Ok v, k\<lparr>rx := rest\<rparr>)"
    if "rx k = frame b @ rest" for k rest
    using run_read_framed_json [OF that, of "Some m" from_slice] limit serde [OF b(1)]
    by (simp add: fits_def)
  then show ?thesis
    using run b by (auto simp: run_write_framed_json [OF open_link] fits_def)
next
  case False
  then show ?thesis
    using run by (auto simp: run_write_framed_json [OF open_link] fits_def split: sum.splits)
qed

lemma json_frame_round_trip_witness:
  "run_io (read_framed_json (\<lambda>bs. if length bs = 1 then Ok (hd bs) else Err ()) (Some 8))
      \<lparr>rx = [0, 0, 0, 1, 7], tx = [], wcap = None, read_first = True\<rparr>
    = (Ok 7, \<lparr>rx = [], tx = [], wcap = None, read_first = True\<rparr>)"
  using json_frame_round_trip [of "\<lparr>rx = [], tx = [], wcap = None, read_first = True\<rparr>" 8
      "\<lambda>v :: byte. Ok [v]" 7 "\<lambda>bs. if length bs = 1 then Ok (hd bs) else Err ()" "Ok ()"
      "\<lparr>rx = [], tx = [0, 0, 0, 1, 7], wcap = None, read_first = True\<rparr>"]
  by (simp add: run_write_framed_json fits_def frame_def u32_to_be_bytes_def)

end
