(* ===== verification/Services.thy ===== *)
theory Services
  imports Address Byte_IO
begin

text \<open>
  The vocabulary of protocol services and clients (\<open>common/protocol/traits.rs\<close>,
  \<open>common/protocol/service/mod.rs\<close> and the error type of
  \<open>common/protocol/negotiation.rs\<close>): the error types with their mappings and conversions,
  services, clients, and the adaptors that wrap them. A service or client works on a stream and
  so is an \<open>io\<close> program per address. The opaque \<open>anyhow::Error\<close> is its message.
\<close>

type_synonym anyhow = rstr

section \<open>Service errors\<close>

text \<open>
  The variant \<open>BacktraceDependencyFailure\<close> exists only with the feature \<open>backtrace\<close>, which is
  off by default, and no code of the repository makes it; it is left out.
\<close>

datatype 'e service_error =
    Refused | UnexpectedEnd | IllegalResponse | AddressError | DependencyFailure
  | InternalError 'e | InternalFailure anyhow

fun map_internal :: "('e \<Rightarrow> 'f) \<Rightarrow> 'e service_error \<Rightarrow> 'f service_error" where
  "map_internal f service_error.Refused = service_error.Refused"
| "map_internal f service_error.UnexpectedEnd = service_error.UnexpectedEnd"
| "map_internal f service_error.IllegalResponse = service_error.IllegalResponse"
| "map_internal f AddressError = AddressError"
| "map_internal f DependencyFailure = DependencyFailure"
| "map_internal f (InternalError e) = InternalError (f e)"
| "map_internal f (InternalFailure e) = InternalFailure e"

section \<open>Client errors\<close>

datatype 'e client_error = InvalidAddress | Refused | UnexpectedEnd | IllegalResponse 'e

fun client_error_map_err :: "('e \<Rightarrow> 'f) \<Rightarrow> 'e client_error \<Rightarrow> 'f client_error" where
  "client_error_map_err f client_error.InvalidAddress = client_error.InvalidAddress"
| "client_error_map_err f client_error.Refused = client_error.Refused"
| "client_error_map_err f client_error.UnexpectedEnd = client_error.UnexpectedEnd"
| "client_error_map_err f (client_error.IllegalResponse e) = client_error.IllegalResponse (f e)"

section \<open>Negotiation errors\<close>

datatype 'e negotiation_error =
    ReadError | WriteError | ProtocolViolation | Refused | UnsupportedProtocolVersion
  | UnsupportedServiceVersion | ApplicationError 'e | FatalError 'e

fun negotiation_map_err :: "('e \<Rightarrow> 'f) \<Rightarrow> 'e negotiation_error \<Rightarrow> 'f negotiation_error" where
  "negotiation_map_err f ReadError = ReadError"
| "negotiation_map_err f WriteError = WriteError"
| "negotiation_map_err f ProtocolViolation = ProtocolViolation"
| "negotiation_map_err f negotiation_error.Refused = negotiation_error.Refused"
| "negotiation_map_err f UnsupportedProtocolVersion = UnsupportedProtocolVersion"
| "negotiation_map_err f UnsupportedServiceVersion = UnsupportedServiceVersion"
| "negotiation_map_err f (ApplicationError e) = ApplicationError (f e)"
| "negotiation_map_err f (FatalError e) = FatalError (f e)"

fun service_error_of_negotiation :: "('e \<Rightarrow> 'f) \<Rightarrow> 'e negotiation_error \<Rightarrow> 'f service_error" where
  "service_error_of_negotiation into ReadError = service_error.UnexpectedEnd"
| "service_error_of_negotiation into WriteError = service_error.UnexpectedEnd"
| "service_error_of_negotiation into ProtocolViolation = service_error.IllegalResponse"
| "service_error_of_negotiation into negotiation_error.Refused = service_error.Refused"
| "service_error_of_negotiation into UnsupportedProtocolVersion = service_error.Refused"
| "service_error_of_negotiation into UnsupportedServiceVersion = service_error.Refused"
| "service_error_of_negotiation into (ApplicationError e) = InternalError (into e)"
| "service_error_of_negotiation into (FatalError e) = InternalError (into e)"

section \<open>Routing errors\<close>

datatype ('t, 'e) routing_error =
    RouteNotFound route_address | RouteUnavailable route_address | InvalidAddress
  | LinkOpenFailure 't | NegotiationError "'e negotiation_error" | RouterError 'e

fun routing_map_err :: "('e \<Rightarrow> 'f) \<Rightarrow> ('t, 'e) routing_error \<Rightarrow> ('t, 'f) routing_error" where
  "routing_map_err f (RouteNotFound a) = RouteNotFound a"
| "routing_map_err f (RouteUnavailable a) = RouteUnavailable a"
| "routing_map_err f routing_error.InvalidAddress = routing_error.InvalidAddress"
| "routing_map_err f (LinkOpenFailure t) = LinkOpenFailure t"
| "routing_map_err f (NegotiationError e) = NegotiationError (negotiation_map_err f e)"
| "routing_map_err f (RouterError e) = RouterError (f e)"

definition routing_error_of_negotiation ::
  "('e \<Rightarrow> 'f) \<Rightarrow> 'e negotiation_error \<Rightarrow> ('t, 'f) routing_error" where
  "routing_error_of_negotiation into e = NegotiationError
    (case e of
       ReadError \<Rightarrow> ReadError
     | WriteError \<Rightarrow> WriteError
     | ProtocolViolation \<Rightarrow> ProtocolViolation
     | negotiation_error.Refused \<Rightarrow> negotiation_error.Refused
     | UnsupportedProtocolVersion \<Rightarrow> UnsupportedProtocolVersion
     | UnsupportedServiceVersion \<Rightarrow> UnsupportedServiceVersion
     | ApplicationError e \<Rightarrow> ApplicationError (into e)
     | FatalError e \<Rightarrow> FatalError (into e))"

section \<open>Services\<close>

record ('t, 'e) service =
  accepts :: "route_address \<Rightarrow> 't \<Rightarrow> bool"
  handle :: "route_address \<Rightarrow> 't \<Rightarrow> ('e service_error, unit) result io"

definition mapped_service :: "('e \<Rightarrow> 'f) \<Rightarrow> ('t, 'e) service \<Rightarrow> ('t, 'f) service" where
  "mapped_service from inner_service =
    \<lparr>accepts = accepts inner_service,
     handle = \<lambda>addr tunnel. io_map_err (map_internal from) (handle inner_service addr tunnel)\<rparr>"

text \<open>
  A reference, box or counted pointer to a service is a service: it forwards both calls to what
  \<open>deref\<close> gives. \<open>MappedService\<close> keeps the service it was made of.
\<close>

definition service_ref :: "('p \<Rightarrow> ('t, 'e) service) \<Rightarrow> 'p \<Rightarrow> ('t, 'e) service" where
  "service_ref deref this =
    \<lparr>accepts = \<lambda>addr tunnel. accepts (deref this) addr tunnel,
     handle = \<lambda>addr tunnel. handle (deref this) addr tunnel\<rparr>"

type_synonym ('t, 'e) service_registry = "route_address \<Rightarrow> 't \<Rightarrow> ('t, 'e) service option"

section \<open>Clients\<close>

type_synonym ('r, 'e) client_result = "('e client_error, 'r) result"

record ('r, 'e) client =
  protocol_name :: rstr
  client_handle :: "route_address \<Rightarrow> ('r, 'e) client_result io"

definition box_dispatch_client ::
  "('r \<Rightarrow> 'any) \<Rightarrow> ('e \<Rightarrow> 'any) \<Rightarrow> ('r, 'e) client \<Rightarrow> ('any, 'any) client" where
  "box_dispatch_client box_ok box_err inner =
    \<lparr>protocol_name = protocol_name inner,
     client_handle = \<lambda>addr.
       io_map_err (client_error_map_err box_err) (io_map (map_ok box_ok) (client_handle inner addr))\<rparr>"

definition box_stream_dispatch_client ::
  "('r \<Rightarrow> 'any) \<Rightarrow> ('e \<Rightarrow> 'any) \<Rightarrow> ('r, 'e) client \<Rightarrow> ('any, 'any) client" where
  "box_stream_dispatch_client box_ok box_err inner =
    \<lparr>protocol_name = protocol_name inner,
     client_handle = \<lambda>addr.
       io_map_err (client_error_map_err box_err) (io_map (map_ok box_ok) (client_handle inner addr))\<rparr>"

definition bound_client ::
  "('r, 'e) client \<Rightarrow> (('r, 'e) client_result \<Rightarrow> ('s, 'f) client_result io) \<Rightarrow> ('s, 'f) client" where
  "bound_client c f =
    \<lparr>protocol_name = protocol_name c, client_handle = \<lambda>addr. io_bind (client_handle c addr) f\<rparr>"

definition mapped_client ::
  "('r, 'e) client \<Rightarrow> (('r, 'e) client_result \<Rightarrow> ('s, 'f) client_result) \<Rightarrow> ('s, 'f) client" where
  "mapped_client c f =
    \<lparr>protocol_name = protocol_name c, client_handle = \<lambda>addr. io_map f (client_handle c addr)\<rparr>"

text \<open>The methods that every client has make these adaptors.\<close>

definition client_map ::
  "('r, 'e) client \<Rightarrow> (('r, 'e) client_result \<Rightarrow> ('s, 'f) client_result) \<Rightarrow> ('s, 'f) client" where
  "client_map self f = mapped_client self f"

definition client_then ::
  "('r, 'e) client \<Rightarrow> (('r, 'e) client_result \<Rightarrow> ('s, 'f) client_result io) \<Rightarrow> ('s, 'f) client" where
  "client_then self f = bound_client self f"

text \<open>What builds the address of a request out of its parameters.\<close>

type_synonym ('p, 'b) route_address_builder = "'p \<Rightarrow> ('b, route_address) result"

record ('r, 'e) request =
  address :: route_address
  protocol_client :: "('r, 'e) client"

definition request_new ::
  "('p, 'b) route_address_builder \<Rightarrow> ('r, 'e) client \<Rightarrow> 'p \<Rightarrow> ('b, ('r, 'e) request) result" where
  "request_new build_addr c params =
    and_then (build_addr params) (\<lambda>a. Ok \<lparr>address = a, protocol_client = c\<rparr>)"

section \<open>Laws of the mappings\<close>

lemma map_internal_comp: "map_internal f (map_internal g e) = map_internal (f \<circ> g) e"
  by (cases e) auto

lemma client_error_map_err_comp:
  "client_error_map_err f (client_error_map_err g e) = client_error_map_err (f \<circ> g) e"
  by (cases e) auto

lemma negotiation_map_err_comp:
  "negotiation_map_err f (negotiation_map_err g e) = negotiation_map_err (f \<circ> g) e"
  by (cases e) auto

lemma routing_map_err_comp: "routing_map_err f (routing_map_err g e) = routing_map_err (f \<circ> g) e"
  by (cases e) (auto simp: negotiation_map_err_comp)

lemma routing_error_of_negotiation_eq:
  "routing_error_of_negotiation into e = NegotiationError (negotiation_map_err into e)"
  by (cases e) (auto simp: routing_error_of_negotiation_def)

text \<open>
  The error conversions commute with the error mappings: converting a negotiation error
  into a service or routing error and mapping the payload afterwards gives what mapping first
  and converting afterwards gives, so no conversion changes the class of an error.
\<close>

lemma error_conversions_natural:
  "map_internal f (service_error_of_negotiation g e) = service_error_of_negotiation (f \<circ> g) e \<and>
   service_error_of_negotiation g (negotiation_map_err h d) = service_error_of_negotiation (g \<circ> h) d \<and>
   routing_map_err f (routing_error_of_negotiation g e) =
     (routing_error_of_negotiation (f \<circ> g) e :: ('t, 'c) routing_error)"
  by (cases e; cases d) (auto simp: routing_error_of_negotiation_eq)

section \<open>Adaptors\<close>

text \<open>
  Every client adaptor is a post-processing of the inner client's outcome: it performs the
  inner client's reads and writes, in the same order, and changes the outcome only.
\<close>

lemma mapped_is_bound: "mapped_client c f = bound_client c (\<lambda>r. Done (f r))"
  by (simp add: mapped_client_def bound_client_def io_map_def)

lemma box_dispatch_is_mapped:
  "box_dispatch_client bo be c = mapped_client c (map_err (client_error_map_err be) \<circ> map_ok bo)"
  by (simp add: box_dispatch_client_def mapped_client_def io_map_err_def io_map_def comp_def)

lemma box_stream_dispatch_is_mapped:
  "box_stream_dispatch_client bo be c =
     mapped_client c (map_err (client_error_map_err be) \<circ> map_ok bo)"
  by (simp add: box_stream_dispatch_client_def mapped_client_def io_map_err_def io_map_def comp_def)

text \<open>A pointer to a service is as good as the service, whatever is wrapped around it.\<close>

lemma service_ref_transparent [simp]: "service_ref deref this = deref this"
  by (simp add: service_ref_def)

lemma mapped_service_comp: "mapped_service g (mapped_service f s) = mapped_service (g \<circ> f) s"
  by (simp add: mapped_service_def io_map_err_def io_map_def map_internal_comp comp_def)

lemma bound_client_assoc:
  "bound_client (bound_client c f) g = bound_client c (\<lambda>r. io_bind (f r) g)"
  by (simp add: bound_client_def)

lemma run_mapped_client:
  "run_io (client_handle (mapped_client c f) a) l =
     (case run_io (client_handle c a) l of (r, l') \<Rightarrow> (f r, l'))"
  by (simp add: mapped_client_def io_simps)

text \<open>
  \<open>ClientExt::map\<close> composes: mapping a client twice is mapping it once with the composed
  function, and mapping after \<open>ClientExt::then\<close> is mapping inside the continuation; \<open>then\<close> is
  associative, and the boxed dispatch clients leave the stream in the state the inner client
  leaves it in.
\<close>

lemma client_adaptors_compose:
  "client_map (client_map c f) g = client_map c (g \<circ> f) \<and>
   client_map (client_then c k) h = client_then c (\<lambda>r. io_map h (k r)) \<and>
   client_then (client_then c k) k' = client_then c (\<lambda>r. io_bind (k r) k') \<and>
   snd (run_io (client_handle (box_dispatch_client bo be c) a) l) =
     snd (run_io (client_handle c a) l)"
proof (intro conjI)
  show "client_map (client_map c f) g = client_map c (g \<circ> f)"
    and "client_map (client_then c k) h = client_then c (\<lambda>r. io_map h (k r))"
    and "client_then (client_then c k) k' = client_then c (\<lambda>r. io_bind (k r) k')"
    by (simp_all add: client_map_def client_then_def mapped_is_bound bound_client_assoc io_map_def)
  show "snd (run_io (client_handle (box_dispatch_client bo be c) a) l) =
      snd (run_io (client_handle c a) l)"
    by (simp add: box_dispatch_is_mapped run_mapped_client split: prod.splits)
qed

end
