(* ===== verification/Negotiation.thy ===== *)
theory Negotiation
  imports Services Framed
begin

text \<open>
  Protocol negotiation (\<open>common/protocol/negotiation.rs\<close>): the symmetric exchange of the
  magic number and the version, the client's half (send the address in a frame, read one byte)
  and the service's half (read the address, look a service up, answer with one byte). The
  service registry is an argument \<open>find_service\<close>, the tunnel a value it receives.
\<close>

section \<open>The handshake\<close>

definition SNOCAT_NEGOTIATION_MAGIC :: "byte list" where
  "SNOCAT_NEGOTIATION_MAGIC = [0x4e, 0x59, 0x41, 0x4e]"

definition flush :: "bool io" where
  "flush = Send [] Done"

definition write_magic_and_version :: "byte \<Rightarrow> ('e negotiation_error, unit) result io" where
  "write_magic_and_version protocol_version =
    io_then (or_fail WriteError (write_all SNOCAT_NEGOTIATION_MAGIC)) (\<lambda>_.
    io_then (or_fail WriteError (write_u8 protocol_version)) (\<lambda>_.
    or_fail WriteError flush))"

definition read_magic :: "('e negotiation_error, unit) result io" where
  "read_magic =
    io_then (or_err ProtocolViolation (read_exact 4)) (\<lambda>remote_magic.
      if remote_magic \<noteq> SNOCAT_NEGOTIATION_MAGIC then Done (Err ProtocolViolation)
      else Done (Ok ()))"

definition protocol_magic :: "byte \<Rightarrow> ('e negotiation_error, byte) result io" where
  "protocol_magic protocol_version =
    io_then (Race (\<lambda>read_first.
        if read_first then io_then read_magic (\<lambda>_. write_magic_and_version protocol_version)
        else io_then (write_magic_and_version protocol_version) (\<lambda>_. read_magic))) (\<lambda>_.
      or_err ReadError read_u8)"

section \<open>The client\<close>

definition client_negotiate :: "route_address \<Rightarrow> ('e negotiation_error, unit) result io" where
  "client_negotiate addr =
    io_then (protocol_magic 0) (\<lambda>remote_version.
      if remote_version > 0 then Done (Err UnsupportedProtocolVersion)
      else
        io_then (io_map_err (\<lambda>_. WriteError) (write_frame (address_into_bytes addr))) (\<lambda>_.
        io_then (or_err ReadError read_u8) (\<lambda>accepted.
          if accepted > 0 then Done (Err negotiation_error.Refused) else Done (Ok ()))))"

section \<open>The service\<close>

definition parse_address_frame :: "byte list \<Rightarrow> ('e negotiation_error, route_address) result" where
  "parse_address_frame raw =
    and_then (ok_or ProtocolViolation (from_utf8 raw)) (\<lambda>s.
      map_err (\<lambda>_. ProtocolViolation) (address_from_str s))"

definition service_negotiate ::
  "(route_address \<Rightarrow> 't \<Rightarrow> 's option) \<Rightarrow> 't \<Rightarrow>
   (anyhow negotiation_error, route_address \<times> 's) result io" where
  "service_negotiate find_service tunnel =
    io_then (protocol_magic 0) (\<lambda>remote_version.
      if remote_version > 0 then Done (Err UnsupportedProtocolVersion)
      else
        io_then (io_map (\<lambda>r. and_then (map_err (\<lambda>_. ProtocolViolation) r) parse_address_frame)
          (read_frame (Some 2048))) (\<lambda>addr.
          case find_service addr tunnel of
            None \<Rightarrow> io_then (or_fail WriteError (write_u8 1)) (\<lambda>_. Done (Err negotiation_error.Refused))
          | Some service \<Rightarrow>
              io_then (or_fail WriteError (write_u8 0)) (\<lambda>_. Done (Ok (addr, service)))))"

section \<open>One party at a time\<close>

definition greeting :: "byte \<Rightarrow> byte list" where
  "greeting v = SNOCAT_NEGOTIATION_MAGIC @ [v]"

lemma length_magic [simp]: "length SNOCAT_NEGOTIATION_MAGIC = 4"
  by (simp add: SNOCAT_NEGOTIATION_MAGIC_def)

lemma run_flush [io_simps]: "run_io flush l = (True, l)"
  by (simp add: flush_def link_send_def split: option.splits)

lemma run_write_magic [io_simps]:
  "wcap l = None \<Longrightarrow>
     run_io (write_magic_and_version v) l = (Ok (), l\<lparr>tx := tx l @ greeting v\<rparr>)"
  by (simp add: write_magic_and_version_def io_simps link_send_open greeting_def)

lemma run_read_magic [io_simps]:
  "rx l = SNOCAT_NEGOTIATION_MAGIC @ rest \<Longrightarrow> run_io read_magic l = (Ok (), l\<lparr>rx := rest\<rparr>)"
  by (simp add: read_magic_def io_simps link_recv_def)

lemma run_read_magic_mismatch:
  "take 4 (rx l) \<noteq> SNOCAT_NEGOTIATION_MAGIC \<Longrightarrow>
     fst (run_io read_magic l) = Err ProtocolViolation"
  by (auto simp: read_magic_def io_simps link_recv_def)

text \<open>The two orders of a successful exchange have the same outcome and the same effect.\<close>

lemma run_protocol_magic:
  assumes "wcap l = None" "rx l = greeting v @ rest"
  shows "run_io (protocol_magic w) l = (Ok v, l\<lparr>rx := rest, tx := tx l @ greeting w\<rparr>)"
proof -
  have rx: "rx l = SNOCAT_NEGOTIATION_MAGIC @ v # rest"
    using assms by (simp add: greeting_def)
  show ?thesis
    using assms(1) rx
    by (cases "read_first l")
      (simp_all add: protocol_magic_def io_simps run_read_magic [of _ "v # rest"]
        link_recv_def)
qed

lemma run_race: "run_io (io_then (Race k) f) l = run_io (io_then (k (read_first l)) f) l"
  by (simp add: io_then_def)

lemma run_protocol_magic_mismatch:
  assumes "wcap l = None" "take 4 (rx l) \<noteq> SNOCAT_NEGOTIATION_MAGIC"
  shows "fst (run_io (protocol_magic w) l) = Err ProtocolViolation"
  using assms unfolding protocol_magic_def run_race
  by (cases "read_first l"; intro run_then_Err)
    (simp_all add: run_then_Err run_then_Ok [OF run_write_magic] run_read_magic_mismatch)

lemma run_protocol_magic_no_version:
  assumes "wcap l = None" "rx l = SNOCAT_NEGOTIATION_MAGIC"
  shows "fst (run_io (protocol_magic w) l) = Err ReadError"
  using assms by (cases "read_first l")
    (simp_all add: protocol_magic_def io_simps run_read_magic [of _ "[]"] link_recv_def)

text \<open>What the exchange of greetings can end in, when writes succeed.\<close>

lemma greeting_cases:
  obtains (mismatch) "take 4 bs \<noteq> SNOCAT_NEGOTIATION_MAGIC"
  | (no_version) "bs = SNOCAT_NEGOTIATION_MAGIC"
  | (greeted) v rest where "bs = greeting v @ rest"
proof (cases "take 4 bs = SNOCAT_NEGOTIATION_MAGIC")
  case True
  then have "bs = SNOCAT_NEGOTIATION_MAGIC @ drop 4 bs"
    by (metis append_take_drop_id)
  then show thesis
    using no_version greeted by (cases "drop 4 bs") (auto simp: greeting_def)
qed (rule mismatch)

lemma run_client_negotiate:
  assumes "wcap l = None" "rx l = greeting 0 @ rest"
  shows "run_io (client_negotiate addr) l =
    (case rest of
       [] \<Rightarrow> (Err ReadError, l\<lparr>rx := [], tx := tx l @ greeting 0 @ frame (address_into_bytes addr)\<rparr>)
     | b # bs \<Rightarrow> (if b = 0 then Ok () else Err negotiation_error.Refused,
         l\<lparr>rx := bs, tx := tx l @ greeting 0 @ frame (address_into_bytes addr)\<rparr>))"
  unfolding client_negotiate_def run_then_Ok [OF run_protocol_magic [OF assms]]
  using assms by (cases rest) (simp_all add: io_simps run_write_frame link_recv_def word_gt_0)

text \<open>
  C8: the outcome of the client's negotiation for every input, when its writes go through. A
  stream that does not start with the magic number is a protocol violation; a missing version or
  answer a read error; another version than 0 is not supported; the answer 0 accepts and every
  other answer refuses.
\<close>

theorem client_negotiate_outcome:
  assumes "wcap l = None"
  shows "fst (run_io (client_negotiate addr) l) =
    (if take 4 (rx l) \<noteq> SNOCAT_NEGOTIATION_MAGIC then Err ProtocolViolation
     else case drop 4 (rx l) of
         [] \<Rightarrow> Err ReadError
       | [v] \<Rightarrow> Err (if v = 0 then ReadError else UnsupportedProtocolVersion)
       | v # b # _ \<Rightarrow> if v \<noteq> 0 then Err UnsupportedProtocolVersion
           else if b = 0 then Ok () else Err negotiation_error.Refused)"
proof (cases "rx l" rule: greeting_cases)
  case mismatch
  then show ?thesis
    using assms by (simp add: client_negotiate_def run_then_Err run_protocol_magic_mismatch)
next
  case no_version
  then show ?thesis
    using assms by (simp add: client_negotiate_def run_then_Err run_protocol_magic_no_version)
next
  case (greeted v rest)
  show ?thesis
  proof (cases "v = 0")
    case True
    then show ?thesis
      using greeted assms
      by (cases rest) (simp_all add: run_client_negotiate greeting_def [of 0, symmetric], simp_all add: greeting_def)
  next
    case False
    then show ?thesis
      unfolding client_negotiate_def run_then_Ok [OF run_protocol_magic [OF assms greeted]]
      using greeted by (simp add: word_gt_0 greeting_def split: list.splits)
  qed
qed

theorem client_negotiate_outcome_witness:
  "fst (run_io (client_negotiate \<lparr>segments = [lit ''a'']\<rparr>)
     \<lparr>rx = [0x4e, 0x59, 0x41, 0x4e, 0, 0], tx = [], wcap = None, read_first = True\<rparr>)
   = (Ok () :: (nat negotiation_error, unit) result)"
  using client_negotiate_outcome
    [of "\<lparr>rx = [0x4e, 0x59, 0x41, 0x4e, 0, 0], tx = [], wcap = None, read_first = True\<rparr>"
      "\<lparr>segments = [lit ''a'']\<rparr>"]
  by (simp add: SNOCAT_NEGOTIATION_MAGIC_def)

lemma parse_address_frame_eq:
  "parse_address_frame raw = ok_or ProtocolViolation (address_from_bytes raw)"
proof (cases "from_utf8 raw")
  case (Some s)
  then show ?thesis
    by (cases "address_from_str s") (simp_all add: parse_address_frame_def address_from_bytes_def)
qed (simp add: parse_address_frame_def address_from_bytes_def)

lemma run_service_negotiate:
  assumes "wcap l = None" "rx l = greeting 0 @ rest"
  shows "fst (run_io (service_negotiate find_service t) l) =
    (case fst (run_io (read_frame (Some 2048)) (l\<lparr>rx := rest, tx := tx l @ greeting 0\<rparr>)) of
       Inl _ \<Rightarrow> Err ProtocolViolation
     | Inr raw \<Rightarrow>
         (case address_from_bytes raw of
            None \<Rightarrow> Err ProtocolViolation
          | Some a \<Rightarrow> (case find_service a t of
              None \<Rightarrow> Err negotiation_error.Refused
            | Some s \<Rightarrow> Ok (a, s))))"
proof -
  let ?m = "l\<lparr>rx := rest, tx := tx l @ greeting 0\<rparr>"
  obtain r m where m: "run_io (read_frame (Some 2048)) ?m = (r, m)" by fastforce
  then have "wcap m = None"
    using run_io_open [of ?m "read_frame (Some 2048)"] assms(1) by simp
  then show ?thesis
    unfolding service_negotiate_def run_then_Ok [OF run_protocol_magic [OF assms]]
    using m by (cases r)
      (auto simp: io_simps parse_address_frame_eq link_send_open split: option.splits)
qed

lemma service_accepts_greeted:
  assumes "wcap l = None" "rx l = greeting 0 @ rest"
  shows "fst (run_io (service_negotiate find_service t) l) = Ok (a, s) \<longleftrightarrow>
    fst (run_io (read_frame (Some 2048)) (l\<lparr>rx := rest, tx := tx l @ greeting 0\<rparr>))
      = Ok (address_into_bytes a) \<and> valid_address a \<and> find_service a t = Some s"
proof -
  have "fst (run_io (service_negotiate find_service t) l) = Ok (a, s) \<longleftrightarrow>
    (\<exists>raw. fst (run_io (read_frame (Some 2048)) (l\<lparr>rx := rest, tx := tx l @ greeting 0\<rparr>)) = Ok raw
      \<and> address_from_bytes raw = Some a \<and> find_service a t = Some s)"
    unfolding run_service_negotiate [OF assms] by (auto split: sum.splits option.splits)
  then show ?thesis
    by (auto simp: address_from_bytes_iff)
qed

text \<open>
  C7: the service accepts a stream exactly when the remote sends the magic number, version 0
  and a frame of at most 2048 bytes with the UTF-8 rendering of a route address for which the
  registry finds a service, and it returns that address and that service.
\<close>

theorem service_negotiate_accepts:
  assumes "wcap l = None"
  shows "fst (run_io (service_negotiate find_service t) l) = Ok (a, s) \<longleftrightarrow>
    (\<exists>rest. rx l = greeting 0 @ frame (address_into_bytes a) @ rest) \<and> valid_address a
    \<and> length (address_into_bytes a) \<le> 2048 \<and> find_service a t = Some s"
proof (cases "rx l" rule: greeting_cases)
  case mismatch
  then have "fst (run_io (service_negotiate find_service t) l) = Err ProtocolViolation"
    using assms by (simp add: service_negotiate_def run_then_Err run_protocol_magic_mismatch)
  moreover have "rx l \<noteq> greeting 0 @ rest" for rest
    using mismatch by (auto simp: greeting_def)
  ultimately show ?thesis by simp
next
  case no_version
  then have "fst (run_io (service_negotiate find_service t) l) = Err ReadError"
    using assms by (simp add: service_negotiate_def run_then_Err run_protocol_magic_no_version)
  moreover have "rx l \<noteq> greeting 0 @ rest" for rest
    using no_version by (simp add: greeting_def)
  ultimately show ?thesis by simp
next
  case (greeted v rest)
  show ?thesis
  proof (cases "v = 0")
    case True
    then show ?thesis
      using service_accepts_greeted [OF assms, of rest find_service t a s] greeted
      by (auto simp: read_frame_Ok_iff fits_def)
  next
    case False
    then have "fst (run_io (service_negotiate find_service t) l) = Err UnsupportedProtocolVersion"
      unfolding service_negotiate_def run_then_Ok [OF run_protocol_magic [OF assms greeted]]
      by (simp add: word_gt_0)
    moreover have "rx l \<noteq> greeting 0 @ more" for more
      using False greeted by (simp add: greeting_def)
    ultimately show ?thesis by simp
  qed
qed

theorem service_negotiate_accepts_witness:
  "fst (run_io (service_negotiate (\<lambda>a t. if segments a = [[97]] then Some (t + 1 :: nat) else None) 6)
     \<lparr>rx = [0x4e, 0x59, 0x41, 0x4e, 0, 0, 0, 0, 2, 47, 97], tx = [], wcap = None, read_first = False\<rparr>)
   = Ok (\<lparr>segments = [[97]]\<rparr>, 7)"
proof -
  have g: "greeting 0 @ frame (address_into_bytes \<lparr>segments = [[97]]\<rparr>) @ [] =
      [0x4e, 0x59, 0x41, 0x4e, 0, 0, 0, 0, 2, 47, 97]"
    and "valid_address \<lparr>segments = [[97]]\<rparr>" "length (address_into_bytes \<lparr>segments = [[97]]\<rparr>) = 2"
    by (simp_all add: greeting_def SNOCAT_NEGOTIATION_MAGIC_def frame_def address_into_bytes_def
        into_bytes_def rendered_def iter_segments_def needs_escaped_def utf8_char_def
        u32_to_be_bytes_def valid_address_def scalar_def)
  moreover have "\<exists>rest. [0x4e, 0x59, 0x41, 0x4e, 0, 0, 0, 0, 2, 47, 97] =
      greeting 0 @ frame (address_into_bytes \<lparr>segments = [[97]]\<rparr>) @ rest"
    by (rule exI [of _ "[]"]) (simp only: g)
  ultimately show ?thesis
    using service_negotiate_accepts [of "\<lparr>rx = [0x4e, 0x59, 0x41, 0x4e, 0, 0, 0, 0, 2, 47, 97],
        tx = [], wcap = None, read_first = False\<rparr>"
        "\<lambda>a t. if segments a = [[97]] then Some (t + 1 :: nat) else None" 6
        "\<lparr>segments = [[97]]\<rparr>" 7]
    by simp
qed

section \<open>Both parties\<close>

lemmas negotiation_defs = client_negotiate_def service_negotiate_def protocol_magic_def read_magic_def
  write_magic_and_version_def flush_def read_frame_def read_frame_content_def write_frame_def
  io_prim_defs

definition negotiation_start ::
  "route_address \<Rightarrow> (route_address \<Rightarrow> 't \<Rightarrow> 's option) \<Rightarrow> 't \<Rightarrow>
   (('e negotiation_error, unit) result, (anyhow negotiation_error, route_address \<times> 's) result) net" where
  "negotiation_start addr find_service t =
     net_start (client_negotiate addr) (service_negotiate find_service t)"

definition negotiation_end ::
  "('e negotiation_error, unit) result \<Rightarrow> (anyhow negotiation_error, route_address \<times> 's) result \<Rightarrow> byte list \<Rightarrow>
   (('e negotiation_error, unit) result, (anyhow negotiation_error, route_address \<times> 's) result) net" where
  "negotiation_end c s left = \<lparr>lhs = Done c, rhs = Done s, to_rhs = left, to_lhs = []\<rparr>"

lemma negotiation_run:
  assumes "length (address_into_bytes addr) < 4294967296" "valid_address addr"
  shows "net_run (negotiation_start addr find_service t) =
    (if length (address_into_bytes addr) > 2048
     then negotiation_end (Err ReadError) (Err ProtocolViolation) (address_into_bytes addr)
     else case find_service addr t of
         None \<Rightarrow> negotiation_end (Err negotiation_error.Refused) (Err negotiation_error.Refused) []
       | Some s \<Rightarrow> negotiation_end (Ok ()) (Ok (addr, s)) [])"
proof -
  define bs where "bs = address_into_bytes addr"
  have p: "parse_address_frame bs = (Ok addr :: (anyhow negotiation_error, route_address) result)"
    using assms(2) address_from_bytes_iff [of bs addr] by (simp add: parse_address_frame_eq bs_def)
  have l: "length bs < 4294967296" using assms(1) by (simp add: bs_def)
  show ?thesis
    using p l
    by (simp add: negotiation_start_def negotiation_end_def net_start_def negotiation_defs
        SNOCAT_NEGOTIATION_MAGIC_def net_simps Let_def split: option.splits flip: bs_def)
qed

text \<open>
  C1: a client and a service that negotiate over a reliable stream always agree, whatever the
  interleaving of their reads and writes. For a well-formed address of at most 2048 bytes, every
  run can be continued to, and can only stop at, the configuration in which the client is
  accepted and the service returns the client's address with the service the registry found, or
  both report the refusal when it found none; no byte is left over on the stream.
\<close>

theorem negotiation_agreement:
  assumes "valid_address addr" "length (address_into_bytes addr) \<le> 2048"
    and "net_step\<^sup>*\<^sup>* (negotiation_start addr find_service t) e"
  defines "outcome \<equiv> (case find_service addr t of
      None \<Rightarrow> negotiation_end (Err negotiation_error.Refused) (Err negotiation_error.Refused) []
    | Some s \<Rightarrow> negotiation_end (Ok ()) (Ok (addr, s)) [])"
  shows "net_step\<^sup>*\<^sup>* e outcome \<and> (settled e \<longrightarrow> e = outcome)"
  using net_run_only_end [OF assms(3)] assms(1,2) by (simp add: negotiation_run outcome_def)

lemma short_address: "length (address_into_bytes \<lparr>segments = [[97]]\<rparr>) = 2"
  "valid_address \<lparr>segments = [[97]]\<rparr>"
  by (simp_all add: address_into_bytes_def into_bytes_def rendered_def iter_segments_def
      needs_escaped_def utf8_char_def valid_address_def scalar_def)

theorem negotiation_agreement_witness:
  "net_step\<^sup>*\<^sup>* (negotiation_start \<lparr>segments = [[97]]\<rparr> (\<lambda>_ t. Some (t + 1 :: nat)) 6)
     (negotiation_end (Ok () :: (nat negotiation_error, unit) result) (Ok (\<lparr>segments = [[97]]\<rparr>, 7)) [])"
  using negotiation_agreement [of "\<lparr>segments = [[97]]\<rparr>" "\<lambda>_ t. Some (t + 1 :: nat)" 6
      "negotiation_start \<lparr>segments = [[97]]\<rparr> (\<lambda>_ t. Some (t + 1 :: nat)) 6
        :: ((nat negotiation_error, unit) result, _) net"] short_address
  by simp

text \<open>
  An address whose rendering is longer than 2048 bytes (and shorter than 4 GiB) is never
  negotiated: the service reports a protocol violation and drops the stream, and the client,
  waiting for the answer, reports a read error.
\<close>

lemma negotiation_too_long:
  assumes "valid_address addr" "2048 < length (address_into_bytes addr)"
    "length (address_into_bytes addr) < 4294967296"
  shows "net_run (negotiation_start addr find_service t) =
    negotiation_end (Err ReadError) (Err ProtocolViolation) (address_into_bytes addr)"
  using assms by (simp add: negotiation_run)

lemma negotiation_too_long_witness:
  "net_run (negotiation_start \<lparr>segments = [replicate 3000 97]\<rparr> (\<lambda>_ t. Some t) ()) =
     negotiation_end (Err ReadError :: (nat negotiation_error, unit) result) (Err ProtocolViolation)
       (address_into_bytes \<lparr>segments = [replicate 3000 97]\<rparr>)"
proof -
  have "valid_str (replicate n 97)" "length (utf8 (replicate n 97)) = n" for n
    by (induction n) (simp_all add: scalar_def utf8_char_def)
  moreover have "filter needs_escaped (replicate n 97) = []" for n
    by (simp add: needs_escaped_def)
  ultimately have "valid_address \<lparr>segments = [replicate 3000 97]\<rparr>"
    "length (address_into_bytes \<lparr>segments = [replicate 3000 97]\<rparr>) = 3001"
    unfolding length_address_into_bytes
    by (simp_all add: valid_address_def rendered_capacity_def iter_segments_def
        estimate_rendered_segment_upper_length_bound_def)
  then show ?thesis by (intro negotiation_too_long) simp_all
qed

end
