(* ===== verification/Ports.thy ===== *)
theory Ports
  imports Rust_Strings
begin

text \<open>
  Port allocation (\<open>server/mod.rs\<close>) and the parser of port ranges
  (\<open>util/validators.rs\<close>). The allocator is a record of its range, the set of allocated
  ports and the queue of ports marked as freed while the set was locked. A system state adds the
  live handles and whether some task holds the lock; its steps are the allocator's operations in
  every order. The invariant says that live handles never share a port and that an allocated
  port is held or queued.
\<close>

section \<open>The allocator\<close>

record port_range_allocator =
  range_start :: port
  range_end :: port
  allocated :: "port set"
  mark_queue :: "port list"

datatype port_range_allocation_error = NoFreePorts port port

definition allocator_new :: "port \<Rightarrow> port \<Rightarrow> port_range_allocator" where
  "allocator_new start stop =
    \<lparr>range_start = start, range_end = stop, allocated = {}, mark_queue = []\<rparr>"

definition range_ports :: "port_range_allocator \<Rightarrow> port list" where
  "range_ports a = map of_nat [unat (range_start a)..<Suc (unat (range_end a))]"

fun iter_min :: "'a :: linorder list \<Rightarrow> 'a option" where
  "iter_min [] = None"
| "iter_min (x # xs) = (case iter_min xs of None \<Rightarrow> Some x | Some m \<Rightarrow> Some (min x m))"

fun drain_marks :: "port set \<Rightarrow> port list \<Rightarrow> port set" where
  "drain_marks allocations [] = allocations"
| "drain_marks allocations (marked # ms) = drain_marks (allocations - {marked}) ms"

definition cleanup_freed_ports :: "port_range_allocator \<Rightarrow> port_range_allocator" where
  "cleanup_freed_ports a =
    a\<lparr>allocated := drain_marks (allocated a) (mark_queue a), mark_queue := []\<rparr>"

definition allocate ::
  "port_range_allocator \<Rightarrow> (port_range_allocation_error, port) result \<times> port_range_allocator" where
  "allocate a =
    (let a' = cleanup_freed_ports a in
     case iter_min (filter (\<lambda>test_port. test_port \<notin> allocated a') (range_ports a')) of
       None \<Rightarrow> (Err (NoFreePorts (range_start a') (range_end a')), a')
     | Some port \<Rightarrow> (Ok port, a'\<lparr>allocated := insert port (allocated a')\<rparr>))"

definition free :: "port \<Rightarrow> port_range_allocator \<Rightarrow> bool \<times> port_range_allocator" where
  "free port a =
    (let removed = (port \<in> allocated a);
         a' = a\<lparr>allocated := allocated a - {port}\<rparr>
     in (removed, cleanup_freed_ports a'))"

text \<open>\<open>would_block\<close> is the outcome of \<open>try_lock\<close>: another task holds the lock.\<close>

definition mark_freed :: "bool \<Rightarrow> port \<Rightarrow> port_range_allocator \<Rightarrow> port_range_allocator" where
  "mark_freed would_block port a =
    (if would_block then a\<lparr>mark_queue := mark_queue a @ [port]\<rparr>
     else a\<lparr>allocated := allocated a - {port}\<rparr>)"

section \<open>Handles\<close>

record allocation_handle =
  handle_port :: port
  allocated_in :: bool

definition handle_new :: "port \<Rightarrow> allocation_handle" where
  "handle_new port = \<lparr>handle_port = port, allocated_in = True\<rparr>"

definition handle_drop ::
  "bool \<Rightarrow> allocation_handle \<Rightarrow> port_range_allocator \<Rightarrow> allocation_handle \<times> port_range_allocator" where
  "handle_drop would_block h a =
    (if allocated_in h then (h\<lparr>allocated_in := False\<rparr>, mark_freed would_block (handle_port h) a)
     else (h, a))"

section \<open>The system of an allocator, its handles and its lock\<close>

record port_system =
  allocator :: port_range_allocator
  live :: "allocation_handle list"
  lock_held :: bool

definition system_new :: "port \<Rightarrow> port \<Rightarrow> port_system" where
  "system_new start stop =
    \<lparr>allocator = allocator_new start stop, live = [], lock_held = False\<rparr>"

definition held_ports :: "port_system \<Rightarrow> port set" where
  "held_ports s = handle_port ` set (live s)"

text \<open>
  \<open>allocate\<close> and \<open>free\<close> take the lock in one step and do their work and release it in a
  later one, since they await the receiver's lock in between; a handle can be dropped at any
  point, and its drop is the fast path or the queue according to the lock. A call can also be
  cancelled while it awaits, which releases the lock; \<open>free\<close> has then removed its port
  already. The label of a step is the port that its caller declares free, by \<open>free\<close> or
  \<open>mark_freed\<close>; neither checks whether a handle owns it.
\<close>

datatype release = FreeCall port | MarkCall port

inductive port_step :: "port_system \<Rightarrow> release option \<Rightarrow> port_system \<Rightarrow> bool" where
  acquire: "\<not> lock_held s \<Longrightarrow> port_step s None (s\<lparr>lock_held := True\<rparr>)"
| finish_allocate: "lock_held s \<Longrightarrow> allocate (allocator s) = (Ok p, a) \<Longrightarrow>
    port_step s None (s\<lparr>allocator := a, live := handle_new p # live s, lock_held := False\<rparr>)"
| finish_allocate_error: "lock_held s \<Longrightarrow> allocate (allocator s) = (Err e, a) \<Longrightarrow>
    port_step s None (s\<lparr>allocator := a, lock_held := False\<rparr>)"
| finish_free: "lock_held s \<Longrightarrow>
    port_step s (Some (FreeCall p)) (s\<lparr>allocator := snd (free p (allocator s)), lock_held := False\<rparr>)"
| cancel: "lock_held s \<Longrightarrow> port_step s None (s\<lparr>lock_held := False\<rparr>)"
| cancel_free: "lock_held s \<Longrightarrow>
    port_step s (Some (FreeCall p)) (s\<lparr>allocator := (allocator s)\<lparr>allocated := allocated (allocator s) - {p}\<rparr>,
      lock_held := False\<rparr>)"
| call_mark: "port_step s (Some (MarkCall p)) (s\<lparr>allocator := mark_freed (lock_held s) p (allocator s)\<rparr>)"
| drop_handle: "live s = xs @ h # ys \<Longrightarrow>
    port_step s None (s\<lparr>allocator := snd (handle_drop (lock_held s) h (allocator s)), live := xs @ ys\<rparr>)"

text \<open>
  The callers' side of the contract: \<open>free\<close> is called only for ports that no live handle owns,
  and \<open>mark_freed\<close> only by the handles themselves.
\<close>

fun entitled :: "port_system \<Rightarrow> release option \<Rightarrow> bool" where
  "entitled s None = True"
| "entitled s (Some (FreeCall p)) = (p \<notin> held_ports s)"
| "entitled s (Some (MarkCall p)) = False"

definition entitled_step :: "port_system \<Rightarrow> port_system \<Rightarrow> bool" where
  "entitled_step s s' \<longleftrightarrow> (\<exists>l. port_step s l s' \<and> entitled s l)"

definition port_reachable :: "port \<Rightarrow> port \<Rightarrow> port_system \<Rightarrow> bool" where
  "port_reachable start stop s \<longleftrightarrow> entitled_step\<^sup>*\<^sup>* (system_new start stop) s"

section \<open>Port ranges on the command line\<close>

fun split_once :: "rchar \<Rightarrow> rstr \<Rightarrow> (rstr \<times> rstr) option" where
  "split_once d [] = None"
| "split_once d (c # cs) =
    (if c = d then Some ([], cs)
     else case split_once d cs of None \<Rightarrow> None | Some (a, b) \<Rightarrow> Some (c # a, b))"

definition parse_port_range :: "rstr \<Rightarrow> (rstr, port \<times> port) result" where
  "parse_port_range v =
    (case split_once 58 v of
       None \<Rightarrow> Err (lit ''Could not match ':' in port range string'')
     | Some (start, stop) \<Rightarrow>
         (case (parse_u16 start, parse_u16 stop) of
            (Inr s, Inr e) \<Rightarrow> Ok (s, e)
          | (Inl _, Inl _) \<Rightarrow> Err (lit ''Range components were not valid u16s'')
          | (Inl _, _) \<Rightarrow> Err (lit ''Range start component was not a valid u16'')
          | (_, Inl _) \<Rightarrow> Err (lit ''Range end component was not a valid u16'')))"

definition validate_port_range :: "rstr \<Rightarrow> (rstr, unit) result" where
  "validate_port_range v = map_ok (\<lambda>_. ()) (parse_port_range v)"

section \<open>The invariant\<close>

definition port_inv :: "port_system \<Rightarrow> bool" where
  "port_inv s \<longleftrightarrow>
     distinct (map handle_port (live s)) \<and> (\<forall>h \<in> set (live s). allocated_in h) \<and>
     held_ports s \<subseteq> allocated (allocator s) \<and>
     allocated (allocator s) \<subseteq> held_ports s \<union> set (mark_queue (allocator s)) \<and>
     held_ports s \<inter> set (mark_queue (allocator s)) = {} \<and>
     held_ports s \<subseteq> set (range_ports (allocator s))"

lemma drain_marks_eq [simp]: "drain_marks A ms = A - set ms"
  by (induction ms arbitrary: A) auto

lemma iter_min_None [simp]: "iter_min xs = None \<longleftrightarrow> xs = []"
  by (cases xs) (auto split: option.splits)

lemma iter_min_Some: "iter_min xs = Some m \<Longrightarrow> m \<in> set xs \<and> (\<forall>x \<in> set xs. m \<le> x)"
  by (induction xs arbitrary: m) (auto split: option.splits simp: min_def intro: order.trans)

lemma cleanup_simps [simp]:
  "allocated (cleanup_freed_ports a) = allocated a - set (mark_queue a)"
  "mark_queue (cleanup_freed_ports a) = []"
  "range_start (cleanup_freed_ports a) = range_start a"
  "range_end (cleanup_freed_ports a) = range_end a"
  "range_ports (cleanup_freed_ports a) = range_ports a"
  by (simp_all add: cleanup_freed_ports_def range_ports_def)

lemma range_ports_update [simp]: "range_ports (a\<lparr>allocated := A\<rparr>) = range_ports a"
  "range_ports (a\<lparr>mark_queue := q\<rparr>) = range_ports a"
  by (simp_all add: range_ports_def)

lemma allocate_Ok:
  assumes "allocate a = (Ok p, a')"
  shows "p \<in> set (range_ports a)" "p \<notin> allocated a - set (mark_queue a)"
    "\<And>q. q \<in> set (range_ports a) \<Longrightarrow> q \<notin> allocated a - set (mark_queue a) \<Longrightarrow> p \<le> q"
    "allocated a' = insert p (allocated a - set (mark_queue a))" "mark_queue a' = []"
    "range_ports a' = range_ports a"
  using assms by (auto simp: allocate_def Let_def split: option.splits dest: iter_min_Some)

lemma allocate_Err:
  assumes "allocate a = (Err e, a')"
  shows "set (range_ports a) \<subseteq> allocated a - set (mark_queue a)"
    "allocated a' = allocated a - set (mark_queue a)" "mark_queue a' = []"
    "range_ports a' = range_ports a"
  using assms by (auto simp: allocate_def Let_def filter_empty_conv split: option.splits)

lemma port_inv_new: "port_inv (system_new a b)"
  by (simp add: port_inv_def system_new_def allocator_new_def held_ports_def)

lemma port_inv_allocate:
  assumes "port_inv s" "allocate (allocator s) = (Ok p, a)"
  shows "port_inv (s\<lparr>allocator := a, live := handle_new p # live s, lock_held := b\<rparr>)"
  using assms(1) allocate_Ok [OF assms(2)]
  by (auto simp: port_inv_def held_ports_def handle_new_def)

lemma port_inv_drop:
  assumes "port_inv s" "live s = xs @ h # ys"
  shows "port_inv (s\<lparr>allocator := snd (handle_drop w h (allocator s)), live := xs @ ys\<rparr>)"
  using assms
  by (cases w; auto simp: port_inv_def held_ports_def handle_drop_def mark_freed_def)
    (metis image_eqI)+

lemma port_inv_free:
  assumes "port_inv s" "p \<notin> held_ports s"
  shows "port_inv (s\<lparr>allocator := snd (free p (allocator s)), lock_held := b\<rparr>)"
  using assms by (auto simp: port_inv_def held_ports_def free_def Let_def)

lemma port_step_inv: "port_step s l s' \<Longrightarrow> entitled s l \<Longrightarrow> port_inv s \<Longrightarrow> port_inv s'"
proof (induction rule: port_step.induct)
  case (finish_allocate_error s e a)
  then show ?case
    using allocate_Err [OF finish_allocate_error(2)] by (auto simp: port_inv_def held_ports_def)
qed (auto simp: port_inv_allocate port_inv_drop port_inv_free, auto simp: port_inv_def held_ports_def)

lemma port_reachable_inv: "port_reachable a b s \<Longrightarrow> port_inv s"
  unfolding port_reachable_def
  by (induction rule: rtranclp_induct) (auto simp: entitled_step_def intro: port_inv_new port_step_inv)

lemma mem_range_ports: "p \<in> set (range_ports a) \<longleftrightarrow> range_start a \<le> p \<and> p \<le> range_end a"
proof -
  have "p \<in> set (range_ports a) \<longleftrightarrow>
      (\<exists>n. unat (range_start a) \<le> n \<and> n \<le> unat (range_end a) \<and> p = of_nat n)"
    by (auto simp: range_ports_def image_iff less_Suc_eq_le)
  also have "\<dots> \<longleftrightarrow> unat (range_start a) \<le> unat p \<and> unat p \<le> unat (range_end a)"
  proof safe
    fix n
    assume n: "unat (range_start a) \<le> n" "n \<le> unat (range_end a)"
    then have "n < 65536" using unat_word16_less [of "range_end a"] by linarith
    then show "unat (range_start a) \<le> unat (of_nat n :: port)"
      "unat (of_nat n :: port) \<le> unat (range_end a)"
      using n by simp_all
  next
    assume "unat (range_start a) \<le> unat p" "unat p \<le> unat (range_end a)"
    then show "\<exists>n\<ge>unat (range_start a). n \<le> unat (range_end a) \<and> p = of_nat n"
      by (intro exI [of _ "unat p"]) simp
  qed
  finally show ?thesis by (simp add: word_le_nat_alt)
qed

lemma port_step_range:
  "port_step s l s' \<Longrightarrow> range_start (allocator s') = range_start (allocator s)
     \<and> range_end (allocator s') = range_end (allocator s)"
  by (induction rule: port_step.induct)
    (auto simp: allocate_def free_def handle_drop_def mark_freed_def Let_def split: option.splits)

lemma port_reachable_range:
  "port_reachable a b s \<Longrightarrow> range_start (allocator s) = a \<and> range_end (allocator s) = b"
  unfolding port_reachable_def
  by (induction rule: rtranclp_induct)
    (auto simp: system_new_def allocator_new_def entitled_step_def dest: port_step_range)



lemma one_allocated:
  "port_reachable 8000 8001 \<lparr>allocator = \<lparr>range_start = 8000, range_end = 8001, allocated = {8000},
     mark_queue = []\<rparr>, live = [handle_new 8000], lock_held = False\<rparr>"
proof -
  let ?s = "system_new 8000 8001"
  have "allocate (allocator (?s\<lparr>lock_held := True\<rparr>)) =
      (Ok 8000, \<lparr>range_start = 8000, range_end = 8001, allocated = {8000}, mark_queue = []\<rparr>)"
    by (simp add: system_new_def allocator_new_def allocate_def Let_def range_ports_def
        cleanup_freed_ports_def upt_conv_Cons)
  from port_step.finish_allocate [OF _ this] have
    "entitled_step (?s\<lparr>lock_held := True\<rparr>) \<lparr>allocator = \<lparr>range_start = 8000, range_end = 8001,
       allocated = {8000}, mark_queue = []\<rparr>, live = [handle_new 8000], lock_held = False\<rparr>"
    unfolding entitled_step_def by (intro exI [of _ None]) (simp add: system_new_def)
  moreover have "entitled_step ?s (?s\<lparr>lock_held := True\<rparr>)"
    unfolding entitled_step_def
    by (intro exI [of _ None] conjI port_step.acquire) (simp_all add: system_new_def)
  ultimately show ?thesis
    unfolding port_reachable_def by (meson converse_rtranclp_into_rtranclp r_into_rtranclp)
qed



lemma allocate_of_least:
  assumes "p \<in> set (range_ports b)" "p \<notin> allocated b - set (mark_queue b)"
    "\<And>q. q \<in> set (range_ports b) \<Longrightarrow> q \<notin> allocated b - set (mark_queue b) \<Longrightarrow> p \<le> q"
  shows "\<exists>c. allocate b = (Ok p, c) \<and> range_ports c = range_ports b
    \<and> allocated c = insert p (allocated b - set (mark_queue b)) \<and> mark_queue c = []"
proof -
  obtain r c where rc: "allocate b = (r, c)" by fastforce
  show ?thesis
  proof (cases r)
    case (Inl e)
    then show ?thesis using rc allocate_Err [of b e c] assms by auto
  next
    case (Inr q)
    then have "q = p"
      using rc allocate_Ok [of b q c] assms by (meson order.antisym)
    then show ?thesis using rc Inr allocate_Ok [of b q c] by simp
  qed
qed

text \<open>What further calls of \<open>allocate\<close> return.\<close>

fun allocations :: "nat \<Rightarrow> port_range_allocator \<Rightarrow> (port_range_allocation_error, port) result list" where
  "allocations 0 a = []"
| "allocations (Suc n) a = (case allocate a of (r, a') \<Rightarrow> r # allocations n a')"

text \<open>As many allocations as there are free ports below \<open>p\<close> hand those out in order, the next one \<open>p\<close>.\<close>

lemma allocations_upto:
  assumes "p \<in> set (range_ports a)" "p \<notin> allocated a - set (mark_queue a)"
    and "sorted qs" "distinct qs"
    and "set qs = {q \<in> set (range_ports a). q < p} - (allocated a - set (mark_queue a))"
  shows "allocations (Suc (length qs)) a = map Ok (qs @ [p])"
  using assms
proof (induction qs arbitrary: a)
  case Nil
  have "p \<le> x" if "x \<in> set (range_ports a)" "x \<notin> allocated a - set (mark_queue a)" for x
  proof (rule ccontr)
    assume "\<not> p \<le> x"
    then have "x \<in> set []" using that unfolding Nil.prems(5) by simp
    then show False by simp
  qed
  then have "\<exists>c. allocate a = (Ok p, c)"
    using allocate_of_least [OF Nil.prems(1,2)] by blast
  then show ?case by auto
next
  case (Cons q qs)
  have q: "q \<in> set (range_ports a)" "q < p" "q \<notin> allocated a - set (mark_queue a)"
    using Cons.prems(5) by auto
  have "q \<le> x" if "x \<in> set (range_ports a)" "x \<notin> allocated a - set (mark_queue a)" for x
  proof (cases "x < p")
    case True
    then have "x \<in> set (q # qs)" using that unfolding Cons.prems(5) by simp
    then show ?thesis using Cons.prems(3) by auto
  next
    case False
    then show ?thesis using q(2) by simp
  qed
  then obtain c where c: "allocate a = (Ok q, c)" "range_ports c = range_ports a"
      "allocated c = insert q (allocated a - set (mark_queue a))" "mark_queue c = []"
    using allocate_of_least [OF q(1,3)] by blast
  have "set qs = {x \<in> set (range_ports c). x < p} - (allocated c - set (mark_queue c))"
    using Cons.prems(4,5) c by auto
  then have "allocations (Suc (length qs)) c = map Ok (qs @ [p])"
    using Cons.prems(1-4) c q(2) by (intro Cons.IH) auto
  then show ?case using c(1) by simp
qed



section \<open>Parsing port ranges\<close>

definition show_port_range :: "port \<times> port \<Rightarrow> rstr" where
  "show_port_range r = show_u16 (fst r) @ [58] @ show_u16 (snd r)"

lemma split_once_append: "d \<notin> set a \<Longrightarrow> split_once d (a @ d # b) = Some (a, b)"
  by (induction a) auto

interpretation port_range_text: codec "\<lambda>_. True" show_port_range "\<lambda>s. ok (parse_port_range s)"
  by unfold_locales
    (auto simp: show_port_range_def parse_port_range_def split_once_append is_digit_def)

end
