(* ===== verification/Futures.thy ===== *)
theory Futures
  imports Prelude
begin

text \<open>
  The future combinators of \<open>ext/future\<close>: \<open>PollUntil\<close>, \<open>TryPollUntil\<close>,
  \<open>TryPollUntilOrElse\<close>, \<open>DelayedValue\<close>, \<open>Delayed\<close>, \<open>TryDelayed\<close> and
  \<open>Tracked\<close>. A future is a state with a poll function that returns the outcome and the next
  state; an inner future is given by its poll function. The contract of a fused future is a locale:
  it finishes at most once, says so in \<open>is_terminated\<close>, and is pending ever after.
\<close>

type_synonym ('s, 'o) poll_fn = "'s \<Rightarrow> 'o poll \<times> 's"

text \<open>
  What happens to a loop that handles the items of a source concurrently
  (\<open>try_for_each_concurrent\<close>), and the loop itself as a parameter: from the events so far to
  its outcome, \<open>None\<close> while it runs.
\<close>

datatype 'x loop_event =
    ItemArrived | SourceFailed 'x | SourceEnded | ItemFinished "('x, unit) result"

type_synonym 'x concurrent_loop = "'x loop_event list \<Rightarrow> ('x, unit) result option"

section \<open>The contract of a fused future\<close>

primrec polls :: "('s, 'o) poll_fn \<Rightarrow> nat \<Rightarrow> 's \<Rightarrow> 'o poll list" where
  "polls poll 0 s = []"
| "polls poll (Suc n) s = (case poll s of (r, s') \<Rightarrow> r # polls poll n s')"

definition outputs :: "'o poll list \<Rightarrow> 'o list" where
  "outputs ps = concat (map (\<lambda>p. case p of Pending \<Rightarrow> [] | Ready a \<Rightarrow> [a]) ps)"

locale fused_future =
  fixes inv :: "'s \<Rightarrow> bool" and poll :: "('s, 'o) poll_fn" and is_terminated :: "'s \<Rightarrow> bool"
  assumes inv_poll: "inv s \<Longrightarrow> poll s = (r, s') \<Longrightarrow> inv s'"
    and ready_terminates: "inv s \<Longrightarrow> poll s = (Ready a, s') \<Longrightarrow> is_terminated s'"
    and terminated_pending:
      "inv s \<Longrightarrow> is_terminated s \<Longrightarrow> \<exists>s'. poll s = (Pending, s') \<and> is_terminated s'"
begin

lemma terminated_polls:
  "inv s \<Longrightarrow> is_terminated s \<Longrightarrow> polls poll n s = replicate n Pending"
proof (induction n arbitrary: s)
  case (Suc n)
  obtain s' where "poll s = (Pending, s')" "is_terminated s'"
    using terminated_pending Suc.prems by blast
  then show ?case
    using Suc.IH inv_poll Suc.prems by simp
qed simp

lemma at_most_one_output: "inv s \<Longrightarrow> length (outputs (polls poll n s)) \<le> 1"
proof (induction n arbitrary: s)
  case (Suc n)
  obtain r s' where r: "poll s = (r, s')" by fastforce
  have "outputs (replicate n (Pending :: 'o poll)) = []"
    by (simp add: outputs_def)
  then show ?case
    using Suc r ready_terminates [OF Suc.prems] terminated_polls [of s'] inv_poll [OF Suc.prems r]
    by (cases r) (auto simp: outputs_def)
qed (simp add: outputs_def)

end

section \<open>PollUntil\<close>

record ('f, 'c) poll_until =
  task :: 'f
  canceller :: "'c option"

definition poll_until_poll ::
  "('f, 'o) poll_fn \<Rightarrow> ('c, 'x) poll_fn \<Rightarrow> (('f, 'c) poll_until, 'o option) poll_fn" where
  "poll_until_poll poll_task poll_canceller s =
    (case canceller s of
       None \<Rightarrow> (Pending, s)
     | Some c \<Rightarrow>
         (case poll_canceller c of
            (Ready _, c') \<Rightarrow> (Ready None, s\<lparr>canceller := None\<rparr>)
          | (Pending, c') \<Rightarrow>
              (case poll_task (task s) of
                 (Pending, f') \<Rightarrow> (Pending, s\<lparr>task := f', canceller := Some c'\<rparr>)
               | (Ready res, f') \<Rightarrow> (Ready (Some res), s\<lparr>task := f', canceller := None\<rparr>))))"

definition poll_until_is_terminated :: "('f, 'c) poll_until \<Rightarrow> bool" where
  "poll_until_is_terminated s \<longleftrightarrow> canceller s = None"

definition try_poll_until_poll ::
  "('f, ('e, 't) result) poll_fn \<Rightarrow> ('c, 'x) poll_fn \<Rightarrow>
   (('f, 'c) poll_until, ('e, 't option) result) poll_fn" where
  "try_poll_until_poll poll_task poll_canceller s =
    (case poll_until_poll poll_task poll_canceller s of
       (Pending, s') \<Rightarrow> (Pending, s')
     | (Ready res, s') \<Rightarrow>
         (Ready (case res of
            Some (Inl e) \<Rightarrow> Err e
          | Some (Inr r) \<Rightarrow> Ok (Some r)
          | None \<Rightarrow> Ok None), s'))"

record ('f, 'c, 'r) try_poll_until_or_else =
  inner :: "('f, 'c) poll_until"
  make_timeout_error :: "(unit \<Rightarrow> 'r) option"

definition try_poll_until_or_else_poll ::
  "('f, ('e, 't) result) poll_fn \<Rightarrow> ('c, 'x) poll_fn \<Rightarrow>
   (('f, 'c, ('e, 't) result) try_poll_until_or_else, ('e, 't) result) poll_fn" where
  "try_poll_until_or_else_poll poll_task poll_canceller s =
    (case make_timeout_error s of
       None \<Rightarrow> (Pending, s)
     | Some cb \<Rightarrow>
         (case poll_until_poll poll_task poll_canceller (inner s) of
            (Pending, i) \<Rightarrow> (Pending, s\<lparr>inner := i\<rparr>)
          | (Ready (Some (Inr r)), i) \<Rightarrow> (Ready (Ok r), s\<lparr>inner := i\<rparr>)
          | (Ready (Some (Inl e)), i) \<Rightarrow> (Ready (Err e), s\<lparr>inner := i\<rparr>)
          | (Ready None, i) \<Rightarrow> (Ready (cb ()), s\<lparr>inner := i, make_timeout_error := None\<rparr>)))"

definition try_poll_until_or_else_is_terminated ::
  "('f, 'c, 'r) try_poll_until_or_else \<Rightarrow> bool" where
  "try_poll_until_or_else_is_terminated s \<longleftrightarrow>
     make_timeout_error s = None \<or> poll_until_is_terminated (inner s)"

lemmas poll_until_defs = poll_until_poll_def poll_until_is_terminated_def try_poll_until_poll_def
  try_poll_until_or_else_poll_def try_poll_until_or_else_is_terminated_def

interpretation poll_until: fused_future "\<lambda>_. True" "poll_until_poll pt pc" poll_until_is_terminated
  for pt :: "('f, 'o) poll_fn" and pc :: "('c, 'x) poll_fn"
  by unfold_locales (auto simp: poll_until_defs split: option.splits prod.splits poll.splits)

interpretation try_poll_until:
  fused_future "\<lambda>_. True" "try_poll_until_poll pt pc" poll_until_is_terminated
  for pt :: "('f, ('e, 't) result) poll_fn" and pc :: "('c, 'x) poll_fn"
  by unfold_locales (auto simp: poll_until_defs split: option.splits prod.splits poll.splits sum.splits)

interpretation try_poll_until_or_else:
  fused_future "\<lambda>_. True" "try_poll_until_or_else_poll pt pc" try_poll_until_or_else_is_terminated
  for pt :: "('f, ('e, 't) result) poll_fn" and pc :: "('c, 'x) poll_fn"
  by unfold_locales (auto simp: poll_until_defs split: option.splits prod.splits poll.splits sum.splits)

text \<open>
  \<open>PollUntil\<close>, \<open>TryPollUntil\<close> and \<open>TryPollUntilOrElse\<close> finish at most once,
  however often and in whatever state they are polled.
\<close>

lemma poll_until_single_output:
  "length (outputs (polls (poll_until_poll pt pc) n s)) \<le> 1 \<and>
   length (outputs (polls (try_poll_until_poll tpt pc) n s)) \<le> 1 \<and>
   length (outputs (polls (try_poll_until_or_else_poll tpt pc) n t)) \<le> 1"
  by (intro conjI poll_until.at_most_one_output try_poll_until.at_most_one_output
      try_poll_until_or_else.at_most_one_output) simp_all

lemma polls_Suc_Cons: "polls p (Suc n) s = x # xs \<longleftrightarrow> (\<exists>s'. p s = (x, s') \<and> polls p n s' = xs)"
  by (auto split: prod.splits)

lemma poll_until_cancelled:
  "\<lbrakk>polls pc (Suc k) c = replicate k Pending @ [Ready x]; polls pt k f = replicate k Pending\<rbrakk> \<Longrightarrow>
    polls (poll_until_poll pt pc) (Suc k) \<lparr>task = f, canceller = Some c\<rparr> =
      replicate k Pending @ [Ready None]"
proof (induction k arbitrary: c f)
  case (Suc k)
  then show ?case
    by (auto simp: polls_Suc_Cons poll_until_poll_def simp del: polls.simps(2))
qed (auto simp: polls_Suc_Cons poll_until_poll_def simp del: polls.simps(2))

lemma poll_until_completed:
  "\<lbrakk>polls pc (Suc k) c = replicate (Suc k) Pending;
    polls pt (Suc k) f = replicate k Pending @ [Ready r]\<rbrakk> \<Longrightarrow>
    polls (poll_until_poll pt pc) (Suc k) \<lparr>task = f, canceller = Some c\<rparr> =
      replicate k Pending @ [Ready (Some r)]"
proof (induction k arbitrary: c f)
  case (Suc k)
  then show ?case
    by (auto simp: polls_Suc_Cons poll_until_poll_def simp del: polls.simps(2))
qed (auto simp: polls_Suc_Cons poll_until_poll_def simp del: polls.simps(2))

text \<open>
  \<open>PollUntil\<close> is decided by whichever of the task and the canceller is ready first, and
  a canceller that is ready in the same poll as the task wins: the task is then not polled.
\<close>

lemma poll_until_first_wins:
  "(polls pc (Suc k) c = replicate k Pending @ [Ready x] \<and> polls pt k f = replicate k Pending \<longrightarrow>
      polls (poll_until_poll pt pc) (Suc k) \<lparr>task = f, canceller = Some c\<rparr> =
        replicate k Pending @ [Ready None]) \<and>
   (polls pc (Suc k) c = replicate (Suc k) Pending \<and>
      polls pt (Suc k) f = replicate k Pending @ [Ready r] \<longrightarrow>
      polls (poll_until_poll pt pc) (Suc k) \<lparr>task = f, canceller = Some c\<rparr> =
        replicate k Pending @ [Ready (Some r)])"
  using poll_until_cancelled [of pc k c x pt f] poll_until_completed [of pc k c pt f r] by blast

definition countdown :: "nat \<Rightarrow> nat poll \<times> nat" where
  "countdown n = (if n = 0 then (Ready 7, 0) else (Pending, n - 1))"

lemma poll_until_first_wins_witness:
  "polls (poll_until_poll countdown countdown) 2 \<lparr>task = 1, canceller = Some 1\<rparr> = [Pending, Ready None] \<and>
   polls (poll_until_poll countdown countdown) 2 \<lparr>task = 1, canceller = Some 2\<rparr> = [Pending, Ready (Some 7)]"
  using poll_until_first_wins [of countdown 1 1 7 countdown 1]
    poll_until_first_wins [of countdown 1 2 _ countdown 1 7]
  by (simp add: countdown_def eval_nat_numeral)

section \<open>Delayed values\<close>

record ('z, 'v) delayed_value =
  dv_fulfilled :: bool
  sleep_future :: 'z
  dv_value :: "'v option"

definition delayed_value_poll ::
  "('z, unit) poll_fn \<Rightarrow> (('z, 'v) delayed_value, 'v) poll_fn" where
  "delayed_value_poll poll_sleep s =
    (if dv_fulfilled s then (Pending, s)
     else case poll_sleep (sleep_future s) of
         (Pending, z) \<Rightarrow> (Pending, s\<lparr>sleep_future := z\<rparr>)
       | (Ready _, z) \<Rightarrow>
           (case dv_value s of
              None \<Rightarrow> (Pending, s\<lparr>sleep_future := z\<rparr>)
            | Some v \<Rightarrow> (Ready v, \<lparr>dv_fulfilled = True, sleep_future = z, dv_value = None\<rparr>)))"

record ('d, 'f, 'z, 'v) delayed =
  fulfilled :: bool
  duration :: 'd
  delayed_inner :: "'f + ('z, 'v) delayed_value"

definition delayed_poll_right ::
  "('z, unit) poll_fn \<Rightarrow> ('d, 'f, 'z, 'v) delayed \<Rightarrow> ('z, 'v) delayed_value \<Rightarrow>
   'v poll \<times> ('d, 'f, 'z, 'v) delayed" where
  "delayed_poll_right poll_sleep s x =
    (case delayed_value_poll poll_sleep x of
       (Pending, x') \<Rightarrow> (Pending, s\<lparr>delayed_inner := Inr x'\<rparr>)
     | (Ready res, x') \<Rightarrow> (Ready res, s\<lparr>delayed_inner := Inr x', fulfilled := True\<rparr>))"

definition delayed_poll ::
  "('d \<Rightarrow> 'z) \<Rightarrow> ('z, unit) poll_fn \<Rightarrow> ('f, 'v) poll_fn \<Rightarrow> (('d, 'f, 'z, 'v) delayed, 'v) poll_fn" where
  "delayed_poll sleep poll_sleep poll_inner s =
    (if fulfilled s then (Pending, s)
     else case delayed_inner s of
         Inl x \<Rightarrow>
           (case poll_inner x of
              (Pending, x') \<Rightarrow> (Pending, s\<lparr>delayed_inner := Inl x'\<rparr>)
            | (Ready res, x') \<Rightarrow>
                (let v = \<lparr>dv_fulfilled = False, sleep_future = sleep (duration s), dv_value = Some res\<rparr>
                 in delayed_poll_right poll_sleep (s\<lparr>delayed_inner := Inr v\<rparr>) v))
       | Inr x \<Rightarrow> delayed_poll_right poll_sleep s x)"

definition try_delayed_poll_right ::
  "('z, unit) poll_fn \<Rightarrow> ('d, 'f, 'z, 'v) delayed \<Rightarrow> ('z, 'v) delayed_value \<Rightarrow>
   ('e, 'v) result poll \<times> ('d, 'f, 'z, 'v) delayed" where
  "try_delayed_poll_right poll_sleep s x =
    (case delayed_value_poll poll_sleep x of
       (Pending, x') \<Rightarrow> (Pending, s\<lparr>delayed_inner := Inr x'\<rparr>)
     | (Ready res, x') \<Rightarrow> (Ready (Ok res), s\<lparr>delayed_inner := Inr x', fulfilled := True\<rparr>))"

definition try_delayed_poll ::
  "('d \<Rightarrow> 'z) \<Rightarrow> ('z, unit) poll_fn \<Rightarrow> ('f, ('e, 'v) result) poll_fn \<Rightarrow>
   (('d, 'f, 'z, 'v) delayed, ('e, 'v) result) poll_fn" where
  "try_delayed_poll sleep poll_sleep poll_inner s =
    (if fulfilled s then (Pending, s)
     else case delayed_inner s of
         Inl x \<Rightarrow>
           (case poll_inner x of
              (Pending, x') \<Rightarrow> (Pending, s\<lparr>delayed_inner := Inl x'\<rparr>)
            | (Ready (Inl e), x') \<Rightarrow> (Ready (Err e), s\<lparr>delayed_inner := Inl x'\<rparr>)
            | (Ready (Inr res), x') \<Rightarrow>
                (let v = \<lparr>dv_fulfilled = False, sleep_future = sleep (duration s), dv_value = Some res\<rparr>
                 in try_delayed_poll_right poll_sleep (s\<lparr>delayed_inner := Inr v\<rparr>) v))
       | Inr x \<Rightarrow> try_delayed_poll_right poll_sleep s x)"

lemmas delayed_defs = delayed_value_poll_def delayed_poll_right_def delayed_poll_def
  try_delayed_poll_right_def try_delayed_poll_def Let_def

interpretation delayed_value: fused_future "\<lambda>_. True" "delayed_value_poll ps" dv_fulfilled
  for ps :: "('z, unit) poll_fn"
  by unfold_locales (auto simp: delayed_defs split: option.splits prod.splits poll.splits if_splits)

interpretation delayed: fused_future "\<lambda>_. True" "delayed_poll sl ps pf" fulfilled
  for sl :: "'d \<Rightarrow> 'z" and ps :: "('z, unit) poll_fn" and pf :: "('f, 'v) poll_fn"
  by unfold_locales
    (auto simp: delayed_defs split: option.splits prod.splits poll.splits if_splits sum.splits)

lemma delayed_right_polls:
  "polls ps (Suc m) z = replicate m Pending @ [Ready ()] \<Longrightarrow>
    polls (delayed_poll sl ps pf) (Suc m)
      \<lparr>fulfilled = False, duration = d,
       delayed_inner = Inr \<lparr>dv_fulfilled = False, sleep_future = z, dv_value = Some v\<rparr>\<rparr>
    = replicate m Pending @ [Ready v]"
proof (induction m arbitrary: z)
  case (Suc m)
  then show ?case
    by (auto simp: polls_Suc_Cons delayed_defs simp del: polls.simps(2))
qed (auto simp: polls_Suc_Cons delayed_defs simp del: polls.simps(2))

lemma delayed_poll_start:
  "pf f = (Ready v, f') \<Longrightarrow>
    delayed_poll sl ps pf \<lparr>fulfilled = False, duration = d, delayed_inner = Inl f\<rparr> =
    delayed_poll sl ps pf \<lparr>fulfilled = False, duration = d,
      delayed_inner = Inr \<lparr>dv_fulfilled = False, sleep_future = sl d, dv_value = Some v\<rparr>\<rparr>"
  by (simp add: delayed_poll_def Let_def)

text \<open>
  \<open>Delayed\<close> delivers the inner future's value and delivers it once the delay that starts
  at its completion is over: with the inner future ready at poll \<open>k + 1\<close> and the sleep ready at
  its own poll \<open>m + 1\<close>, the first poll of the sleep being the one in which the inner future
  completes, the value arrives at poll \<open>k + m + 1\<close>.
\<close>

lemma delayed_delivers:
  assumes "polls pf (Suc k) f = replicate k Pending @ [Ready v]"
    and "polls ps (Suc m) (sl d) = replicate m Pending @ [Ready ()]"
  shows "polls (delayed_poll sl ps pf) (Suc (k + m))
      \<lparr>fulfilled = False, duration = d, delayed_inner = Inl f\<rparr>
    = replicate (k + m) Pending @ [Ready v]"
  using assms(1)
proof (induction k arbitrary: f)
  case 0
  then obtain f' where "pf f = (Ready v, f')"
    by (auto simp: polls_Suc_Cons simp del: polls.simps(2))
  then show ?case
    using delayed_right_polls [OF assms(2), of sl pf d v] delayed_poll_start [of pf f v f' sl ps d]
    by simp
next
  case (Suc k)
  then show ?case
    by (auto simp: polls_Suc_Cons delayed_poll_def simp del: polls.simps(2))
qed

definition sleeper :: "nat \<Rightarrow> unit poll \<times> nat" where
  "sleeper n = (if n = 0 then (Ready (), 0) else (Pending, n - 1))"

lemma delayed_delivers_witness:
  "polls (delayed_poll (\<lambda>d. d) sleeper countdown) 4
     \<lparr>fulfilled = False, duration = 2, delayed_inner = Inl 1\<rparr> = [Pending, Pending, Pending, Ready 7]"
  using delayed_delivers [of countdown 1 1 7 sleeper 2 "\<lambda>d. d" 2]
  by (simp add: countdown_def sleeper_def eval_nat_numeral)

text \<open>
  \<open>TryDelayed\<close> is not the fused future it is declared to be: when the inner future fails it
  returns the error but keeps the finished inner future and stays unterminated, so it asks to be
  polled again and polls the finished future again.
\<close>

lemma try_delayed_error_not_terminated:
  assumes "pf x = (Ready (Err e), x')" "\<not> fulfilled s" "delayed_inner s = Inl x"
  shows "\<exists>s'. try_delayed_poll sl ps pf s = (Ready (Err e), s') \<and> \<not> fulfilled s'
    \<and> delayed_inner s' = Inl x'"
  using assms by (simp add: try_delayed_poll_def)

lemma try_delayed_error_not_terminated_witness:
  "polls (try_delayed_poll (\<lambda>d :: nat. d) sleeper (\<lambda>x. (Ready (Err x), x + 1))) 2
     \<lparr>fulfilled = False, duration = 2, delayed_inner = Inl (5 :: nat)\<rparr>
   = ([Ready (Err 5), Ready (Err 6)] :: (nat, bool) result poll list)"
proof -
  have "\<exists>s'. try_delayed_poll (\<lambda>d :: nat. d) sleeper (\<lambda>x. (Ready (Err x), x + 1))
      \<lparr>fulfilled = False, duration = 2, delayed_inner = Inl (5 :: nat)\<rparr>
      = (Ready (Err 5 :: (nat, bool) result), s') \<and> \<not> fulfilled s' \<and> delayed_inner s' = Inl 6"
    using try_delayed_error_not_terminated [of "\<lambda>x. (Ready (Err x), x + 1)" 5 5 6
        "\<lparr>fulfilled = False, duration = 2, delayed_inner = Inl (5 :: nat)\<rparr>"] by simp
  then show ?thesis
    by (auto simp: eval_nat_numeral try_delayed_poll_def)
qed

section \<open>Tracked futures\<close>

datatype tracking_state = NotStarted | Registering | Running | Completed

record ('f, 't, 'r) tracked =
  fut :: "'f option"
  tracker :: "'t option"
  registration :: "'r option option"
  tracking :: tracking_state

text \<open>The \<open>Fuse\<close> wrapper drops the inner future when it completes and is pending from then on.\<close>

fun fuse_poll :: "('f, 'o) poll_fn \<Rightarrow> ('f option, 'o) poll_fn" where
  "fuse_poll p None = (Pending, None)"
| "fuse_poll p (Some f) =
    (case p f of (Pending, f') \<Rightarrow> (Pending, Some f') | (Ready a, f') \<Rightarrow> (Ready a, None))"

definition tracked_new :: "'f \<Rightarrow> 't \<Rightarrow> ('f, 't, 'r) tracked" where
  "tracked_new f t =
    \<lparr>fut = Some f, tracker = Some t, registration = None, tracking = NotStarted\<rparr>"

fun state_rank :: "tracking_state \<Rightarrow> nat" where
  "state_rank NotStarted = 3"
| "state_rank Registering = 2"
| "state_rank Running = 1"
| "state_rank Completed = 0"

text \<open>The poll loop; \<open>None\<close> is the panic on a missing registration.\<close>

function tracked_poll ::
  "('t \<Rightarrow> 'r) \<Rightarrow> ('r, 't) poll_fn \<Rightarrow> ('f, 'o) poll_fn \<Rightarrow> ('f, 't, 'r) tracked \<Rightarrow>
   ('o poll \<times> ('f, 't, 'r) tracked) option" where
  "tracked_poll register poll_registration poll_fut s =
    (case tracking s of
       NotStarted \<Rightarrow>
         tracked_poll register poll_registration poll_fut
           (s\<lparr>registration := map_option (\<lambda>t. Some (register t)) (tracker s), tracker := None,
              tracking := Registering\<rparr>)
     | Registering \<Rightarrow>
         (case registration s of
            None \<Rightarrow> None
          | Some r \<Rightarrow>
              (case fuse_poll poll_registration r of
                 (Pending, r') \<Rightarrow> Some (Pending, s\<lparr>registration := Some r'\<rparr>)
               | (Ready t, r') \<Rightarrow>
                   tracked_poll register poll_registration poll_fut
                     (s\<lparr>registration := Some r', tracker := Some t, tracking := Running\<rparr>)))
     | Running \<Rightarrow>
         (case fuse_poll poll_fut (fut s) of
            (Pending, f') \<Rightarrow> Some (Pending, s\<lparr>fut := f'\<rparr>)
          | (Ready res, f') \<Rightarrow>
              Some (Ready res, s\<lparr>fut := f', tracking := Completed, tracker := None\<rparr>))
     | Completed \<Rightarrow> Some (Pending, s))"
  by pat_completeness auto
termination
  by (relation "measure (\<lambda>(_, _, _, s). state_rank (tracking s))") auto

declare tracked_poll.simps [simp del]

definition tracked_is_terminated :: "('f, 't, 'r) tracked \<Rightarrow> bool" where
  "tracked_is_terminated s \<longleftrightarrow> tracking s = Completed \<or> fut s = None"

definition tracked_inv :: "('f, 't, 'r) tracked \<Rightarrow> bool" where
  "tracked_inv s \<longleftrightarrow>
    (case tracking s of
       NotStarted \<Rightarrow> tracker s \<noteq> None \<and> fut s \<noteq> None
     | Registering \<Rightarrow> tracker s = None \<and> (\<exists>r. registration s = Some (Some r)) \<and> fut s \<noteq> None
     | Running \<Rightarrow> tracker s \<noteq> None \<and> fut s \<noteq> None
     | Completed \<Rightarrow> tracker s = None \<and> fut s = None)"

lemma tracked_new_inv: "tracked_inv (tracked_new f t)"
  by (simp add: tracked_new_def tracked_inv_def)

lemma tracked_poll_inv:
  "tracked_inv s \<Longrightarrow> \<exists>r s'. tracked_poll rg pr pf s = Some (r, s') \<and> tracked_inv s' \<and>
     tracking s' \<noteq> NotStarted \<and> (tracking s' = Completed \<longleftrightarrow> tracking s = Completed \<or> r \<noteq> Pending)"
proof (induction rg pr pf s rule: tracked_poll.induct)
  case (1 rg pr pf s)
  show ?case
  proof (cases "tracking s")
    case NotStarted
    then show ?thesis
      using 1 by (subst tracked_poll.simps) (auto simp: tracked_inv_def)
  next
    case Registering
    then obtain r where r: "registration s = Some (Some r)" using 1 by (auto simp: tracked_inv_def)
    then show ?thesis
    proof (cases "pr r")
      case (Pair p r')
      then show ?thesis
        using 1 r Registering
        by (subst tracked_poll.simps, cases p) (auto simp: tracked_inv_def)
    qed
  next
    case Running
    then show ?thesis
      using 1 by (subst tracked_poll.simps)
        (auto simp: tracked_inv_def split: prod.splits poll.splits)
  next
    case Completed
    then show ?thesis
      using 1 by (subst tracked_poll.simps) (auto simp: tracked_inv_def)
  qed
qed

interpretation tracked: fused_future tracked_inv "\<lambda>s. the (tracked_poll rg pr pf s)"
    tracked_is_terminated
  for rg :: "'t \<Rightarrow> 'r" and pr :: "('r, 't) poll_fn" and pf :: "('f, 'o) poll_fn"
proof
  fix s s' :: "('f, 't, 'r) tracked" and r :: "'o poll" and a
  assume inv: "tracked_inv s"
  note p = tracked_poll_inv [OF inv, of rg pr pf]
  show "tracked_inv s'" if "the (tracked_poll rg pr pf s) = (r, s')"
    using that p by auto
  show "tracked_is_terminated s'" if "the (tracked_poll rg pr pf s) = (Ready a, s')"
    using that p by (auto simp: tracked_is_terminated_def)
  show "\<exists>s'. the (tracked_poll rg pr pf s) = (Pending, s') \<and> tracked_is_terminated s'"
    if "tracked_is_terminated s"
  proof -
    have "tracking s = Completed"
      using that inv by (cases "tracking s") (auto simp: tracked_is_terminated_def tracked_inv_def)
    then show ?thesis
      by (subst tracked_poll.simps) (simp add: tracked_is_terminated_def)
  qed
qed

text \<open>
  C12: a tracked future never reaches the panic of its registering state, holds its tracker
  exactly from registration to completion once it was polled, and finishes at most once.
\<close>

theorem tracked_lifecycle:
  assumes "tracked_inv s"
  shows "\<exists>r s'. tracked_poll rg pr pf s = Some (r, s') \<and> tracked_inv s' \<and>
      (tracker s' \<noteq> None \<longleftrightarrow> tracking s' = Running) \<and>
      length (outputs (polls (\<lambda>s. the (tracked_poll rg pr pf s)) n s)) \<le> 1"
proof -
  obtain r s' where r: "tracked_poll rg pr pf s = Some (r, s')" "tracked_inv s'" "tracking s' \<noteq> NotStarted"
    using tracked_poll_inv [OF assms, of rg pr pf] by blast
  then have "tracker s' \<noteq> None \<longleftrightarrow> tracking s' = Running"
    by (cases "tracking s'") (auto simp: tracked_inv_def)
  then show ?thesis
    using r tracked.at_most_one_output [OF assms, of rg pr pf n] by blast
qed

theorem tracked_lifecycle_witness:
  "\<exists>r s'. tracked_poll (\<lambda>t. 0) (\<lambda>n. (Ready True, n)) countdown (tracked_new 1 True :: (nat, bool, nat) tracked)
      = Some (r, s') \<and> tracked_inv s'"
  using tracked_lifecycle [OF tracked_new_inv, of "\<lambda>t. 0" "\<lambda>n. (Ready True, n)" countdown 1 True]
  by blast

section \<open>Counting concurrent tasks\<close>

text \<open>
  The counter of \<open>ext/stream.rs\<close>: \<open>strong_count\<close> is the reference count of the inner
  \<open>Arc\<close>, one of which is the holder's own (\<open>BASELINE_COUNT\<close>), \<open>watch\<close> the value last
  sent to the watch channel. Dropping a \<open>BoundCounter\<close> runs \<open>dropkick\<close> once.
\<close>

definition BASELINE_COUNT :: nat where
  "BASELINE_COUNT = 1"

record counter_world =
  strong_count :: nat
  watch :: nat

definition update_current_count :: "counter_world \<Rightarrow> counter_world" where
  "update_current_count w = w\<lparr>watch := strong_count w - BASELINE_COUNT\<rparr>"

definition bound_counter_new :: "counter_world \<Rightarrow> counter_world" where
  "bound_counter_new w = update_current_count (w\<lparr>strong_count := strong_count w + 1\<rparr>)"

definition bound_counter_dropkick :: "counter_world \<Rightarrow> counter_world" where
  "bound_counter_dropkick w = update_current_count (w\<lparr>strong_count := strong_count w - 1\<rparr>)"

datatype bound_counter_tracker = Unregistered | Registered

definition register_sync ::
  "bound_counter_tracker \<Rightarrow> counter_world \<Rightarrow> bound_counter_tracker \<times> counter_world" where
  "register_sync t w = (case t of
     Registered \<Rightarrow> (Registered, w)
   | Unregistered \<Rightarrow> (Registered, bound_counter_new w))"

definition tracker_new_preregistered ::
  "counter_world \<Rightarrow> bound_counter_tracker \<times> counter_world" where
  "tracker_new_preregistered w = register_sync Unregistered w"

definition tracker_drop :: "bound_counter_tracker \<Rightarrow> counter_world \<Rightarrow> counter_world" where
  "tracker_drop t w = (case t of Registered \<Rightarrow> bound_counter_dropkick w | Unregistered \<Rightarrow> w)"

text \<open>
  A monitored loop: it starts tasks, each with a pre-registered tracker, which is registered a
  second time at the task's first poll, and tasks end or are dropped. The underlying
  \<open>try_for_each_concurrent\<close> takes the next item only while fewer tasks than its limit are
  outstanding; no limit and the limit 0 let it take any number.
\<close>

definition below_limit :: "nat option \<Rightarrow> nat \<Rightarrow> bool" where
  "below_limit limit n = (case limit of None \<Rightarrow> True | Some l \<Rightarrow> l = 0 \<or> n < l)"

inductive monitor_step ::
  "nat option \<Rightarrow> bound_counter_tracker list \<times> counter_world \<Rightarrow>
   bound_counter_tracker list \<times> counter_world \<Rightarrow> bool" for limit where
  start_task: "below_limit limit (length ts) \<Longrightarrow> tracker_new_preregistered w = (t, w') \<Longrightarrow>
    monitor_step limit (ts, w) (t # ts, w')"
| poll_task: "register_sync t w = (t', w') \<Longrightarrow>
    monitor_step limit (xs @ t # ys, w) (xs @ t' # ys, w')"
| end_task: "monitor_step limit (xs @ t # ys, w) (xs @ ys, tracker_drop t w)"

definition monitor_new :: "bound_counter_tracker list \<times> counter_world" where
  "monitor_new = ([], \<lparr>strong_count = BASELINE_COUNT, watch = 0\<rparr>)"

lemma monitor_inv:
  "(monitor_step limit)\<^sup>*\<^sup>* monitor_new (ts, w) \<Longrightarrow>
     set ts \<subseteq> {Registered} \<and> strong_count w = length ts + 1 \<and> watch w = length ts \<and>
     (\<forall>l. limit = Some l \<and> 0 < l \<longrightarrow> length ts \<le> l)"
proof (induction "(ts, w)" arbitrary: ts w rule: rtranclp_induct)
  case base
  then show ?case by (auto simp: monitor_new_def BASELINE_COUNT_def)
next
  case (step c)
  obtain us v where c: "c = (us, v)" by fastforce
  have "set us \<subseteq> {Registered} \<and> strong_count v = length us + 1 \<and> watch v = length us \<and>
      (\<forall>l. limit = Some l \<and> 0 < l \<longrightarrow> length us \<le> l)"
    using step.hyps(3) c by blast
  with step.hyps(2) show ?case
    unfolding c by cases
      (auto simp: tracker_new_preregistered_def register_sync_def bound_counter_new_def below_limit_def
        tracker_drop_def bound_counter_dropkick_def update_current_count_def BASELINE_COUNT_def)
qed

text \<open>
  The number published by \<open>try_for_each_concurrent_monitored\<close> is the number of
  outstanding tasks after every start, first poll (which registers a second time) and end or drop
  of a task, and it never exceeds the limit.
\<close>

lemma monitored_count:
  assumes "(monitor_step limit)\<^sup>*\<^sup>* monitor_new (ts, w)"
  shows "watch w = length ts" "limit = Some l \<Longrightarrow> 0 < l \<Longrightarrow> watch w \<le> l"
  using monitor_inv [OF assms] by simp_all

lemma monitored_count_sample:
  "(monitor_step (Some 1))\<^sup>*\<^sup>* monitor_new ([Registered], \<lparr>strong_count = 2, watch = 1\<rparr>)"
  unfolding monitor_new_def
  by (intro r_into_rtranclp monitor_step.start_task) (simp_all add: tracker_new_preregistered_def register_sync_def
      bound_counter_new_def update_current_count_def BASELINE_COUNT_def below_limit_def)

end
