(* ===== verification/Tunnel_Id.thy ===== *)
theory Tunnel_Id
  imports Prelude
begin

text \<open>
  Tunnel ids (\<open>common/protocol/tunnel/id.rs\<close>) and the stream combinators that end for good:
  the atomic id generator, the streams that construct tunnels from incoming connections, and
  \<open>TryFuseStream\<close> (\<open>ext/try_stream/try_fuse_stream.rs\<close>). A stream is a state with a
  \<open>poll_next\<close> function; the contract of a fused stream is a locale.
\<close>

section \<open>The contract of a fused stream\<close>

type_synonym ('s, 'i) poll_next_fn = "'s \<Rightarrow> 'i option poll \<times> 's"

primrec poll_nexts :: "('s, 'i) poll_next_fn \<Rightarrow> nat \<Rightarrow> 's \<Rightarrow> 'i option poll list \<times> 's" where
  "poll_nexts p 0 s = ([], s)"
| "poll_nexts p (Suc n) s =
    (case p s of (r, s') \<Rightarrow> case poll_nexts p n s' of (rs, s'') \<Rightarrow> (r # rs, s''))"

fun items :: "'i option poll list \<Rightarrow> 'i list" where
  "items [] = []"
| "items (Ready (Some i) # rs) = i # items rs"
| "items (_ # rs) = items rs"

locale fused_stream =
  fixes poll_next :: "('s, 'i) poll_next_fn" and is_terminated :: "'s \<Rightarrow> bool"
  assumes end_terminates: "poll_next s = (Ready None, s') \<Longrightarrow> is_terminated s'"
    and terminated_ended: "is_terminated s \<Longrightarrow> poll_next s = (Ready None, s)"
begin

lemma terminated_stays:
  "is_terminated s \<Longrightarrow> poll_nexts poll_next n s = (replicate n (Ready None), s)"
  by (induction n) (simp_all add: terminated_ended)

lemma no_item_after_end: "poll_next s = (Ready None, s') \<Longrightarrow> items (fst (poll_nexts poll_next n s')) = []"
proof -
  assume "poll_next s = (Ready None, s')"
  moreover have "items (replicate n (Ready None)) = []" by (induction n) simp_all
  ultimately show ?thesis by (simp add: terminated_stays end_terminates)
qed

end

locale fused_try_stream = fused_stream poll_next is_terminated
  for poll_next :: "('s, ('e, 't) result) poll_next_fn" and is_terminated :: "'s \<Rightarrow> bool" +
  assumes error_terminates: "poll_next s = (Ready (Some (Inl e)), s') \<Longrightarrow> is_terminated s'"
begin

lemma errors_only_last:
  "items (fst (poll_nexts poll_next n s)) = xs @ Inl e # ys \<Longrightarrow> ys = []"
proof (induction n arbitrary: s xs)
  case (Suc n)
  obtain r s' where r: "poll_next s = (r, s')" by fastforce
  obtain rs s'' where rs: "poll_nexts poll_next n s' = (rs, s'')" by fastforce
  have i: "items (r # rs) = xs @ Inl e # ys" using Suc.prems r rs by simp
  have nil: "items (replicate n (Ready None)) = []" by (induction n) simp_all
  show ?case
  proof (cases r)
    case Pending
    then show ?thesis using i Suc.IH [of s' xs] rs by simp
  next
    case (Ready q)
    then show ?thesis
    proof (cases q)
      case None
      then show ?thesis using i Ready Suc.IH [of s' xs] rs by simp
    next
      case (Some a)
      show ?thesis
      proof (cases a)
        case (Inl d)
        then have "rs = replicate n (Ready None)"
          using r Ready Some rs error_terminates [of s d s'] terminated_stays [of s' n] by simp
        then show ?thesis using i Ready Some Inl nil by (cases xs) auto
      next
        case (Inr b)
        then show ?thesis using i Ready Some Suc.IH [of s' "tl xs"] rs by (cases xs) auto
      qed
    qed
  qed
qed simp

end

section \<open>Generating ids\<close>

type_synonym tunnel_id = "64 word"

definition generator_new :: "64 word \<Rightarrow> 64 word" where
  "generator_new next = next"

definition generator_next :: "64 word \<Rightarrow> tunnel_id \<times> 64 word" where
  "generator_next g = (g, g + 1)"

primrec generate :: "nat \<Rightarrow> 64 word \<Rightarrow> tunnel_id list" where
  "generate 0 g = []"
| "generate (Suc n) g = (case generator_next g of (i, g') \<Rightarrow> i # generate n g')"

lemma generate_eq: "generate n g = map (\<lambda>k. g + of_nat k) [0..<n]"
proof (induction n arbitrary: g)
  case (Suc n)
  have "map (\<lambda>k. g + of_nat k) [0..<Suc n] = g # map (\<lambda>k. g + 1 + of_nat k) [0..<n]"
    by (simp add: upt_conv_Cons map_Suc_upt [symmetric] algebra_simps del: upt_Suc)
  then show ?case
    using Suc by (simp add: generator_next_def)
qed simp

text \<open>
  Any run of calls to \<open>MonotonicAtomicGenerator::next\<close> yields pairwise different ids
  exactly as long as there are at most \<open>2 ^ 64\<close> of them; \<open>fetch_add\<close> wraps around after that.
\<close>

lemma generated_ids_distinct: "distinct (generate n g) \<longleftrightarrow> n \<le> 2 ^ 64"
proof
  assume d: "distinct (generate n g)"
  then have "n = card (set (generate n g))"
    using distinct_card [OF d] by (simp only: generate_eq length_map length_upt)
  also have "\<dots> \<le> card (UNIV :: 64 word set)"
    by (intro card_mono) auto
  finally show "n \<le> 2 ^ 64" by (simp add: card_word)
next
  assume n: "n \<le> 2 ^ 64"
  have "inj_on (\<lambda>k. g + of_nat k) {0..<n}"
  proof (rule inj_onI)
    fix i j
    assume "i \<in> {0..<n}" "j \<in> {0..<n}" "g + of_nat i = g + (of_nat j :: 64 word)"
    then have "unat (of_nat i :: 64 word) = unat (of_nat j :: 64 word)" "i < 2 ^ 64" "j < 2 ^ 64"
      using n by auto
    then show "i = j" by (simp add: unat_of_nat)
  qed
  then show "distinct (generate n g)"
    by (simp add: generate_eq distinct_map)
qed

section \<open>Constructing tunnels from a stream of connections\<close>

datatype ('s, 'g) constructed_tunnel_stream = Active 's 'g | Ended

definition constructed_poll_next ::
  "('i \<Rightarrow> tunnel_id \<Rightarrow> 't) \<Rightarrow> ('g \<Rightarrow> tunnel_id \<times> 'g) \<Rightarrow> ('s, 'i) poll_next_fn \<Rightarrow>
   (('s, 'g) constructed_tunnel_stream, 't) poll_next_fn" where
  "constructed_poll_next into_tunnel next poll_source st =
    (case st of
       Active source generator \<Rightarrow>
         (case poll_source source of
            (Ready None, s') \<Rightarrow> (Ready None, Ended)
          | (Ready (Some item), s') \<Rightarrow>
              (case next generator of (i, g') \<Rightarrow> (Ready (Some (into_tunnel item i)), Active s' g'))
          | (Pending, s') \<Rightarrow> (Pending, Active s' generator))
     | Ended \<Rightarrow> (Ready None, Ended))"

fun constructed_is_terminated :: "('s, 'g) constructed_tunnel_stream \<Rightarrow> bool" where
  "constructed_is_terminated (Active s g) = False"
| "constructed_is_terminated Ended = True"

datatype ('s, 'g) constructed_tunnel_try_stream = Active 's 'g | Ended bool

definition try_constructed_poll_next ::
  "('i \<Rightarrow> tunnel_id \<Rightarrow> 't) \<Rightarrow> ('g \<Rightarrow> tunnel_id \<times> 'g) \<Rightarrow> ('s, ('e, 'i) result) poll_next_fn \<Rightarrow>
   (('s, 'g) constructed_tunnel_try_stream, ('e, 't) result) poll_next_fn" where
  "try_constructed_poll_next into_tunnel next poll_source st =
    (case st of
       constructed_tunnel_try_stream.Active source generator \<Rightarrow>
         (case poll_source source of
            (Ready None, s') \<Rightarrow> (Ready None, constructed_tunnel_try_stream.Ended False)
          | (Ready (Some (Inl e)), s') \<Rightarrow>
              (Ready (Some (Err e)), constructed_tunnel_try_stream.Ended True)
          | (Ready (Some (Inr item)), s') \<Rightarrow>
              (case next generator of (i, g') \<Rightarrow>
                (Ready (Some (Ok (into_tunnel item i))), constructed_tunnel_try_stream.Active s' g'))
          | (Pending, s') \<Rightarrow> (Pending, constructed_tunnel_try_stream.Active s' generator))
     | constructed_tunnel_try_stream.Ended failed \<Rightarrow>
         (Ready None, constructed_tunnel_try_stream.Ended failed))"

fun try_constructed_is_terminated :: "('s, 'g) constructed_tunnel_try_stream \<Rightarrow> bool" where
  "try_constructed_is_terminated (constructed_tunnel_try_stream.Active s g) = False"
| "try_constructed_is_terminated (constructed_tunnel_try_stream.Ended failed) = True"

definition construct_tunnels :: "'g \<Rightarrow> 's \<Rightarrow> ('s, 'g) constructed_tunnel_stream" where
  "construct_tunnels generator source = constructed_tunnel_stream.Active source generator"

definition try_construct_tunnels :: "'g \<Rightarrow> 's \<Rightarrow> ('s, 'g) constructed_tunnel_try_stream" where
  "try_construct_tunnels generator source = constructed_tunnel_try_stream.Active source generator"

section \<open>TryFuseStream\<close>

datatype 's try_fuse_stream = Active 's | Ended bool

definition try_fuse_new :: "'s \<Rightarrow> 's try_fuse_stream" where
  "try_fuse_new source = try_fuse_stream.Active source"

definition try_fuse_poll_next ::
  "('s, ('e, 'i) result) poll_next_fn \<Rightarrow> ('s try_fuse_stream, ('e, 'i) result) poll_next_fn" where
  "try_fuse_poll_next poll_source st =
    (case st of
       try_fuse_stream.Active source \<Rightarrow>
         (case poll_source source of
            (Ready None, s') \<Rightarrow> (Ready None, try_fuse_stream.Ended False)
          | (Ready (Some (Inl e)), s') \<Rightarrow> (Ready (Some (Err e)), try_fuse_stream.Ended True)
          | (Ready (Some (Inr item)), s') \<Rightarrow> (Ready (Some (Ok item)), try_fuse_stream.Active s')
          | (Pending, s') \<Rightarrow> (Pending, try_fuse_stream.Active s'))
     | try_fuse_stream.Ended failed \<Rightarrow> (Ready None, try_fuse_stream.Ended failed))"

fun try_fuse_is_terminated :: "'s try_fuse_stream \<Rightarrow> bool" where
  "try_fuse_is_terminated (try_fuse_stream.Active s) = False"
| "try_fuse_is_terminated (try_fuse_stream.Ended failed) = True"

lemmas stream_splits = option.splits prod.splits poll.splits sum.splits
  constructed_tunnel_stream.splits constructed_tunnel_try_stream.splits try_fuse_stream.splits

interpretation constructed: fused_stream "constructed_poll_next it nx ps" constructed_is_terminated
  for it :: "'i \<Rightarrow> tunnel_id \<Rightarrow> 't" and nx :: "'g \<Rightarrow> tunnel_id \<times> 'g" and ps :: "('s, 'i) poll_next_fn"
proof
  show "constructed_is_terminated s'" if "constructed_poll_next it nx ps s = (Ready None, s')" for s s'
    using that by (auto simp: constructed_poll_next_def split: stream_splits)
  show "constructed_poll_next it nx ps s = (Ready None, s)" if "constructed_is_terminated s" for s
    using that by (cases s) (auto simp: constructed_poll_next_def)
qed

interpretation try_constructed:
  fused_try_stream "try_constructed_poll_next it nx ps" try_constructed_is_terminated
  for it :: "'i \<Rightarrow> tunnel_id \<Rightarrow> 't" and nx :: "'g \<Rightarrow> tunnel_id \<times> 'g"
    and ps :: "('s, ('e, 'i) result) poll_next_fn"
proof
  show "try_constructed_is_terminated s'"
    if "try_constructed_poll_next it nx ps s = (Ready None, s')" for s s'
    using that by (auto simp: try_constructed_poll_next_def split: stream_splits)
  show "try_constructed_is_terminated s'"
    if "try_constructed_poll_next it nx ps s = (Ready (Some (Inl e)), s')" for s s' e
    using that by (auto simp: try_constructed_poll_next_def split: stream_splits)
  show "try_constructed_poll_next it nx ps s = (Ready None, s)" if "try_constructed_is_terminated s" for s
    using that by (cases s) (auto simp: try_constructed_poll_next_def)
qed

interpretation try_fuse: fused_try_stream "try_fuse_poll_next ps" try_fuse_is_terminated
  for ps :: "('s, ('e, 'i) result) poll_next_fn"
proof
  show "try_fuse_is_terminated s'" if "try_fuse_poll_next ps s = (Ready None, s')" for s s'
    using that by (auto simp: try_fuse_poll_next_def split: stream_splits)
  show "try_fuse_is_terminated s'"
    if "try_fuse_poll_next ps s = (Ready (Some (Inl e)), s')" for s s' e
    using that by (auto simp: try_fuse_poll_next_def split: stream_splits)
  show "try_fuse_poll_next ps s = (Ready None, s)" if "try_fuse_is_terminated s" for s
    using that by (cases s) (auto simp: try_fuse_poll_next_def)
qed

section \<open>What the streams yield\<close>

definition before_end :: "'i option poll list \<Rightarrow> 'i list" where
  "before_end rs = items (takeWhile (\<lambda>r. r \<noteq> Ready None) rs)"

lemma before_end_simps [simp]:
  "before_end [] = []"
  "before_end (Pending # rs) = before_end rs"
  "before_end (Ready None # rs) = []"
  "before_end (Ready (Some i) # rs) = i # before_end rs"
  by (simp_all add: before_end_def)

fun until_error :: "('e, 'a) result list \<Rightarrow> ('e, 'a) result list" where
  "until_error [] = []"
| "until_error (Inl e # rs) = [Inl e]"
| "until_error (Inr a # rs) = Inr a # until_error rs"

lemma items_replicate_end [simp]: "items (replicate n (Ready None)) = []"
  by (induction n) simp_all

lemma fst_poll_nexts_Suc:
  "fst (poll_nexts p (Suc n) s) = fst (p s) # fst (poll_nexts p n (snd (p s)))"
  by (simp split: prod.splits)

lemma constructed_poll_Active:
  "constructed_poll_next it nx ps (constructed_tunnel_stream.Active src g) =
    (case ps src of
       (Ready None, s') \<Rightarrow> (Ready None, constructed_tunnel_stream.Ended)
     | (Ready (Some item), s') \<Rightarrow>
         (case nx g of (i, g') \<Rightarrow>
           (Ready (Some (it item i)), constructed_tunnel_stream.Active s' g'))
     | (Pending, s') \<Rightarrow> (Pending, constructed_tunnel_stream.Active s' g))"
  by (simp add: constructed_poll_next_def)

lemma try_fuse_poll_Active:
  "try_fuse_poll_next ps (try_fuse_stream.Active src) =
    (case ps src of
       (Ready None, s') \<Rightarrow> (Ready None, try_fuse_stream.Ended False)
     | (Ready (Some (Inl e)), s') \<Rightarrow> (Ready (Some (Err e)), try_fuse_stream.Ended True)
     | (Ready (Some (Inr item)), s') \<Rightarrow> (Ready (Some (Ok item)), try_fuse_stream.Active s')
     | (Pending, s') \<Rightarrow> (Pending, try_fuse_stream.Active s'))"
  by (simp add: try_fuse_poll_next_def)

lemma constructed_items:
  "n \<le> m \<Longrightarrow> items (fst (poll_nexts (constructed_poll_next it generator_next ps) n
      (constructed_tunnel_stream.Active src g))) =
    map2 it (before_end (fst (poll_nexts ps n src))) (generate m g)"
proof (induction n arbitrary: src g m)
  case (Suc n)
  obtain r s' where r: "ps src = (r, s')" by fastforce
  obtain m' where m: "m = Suc m'" using Suc.prems by (cases m) auto
  note ih = Suc.IH [of m s' g] Suc.IH [of m' s' "g + 1"]
  show ?case
  proof (cases r)
    case Pending
    then show ?thesis
      using ih(1) r Suc.prems
      by (simp add: fst_poll_nexts_Suc constructed_poll_Active del: poll_nexts.simps(2))
  next
    case (Ready q)
    then show ?thesis
      using ih(2) r Suc.prems m constructed.terminated_stays [of constructed_tunnel_stream.Ended it
          generator_next ps n]
      by (cases q) (simp_all add: fst_poll_nexts_Suc constructed_poll_Active generator_next_def [of g]
          del: poll_nexts.simps(2))
  qed
qed simp

text \<open>
  The stream of \<open>construct_tunnels\<close> yields one tunnel per connection of its source, in the
  source's order and up to the source's end, and numbers them with the consecutive ids of the
  generator; polls in between and after the end add nothing.
\<close>

lemma constructed_tunnels_in_order:
  "items (fst (poll_nexts (constructed_poll_next into_tunnel generator_next poll_source) n
      (construct_tunnels (generator_new g) source))) =
    map2 into_tunnel (before_end (fst (poll_nexts poll_source n source))) (generate n g)"
  by (simp add: construct_tunnels_def generator_new_def constructed_items)

text \<open>
  \<open>TryFuseStream\<close> forwards its source up to and including the first error or up to the
  end, whichever comes first, and yields nothing afterwards.
\<close>

lemma try_fuse_until_error:
  "items (fst (poll_nexts (try_fuse_poll_next poll_source) n (try_fuse_new source))) =
    until_error (before_end (fst (poll_nexts poll_source n source)))"
  unfolding try_fuse_new_def
proof (induction n arbitrary: source)
  case (Suc n)
  obtain r s' where r: "poll_source source = (r, s')" by fastforce
  show ?case
  proof (cases r)
    case Pending
    then show ?thesis
      using Suc [of s'] r
      by (simp add: fst_poll_nexts_Suc try_fuse_poll_Active del: poll_nexts.simps(2))
  next
    case (Ready q)
    then show ?thesis
      using Suc [of s'] r
      by (cases q) (auto simp: fst_poll_nexts_Suc try_fuse_poll_Active try_fuse.terminated_stays
          simp del: poll_nexts.simps(2) split: sum.splits)
  qed
qed simp

end
