(* ===== verification/Registry.thy ===== *)
theory Registry
  imports Rust_Strings
begin

text \<open>
  Tunnel registries (\<open>common/protocol/tunnel/registry\<close>): the contract of
  \<open>TunnelRegistry\<close> as a locale, and the in-memory, the mapped and the write-through cache
  registry as its providers. The \<open>DashMap\<close> of the in-memory registry is a parameter, a record
  of the operations the code calls with the laws of its documentation as a locale. Every
  registry operation also takes an environment value that decides how the run-time treats it
  (a blocking task that cannot be joined, the order in which joined futures complete).
\<close>

section \<open>Concurrent maps\<close>

record ('m, 'k, 'v) dashmap =
  dm_new :: 'm
  dm_get :: "'m \<Rightarrow> 'k \<Rightarrow> 'v option"
  dm_insert :: "'m \<Rightarrow> 'k \<Rightarrow> 'v \<Rightarrow> 'm"
  dm_remove :: "'m \<Rightarrow> 'k \<Rightarrow> ('k \<times> 'v) option \<times> 'm"
  dm_iter :: "'m \<Rightarrow> ('k \<times> 'v) list"

locale dashmap_laws =
  fixes D :: "('m, 'k, 'v) dashmap"
  assumes get_new: "dm_get D (dm_new D) = Map.empty"
    and get_insert: "dm_get D (dm_insert D m k v) = (dm_get D m)(k \<mapsto> v)"
    and removed: "fst (dm_remove D m k) = map_option (\<lambda>v. (k, v)) (dm_get D m k)"
    and get_remove: "dm_get D (snd (dm_remove D m k)) = (dm_get D m)(k := None)"
    and iter_entries: "set (dm_iter D m) = {(k, v). dm_get D m k = Some v}"
    and iter_distinct: "distinct (map fst (dm_iter D m))"

text \<open>An association list with unique keys is such a map.\<close>

definition alist_insert :: "('k \<times> 'v) list \<Rightarrow> 'k \<Rightarrow> 'v \<Rightarrow> ('k \<times> 'v) list" where
  "alist_insert m k v = (k, v) # filter (\<lambda>e. fst e \<noteq> k) m"

typedef ('k, 'v) assoc = "{m :: ('k \<times> 'v) list. distinct (map fst m)}"
  by (rule exI [of _ "[]"]) simp

setup_lifting type_definition_assoc

lift_definition assoc_new :: "('k, 'v) assoc" is "[]" by simp

lift_definition assoc_get :: "('k, 'v) assoc \<Rightarrow> 'k \<Rightarrow> 'v option" is map_of .

lift_definition assoc_insert :: "('k, 'v) assoc \<Rightarrow> 'k \<Rightarrow> 'v \<Rightarrow> ('k, 'v) assoc" is alist_insert
  by (auto simp: alist_insert_def intro: distinct_map_filter_fst)

lift_definition assoc_delete :: "('k, 'v) assoc \<Rightarrow> 'k \<Rightarrow> ('k, 'v) assoc" is
  "\<lambda>m k. filter (\<lambda>e. fst e \<noteq> k) m"
  by (rule distinct_map_filter_fst)

lift_definition assoc_entries :: "('k, 'v) assoc \<Rightarrow> ('k \<times> 'v) list" is "\<lambda>m. m" .

definition assoc_dashmap :: "(('k, 'v) assoc, 'k, 'v) dashmap" where
  "assoc_dashmap = \<lparr>dm_new = assoc_new, dm_get = assoc_get, dm_insert = assoc_insert,
     dm_remove = (\<lambda>m k. (map_option (\<lambda>v. (k, v)) (assoc_get m k), assoc_delete m k)),
     dm_iter = assoc_entries\<rparr>"

lemma map_of_filter_neq: "map_of (filter (\<lambda>e. fst e \<noteq> k) m) = (map_of m)(k := None)"
  by (induction m) (auto simp: fun_eq_iff)

lemma assoc_get_insert: "assoc_get (assoc_insert m k v) = (assoc_get m)(k \<mapsto> v)"
  by transfer (simp add: alist_insert_def map_of_filter_neq)

lemma assoc_get_delete: "assoc_get (assoc_delete m k) = (assoc_get m)(k := None)"
  by transfer (rule map_of_filter_neq)

interpretation assoc_map: dashmap_laws assoc_dashmap
proof
  show "dm_get assoc_dashmap (dm_new assoc_dashmap) = Map.empty"
    by (simp add: assoc_dashmap_def) (transfer, simp)
  show "set (dm_iter assoc_dashmap m) = {(k, v). dm_get assoc_dashmap m k = Some v}" for m
    by (simp add: assoc_dashmap_def) (transfer, auto)
  show "distinct (map fst (dm_iter assoc_dashmap m))" for m
    by (simp add: assoc_dashmap_def) (transfer, simp)
qed (simp_all add: assoc_dashmap_def assoc_get_insert assoc_get_delete)

section \<open>The contract of a tunnel registry\<close>

type_synonym tunnel_name = rstr

locale tunnel_registry =
  fixes view :: "'s \<Rightarrow> 'n \<Rightarrow> 'r option"
    and name_of :: "'i \<Rightarrow> 'n"
    and issued :: "'i \<Rightarrow> bool"
    and lookup :: "'v \<Rightarrow> 'n \<Rightarrow> 's \<Rightarrow> ('e, 'r option) result \<times> 's"
    and register :: "'v \<Rightarrow> 'n \<Rightarrow> 'r \<Rightarrow> 's \<Rightarrow> ('e, 'i) result \<times> 's"
    and deregister :: "'v \<Rightarrow> 'n \<Rightarrow> 's \<Rightarrow> ('e, 'r option) result \<times> 's"
    and deregister_identifier :: "'v \<Rightarrow> 'i \<Rightarrow> 's \<Rightarrow> ('e, 'r option) result \<times> 's"
  assumes lookup_view: "lookup v n s = (q, s') \<Longrightarrow> view s' = view s"
    and lookup_result: "lookup v n s = (Inr x, s') \<Longrightarrow> x = view s n"
    and register_result: "register v n r s = (Inr i, s') \<Longrightarrow>
      issued i \<and> name_of i = n \<and> view s' = (view s)(n \<mapsto> r)"
    and register_failed: "register v n r s = (Inl e, s') \<Longrightarrow>
      view s' = view s \<or> view s' = (view s)(n \<mapsto> r)"
    and deregister_result: "deregister v n s = (Inr x, s') \<Longrightarrow>
      x = view s n \<and> view s' = (view s)(n := None)"
    and deregister_failed: "deregister v n s = (Inl e, s') \<Longrightarrow> m \<noteq> n \<Longrightarrow> view s' m = view s m"
    and deregister_identifier_result: "issued i \<Longrightarrow> deregister_identifier v i s = (Inr x, s') \<Longrightarrow>
      x = view s (name_of i) \<and> view s' = (view s)(name_of i := None)"
    and deregister_identifier_failed: "issued i \<Longrightarrow> deregister_identifier v i s = (Inl e, s') \<Longrightarrow>
      m \<noteq> name_of i \<Longrightarrow> view s' m = view s m"
begin

lemma register_view:
  "register v n r s = (q, s') \<Longrightarrow> view s' = view s \<or> view s' = (view s)(n \<mapsto> r)"
  using register_result register_failed by (cases q) blast+

lemma deregister_other: "deregister v n s = (q, s') \<Longrightarrow> m \<noteq> n \<Longrightarrow> view s' m = view s m"
  using deregister_result [of v n s _ s'] deregister_failed [of v n s _ s' m] by (cases q) auto

lemma deregister_identifier_other:
  "issued i \<Longrightarrow> deregister_identifier v i s = (q, s') \<Longrightarrow> m \<noteq> name_of i \<Longrightarrow> view s' m = view s m"
  using deregister_identifier_result [of i v s _ s'] deregister_identifier_failed [of i v s _ s' m]
  by (cases q) auto

lemma lookup_after_register:
  assumes "register v n r s = (Inr i, s1)" "lookup w n s1 = (Inr x, s2)"
  shows "x = Some r"
  using register_result [OF assms(1)] lookup_result [OF assms(2)] by simp

lemma lookup_after_deregister:
  assumes "register v n r s = (Inr i, s1)" "deregister_identifier w i s1 = (Inr x, s2)"
    "lookup u n s2 = (Inr y, s3)"
  shows "x = Some r \<and> y = None"
  using register_result [OF assms(1)] deregister_identifier_result [OF _ assms(2)]
    lookup_result [OF assms(3)] by simp

end

text \<open>Sequences of operations, against the plain map they refine.\<close>

datatype ('n, 'r) registry_op = Lookup 'n | Register 'n 'r | Deregister 'n

datatype 'r registry_answer = Found "'r option" | Stored | Removed "'r option" | Failed

fun spec_run :: "('n, 'r) registry_op list \<Rightarrow> ('n \<Rightarrow> 'r option) \<Rightarrow> 'r registry_answer list" where
  "spec_run [] m = []"
| "spec_run (Lookup n # ops) m = Found (m n) # spec_run ops m"
| "spec_run (Register n r # ops) m = Stored # spec_run ops (m(n \<mapsto> r))"
| "spec_run (Deregister n # ops) m = Removed (m n) # spec_run ops (m(n := None))"

fun registry_run ::
  "('v \<Rightarrow> 'n \<Rightarrow> 's \<Rightarrow> ('e, 'r option) result \<times> 's) \<Rightarrow>
   ('v \<Rightarrow> 'n \<Rightarrow> 'r \<Rightarrow> 's \<Rightarrow> ('e, 'i) result \<times> 's) \<Rightarrow>
   ('v \<Rightarrow> 'n \<Rightarrow> 's \<Rightarrow> ('e, 'r option) result \<times> 's) \<Rightarrow>
   ('v \<times> ('n, 'r) registry_op) list \<Rightarrow> 's \<Rightarrow> 'r registry_answer list" where
  "registry_run lk rg dr [] s = []"
| "registry_run lk rg dr ((v, Lookup n) # ops) s =
    (case lk v n s of
       (Inl e, s') \<Rightarrow> Failed # registry_run lk rg dr ops s'
     | (Inr x, s') \<Rightarrow> Found x # registry_run lk rg dr ops s')"
| "registry_run lk rg dr ((v, Register n r) # ops) s =
    (case rg v n r s of
       (Inl e, s') \<Rightarrow> Failed # registry_run lk rg dr ops s'
     | (Inr x, s') \<Rightarrow> Stored # registry_run lk rg dr ops s')"
| "registry_run lk rg dr ((v, Deregister n) # ops) s =
    (case dr v n s of
       (Inl e, s') \<Rightarrow> Failed # registry_run lk rg dr ops s'
     | (Inr x, s') \<Rightarrow> Removed x # registry_run lk rg dr ops s')"

context tunnel_registry
begin

lemma run_refines:
  "Failed \<notin> set (registry_run lookup register deregister ops s) \<Longrightarrow>
     registry_run lookup register deregister ops s = spec_run (map snd ops) (view s)"
proof (induction ops arbitrary: s)
  case (Cons vo ops)
  obtain v o' where vo: "vo = (v, o')" by fastforce
  show ?case
  proof (cases o')
    case (Lookup n)
    obtain x s' where r: "lookup v n s = (x, s')" by fastforce
    then show ?thesis
      using Cons.IH [of s'] Cons.prems Lookup vo lookup_view [OF r] lookup_result [of v n s _ s']
      by (cases x) auto
  next
    case (Register n r)
    obtain x s' where r': "register v n r s = (x, s')" by fastforce
    then show ?thesis
      using Cons.IH [of s'] Cons.prems Register vo register_result [of v n r s _ s']
      by (cases x) (auto simp: fun_upd_def)
  next
    case (Deregister n)
    obtain x s' where r: "deregister v n s = (x, s')" by fastforce
    then show ?thesis
      using Cons.IH [of s'] Cons.prems Deregister vo deregister_result [of v n s _ s']
      by (cases x) (auto simp: fun_upd_def)
  qed
qed simp

end

section \<open>The in-memory registry\<close>

datatype 'j in_memory_error = JoinError 'j

record 'm in_memory =
  tunnels :: 'm

definition in_memory_new :: "('m, 'n, 'r) dashmap \<Rightarrow> 'm in_memory" where
  "in_memory_new D = \<lparr>tunnels = dm_new D\<rparr>"

definition in_memory_len :: "('m, 'n, 'r) dashmap \<Rightarrow> 'm in_memory \<Rightarrow> nat" where
  "in_memory_len D s = length (dm_iter D (tunnels s))"

text \<open>
  The environment of an in-memory operation is the join error of its blocking task, if any: a
  blocking task can only be cancelled before it runs.
\<close>

definition in_memory_lookup :: "('m, 'n, 'r) dashmap \<Rightarrow> 'j option \<Rightarrow> 'n \<Rightarrow>
  'm in_memory \<Rightarrow> ('j in_memory_error, 'r option) result \<times> 'm in_memory" where
  "in_memory_lookup D join_error tunnel_name s =
    (case join_error of
       Some e \<Rightarrow> (Err (JoinError e), s)
     | None \<Rightarrow> (Ok (case dm_get D (tunnels s) tunnel_name of Some item \<Rightarrow> Some item | None \<Rightarrow> None), s))"

definition in_memory_register :: "('m, 'n, 'r) dashmap \<Rightarrow> 'j option \<Rightarrow> 'n \<Rightarrow> 'r \<Rightarrow>
  'm in_memory \<Rightarrow> ('j in_memory_error, 'n) result \<times> 'm in_memory" where
  "in_memory_register D join_error tunnel_name record s =
    (case join_error of
       Some e \<Rightarrow> (Err (JoinError e), s)
     | None \<Rightarrow> (Ok tunnel_name, s\<lparr>tunnels := dm_insert D (tunnels s) tunnel_name record\<rparr>))"

definition in_memory_deregister :: "('m, 'n, 'r) dashmap \<Rightarrow> 'j option \<Rightarrow> 'n \<Rightarrow>
  'm in_memory \<Rightarrow> ('j in_memory_error, 'r option) result \<times> 'm in_memory" where
  "in_memory_deregister D join_error tunnel_name s =
    (case join_error of
       Some e \<Rightarrow> (Err (JoinError e), s)
     | None \<Rightarrow> (case dm_remove D (tunnels s) tunnel_name of
         (removed, m) \<Rightarrow> (Ok (map_option snd removed), s\<lparr>tunnels := m\<rparr>)))"

definition in_memory_deregister_identifier :: "('m, 'n, 'r) dashmap \<Rightarrow> 'j option \<Rightarrow>
  'n \<Rightarrow> 'm in_memory \<Rightarrow> ('j in_memory_error, 'r option) result \<times> 'm in_memory" where
  "in_memory_deregister_identifier D join_error identifier s =
    in_memory_deregister D join_error identifier s"

lemmas in_memory_defs = in_memory_lookup_def in_memory_register_def in_memory_deregister_def
  in_memory_deregister_identifier_def

context dashmap_laws
begin

lemma in_memory_deregister_view:
  assumes "in_memory_deregister D v n s = (Inr x, s')"
  shows "x = dm_get D (tunnels s) n \<and> dm_get D (tunnels s') = (dm_get D (tunnels s))(n := None)"
  using assms removed [of "tunnels s" n] get_remove [of "tunnels s" n]
  by (cases "dm_get D (tunnels s) n") (auto simp: in_memory_defs split: option.splits prod.splits)

end

sublocale dashmap_laws \<subseteq> in_memory:
  tunnel_registry "\<lambda>s. dm_get D (tunnels s)" "\<lambda>i. i" "\<lambda>_. True" "in_memory_lookup D" "in_memory_register D"
    "in_memory_deregister D" "in_memory_deregister_identifier D"
proof
qed (auto simp: in_memory_lookup_def in_memory_register_def in_memory_deregister_identifier_def
    get_insert dest: in_memory_deregister_view split: option.splits,
    auto simp: in_memory_deregister_def split: option.splits prod.splits)

context dashmap_laws
begin

lemma in_memory_is_registry:
  "tunnel_registry (\<lambda>s. dm_get D (tunnels s)) (\<lambda>i. i) (\<lambda>_. True) (in_memory_lookup D)
    (in_memory_register D) (in_memory_deregister D) (in_memory_deregister_identifier D)"
  by (rule in_memory.tunnel_registry_axioms)

end

section \<open>The mapped registry\<close>

datatype 'e mapped_error = Mapped 'e | Downcast

definition mapped_lookup ::
  "('v \<Rightarrow> 'n \<Rightarrow> 's \<Rightarrow> ('e, 'r option) result \<times> 's) \<Rightarrow> ('r \<Rightarrow> 'q) \<Rightarrow> ('e mapped_error \<Rightarrow> 'f) \<Rightarrow>
   'v \<Rightarrow> 'n \<Rightarrow> 's \<Rightarrow> ('f, 'q option) result \<times> 's" where
  "mapped_lookup inner_lookup from_record from_error v tunnel_name s =
    (case inner_lookup v tunnel_name s of
       (res, s') \<Rightarrow> (map_err (\<lambda>e. from_error (Mapped e)) (map_ok (map_option from_record) res), s'))"

definition mapped_register ::
  "('v \<Rightarrow> 'n \<Rightarrow> 'r \<Rightarrow> 's \<Rightarrow> ('e, 'i) result \<times> 's) \<Rightarrow> ('q \<Rightarrow> 'r option) \<Rightarrow> ('i \<Rightarrow> 'k) \<Rightarrow>
   ('e mapped_error \<Rightarrow> 'f) \<Rightarrow> 'v \<Rightarrow> 'n \<Rightarrow> 'q \<Rightarrow> 's \<Rightarrow> ('f, 'k) result \<times> 's" where
  "mapped_register inner_register try_into_record from_identifier from_error v tunnel_name record s =
    (case try_into_record record of
       None \<Rightarrow> (Err (from_error Downcast), s)
     | Some inner_record \<Rightarrow>
         (case inner_register v tunnel_name inner_record s of
            (res, s') \<Rightarrow> (map_err (\<lambda>e. from_error (Mapped e)) (map_ok from_identifier res), s')))"

definition mapped_deregister ::
  "('v \<Rightarrow> 'n \<Rightarrow> 's \<Rightarrow> ('e, 'r option) result \<times> 's) \<Rightarrow> ('r \<Rightarrow> 'q) \<Rightarrow> ('e mapped_error \<Rightarrow> 'f) \<Rightarrow>
   'v \<Rightarrow> 'n \<Rightarrow> 's \<Rightarrow> ('f, 'q option) result \<times> 's" where
  "mapped_deregister inner_deregister from_record from_error v tunnel_name s =
    (case inner_deregister v tunnel_name s of
       (res, s') \<Rightarrow> (map_err (\<lambda>e. from_error (Mapped e)) (map_ok (map_option from_record) res), s'))"

definition mapped_deregister_identifier ::
  "('v \<Rightarrow> 'i \<Rightarrow> 's \<Rightarrow> ('e, 'r option) result \<times> 's) \<Rightarrow> ('r \<Rightarrow> 'q) \<Rightarrow> ('k \<Rightarrow> 'i option) \<Rightarrow>
   ('e mapped_error \<Rightarrow> 'f) \<Rightarrow> 'v \<Rightarrow> 'k \<Rightarrow> 's \<Rightarrow> ('f, 'q option) result \<times> 's" where
  "mapped_deregister_identifier inner_deregister_identifier from_record try_into_identifier from_error
      v identifier s =
    (case try_into_identifier identifier of
       None \<Rightarrow> (Err (from_error Downcast), s)
     | Some inner_identifier \<Rightarrow>
         (case inner_deregister_identifier v inner_identifier s of
            (res, s') \<Rightarrow>
              (map_err (\<lambda>e. from_error (Mapped e)) (map_ok (map_option from_record) res), s')))"

lemmas mapped_defs = mapped_lookup_def mapped_register_def mapped_deregister_def
  mapped_deregister_identifier_def

text \<open>
  The conversions of records and identifiers are partial in one direction; what converts into
  the inner registry converts back to itself.
\<close>

locale mapped_registry =
  inner: tunnel_registry view name_of issued lookup register deregister deregister_identifier
  for view :: "'s \<Rightarrow> 'n \<Rightarrow> 'r option" and name_of :: "'i \<Rightarrow> 'n" and issued :: "'i \<Rightarrow> bool"
    and lookup :: "'v \<Rightarrow> 'n \<Rightarrow> 's \<Rightarrow> ('e, 'r option) result \<times> 's"
    and register :: "'v \<Rightarrow> 'n \<Rightarrow> 'r \<Rightarrow> 's \<Rightarrow> ('e, 'i) result \<times> 's"
    and deregister :: "'v \<Rightarrow> 'n \<Rightarrow> 's \<Rightarrow> ('e, 'r option) result \<times> 's"
    and deregister_identifier :: "'v \<Rightarrow> 'i \<Rightarrow> 's \<Rightarrow> ('e, 'r option) result \<times> 's" +
  fixes from_record :: "'r \<Rightarrow> 'q" and try_into_record :: "'q \<Rightarrow> 'r option"
    and from_identifier :: "'i \<Rightarrow> 'k" and try_into_identifier :: "'k \<Rightarrow> 'i option"
    and from_error :: "'e mapped_error \<Rightarrow> 'f"
  assumes record_back: "try_into_record q = Some r \<Longrightarrow> from_record r = q"
    and identifier_back: "try_into_identifier (from_identifier i) = Some i"

sublocale mapped_registry \<subseteq> mapped:
  tunnel_registry "\<lambda>s n. map_option from_record (view s n)"
    "\<lambda>k. name_of (the (try_into_identifier k))" "\<lambda>k. \<exists>i. try_into_identifier k = Some i \<and> issued i"
    "mapped_lookup lookup from_record from_error"
    "mapped_register register try_into_record from_identifier from_error"
    "mapped_deregister deregister from_record from_error"
    "mapped_deregister_identifier deregister_identifier from_record try_into_identifier from_error"
proof (standard, goal_cases)
  case 1
  then show ?case
    using inner.lookup_view by (fastforce simp: mapped_defs split: prod.splits)
next
  case 2
  then show ?case
    by (auto simp: mapped_defs result_simps dest: inner.lookup_result split: prod.splits)
next
  case (3 v n r s i s')
  then show ?case
    by (auto simp: mapped_defs result_simps identifier_back record_back fun_eq_iff
        dest!: inner.register_result split: prod.splits option.splits)
next
  case (4 v n r s e s')
  then show ?case
    by (auto simp: mapped_defs result_simps record_back fun_eq_iff
        dest!: inner.register_failed split: prod.splits option.splits)
next
  case 5
  then show ?case
    by (auto simp: mapped_defs result_simps fun_eq_iff dest!: inner.deregister_result
        split: prod.splits)
next
  case 6
  then show ?case
    by (auto simp: mapped_defs result_simps dest!: inner.deregister_failed split: prod.splits)
next
  case 7
  then show ?case
    by (auto simp: mapped_defs result_simps fun_eq_iff dest!: inner.deregister_identifier_result
        split: prod.splits option.splits)
next
  case 8
  then show ?case
    by (auto simp: mapped_defs result_simps dest!: inner.deregister_identifier_failed
        split: prod.splits option.splits)
qed

section \<open>The write-through cache\<close>

datatype ('a, 'b) write_through_cache_error = CacheError 'a | TargetError 'b

record ('a, 'b) cache_identifier =
  cache_ident :: 'a
  target_ident :: 'b

text \<open>
  The environment of a cache operation: those of the two registries, which of two joined
  operations completes first, and whether the other one still takes effect when the first fails
  and \<open>try_join\<close> drops it.
\<close>

record ('va, 'vb) cache_env =
  env_a :: 'va
  env_a2 :: 'va
  env_b :: 'vb
  a_first :: bool
  other_ran :: bool

definition join_ops ::
  "('va, 'vb) cache_env \<Rightarrow> ('ea, 'x) result \<times> 's \<Rightarrow> ('eb, 'y) result \<times> 't \<Rightarrow> 's \<times> 't \<Rightarrow>
   (('ea, 'eb) write_through_cache_error, 'x \<times> 'y) result \<times> 's \<times> 't" where
  "join_ops v ra rb old =
    (case (fst ra, fst rb) of
       (Inr x, Inr y) \<Rightarrow> (Ok (x, y), snd ra, snd rb)
     | (Inl e, Inr y) \<Rightarrow>
         (Err (CacheError e), snd ra, if a_first v \<and> \<not> other_ran v then snd old else snd rb)
     | (Inr x, Inl e) \<Rightarrow>
         (Err (TargetError e), if \<not> a_first v \<and> \<not> other_ran v then fst old else snd ra, snd rb)
     | (Inl d, Inl e) \<Rightarrow>
         (if a_first v
          then (Err (CacheError d), snd ra, if other_ran v then snd rb else snd old)
          else (Err (TargetError e), if other_ran v then snd ra else fst old, snd rb)))"

definition cache_lookup ::
  "('va \<Rightarrow> 'n \<Rightarrow> 's \<Rightarrow> ('ea, 'r option) result \<times> 's) \<Rightarrow>
   ('va \<Rightarrow> 'n \<Rightarrow> 'r \<Rightarrow> 's \<Rightarrow> ('ea, 'i) result \<times> 's) \<Rightarrow>
   ('vb \<Rightarrow> 'n \<Rightarrow> 't \<Rightarrow> ('eb, 'q option) result \<times> 't) \<Rightarrow> ('q \<Rightarrow> 'r) \<Rightarrow>
   ('va, 'vb) cache_env \<Rightarrow> 'n \<Rightarrow> 's \<times> 't \<Rightarrow>
   (('ea, 'eb) write_through_cache_error, 'r option) result \<times> 's \<times> 't" where
  "cache_lookup lookup_a register_a lookup_b decode v tunnel_name s =
    (case lookup_a (env_a v) tunnel_name (fst s) of
       (Inl e, sa) \<Rightarrow> (Err (CacheError e), sa, snd s)
     | (Inr (Some res), sa) \<Rightarrow> (Ok (Some res), sa, snd s)
     | (Inr None, sa) \<Rightarrow>
         (case lookup_b (env_b v) tunnel_name (snd s) of
            (Inl e, sb) \<Rightarrow> (Err (TargetError e), sa, sb)
          | (Inr None, sb) \<Rightarrow> (Ok None, sa, sb)
          | (Inr (Some res), sb) \<Rightarrow>
              (let decoded = decode res in
               case register_a (env_a2 v) tunnel_name decoded sa of
                 (Inl e, sa') \<Rightarrow> (Err (CacheError e), sa', sb)
               | (Inr _, sa') \<Rightarrow> (Ok (Some decoded), sa', sb))))"

definition cache_register ::
  "('va \<Rightarrow> 'n \<Rightarrow> 'r \<Rightarrow> 's \<Rightarrow> ('ea, 'i) result \<times> 's) \<Rightarrow>
   ('vb \<Rightarrow> 'n \<Rightarrow> 'q \<Rightarrow> 't \<Rightarrow> ('eb, 'k) result \<times> 't) \<Rightarrow> ('r \<Rightarrow> 'q) \<Rightarrow>
   ('va, 'vb) cache_env \<Rightarrow> 'n \<Rightarrow> 'r \<Rightarrow> 's \<times> 't \<Rightarrow>
   (('ea, 'eb) write_through_cache_error, ('i, 'k) cache_identifier) result \<times> 's \<times> 't" where
  "cache_register register_a register_b encode v tunnel_name record s =
    (let encoded = encode record in
     case join_ops v (register_a (env_a v) tunnel_name record (fst s))
         (register_b (env_b v) tunnel_name encoded (snd s)) s of
       (r, s') \<Rightarrow> (map_ok (\<lambda>(a, b). \<lparr>cache_ident = a, target_ident = b\<rparr>) r, s'))"

definition cached_or_decoded :: "('q \<Rightarrow> 'r) \<Rightarrow> 'r option \<times> 'q option \<Rightarrow> 'r option" where
  "cached_or_decoded decode ab = (case fst ab of Some a \<Rightarrow> Some a | None \<Rightarrow> map_option decode (snd ab))"

definition cache_deregister ::
  "('va \<Rightarrow> 'n \<Rightarrow> 's \<Rightarrow> ('ea, 'r option) result \<times> 's) \<Rightarrow>
   ('vb \<Rightarrow> 'n \<Rightarrow> 't \<Rightarrow> ('eb, 'q option) result \<times> 't) \<Rightarrow> ('q \<Rightarrow> 'r) \<Rightarrow>
   ('va, 'vb) cache_env \<Rightarrow> 'n \<Rightarrow> 's \<times> 't \<Rightarrow>
   (('ea, 'eb) write_through_cache_error, 'r option) result \<times> 's \<times> 't" where
  "cache_deregister deregister_a deregister_b decode v tunnel_name s =
    (case join_ops v (deregister_a (env_a v) tunnel_name (fst s))
         (deregister_b (env_b v) tunnel_name (snd s)) s of
       (r, s') \<Rightarrow> (map_ok (cached_or_decoded decode) r, s'))"

definition cache_deregister_identifier ::
  "('va \<Rightarrow> 'i \<Rightarrow> 's \<Rightarrow> ('ea, 'r option) result \<times> 's) \<Rightarrow>
   ('vb \<Rightarrow> 'k \<Rightarrow> 't \<Rightarrow> ('eb, 'q option) result \<times> 't) \<Rightarrow> ('q \<Rightarrow> 'r) \<Rightarrow>
   ('va, 'vb) cache_env \<Rightarrow> ('i, 'k) cache_identifier \<Rightarrow> 's \<times> 't \<Rightarrow>
   (('ea, 'eb) write_through_cache_error, 'r option) result \<times> 's \<times> 't" where
  "cache_deregister_identifier deregister_a deregister_b decode v identifier s =
    (case join_ops v (deregister_a (env_a v) (cache_ident identifier) (fst s))
         (deregister_b (env_b v) (target_ident identifier) (snd s)) s of
       (r, s') \<Rightarrow> (map_ok (cached_or_decoded decode) r, s'))"

text \<open>What a cache shows of a name: the cached record, else the decoded record of the target.\<close>

definition cache_view ::
  "('s \<Rightarrow> 'n \<Rightarrow> 'r option) \<Rightarrow> ('t \<Rightarrow> 'n \<Rightarrow> 'q option) \<Rightarrow> ('q \<Rightarrow> 'r) \<Rightarrow> 's \<times> 't \<Rightarrow> 'n \<Rightarrow> 'r option" where
  "cache_view view_a view_b decode s n = cached_or_decoded decode (view_a (fst s) n, view_b (snd s) n)"

lemma cached_or_decoded_simps [simp]:
  "cached_or_decoded decode (Some a, b) = Some a"
  "cached_or_decoded decode (None, b) = map_option decode b"
  by (simp_all add: cached_or_decoded_def)

lemma join_ops_cases:
  assumes "join_ops v ra rb old = (r, s')"
  shows "(fst s' = fst old \<and> (\<exists>e. r = Inl e) \<or> fst s' = snd ra) \<and>
    (snd s' = snd old \<and> (\<exists>e. r = Inl e) \<or> snd s' = snd rb) \<and>
    (\<forall>x y. r = Inr (x, y) \<longrightarrow> fst ra = Inr x \<and> fst rb = Inr y)"
  using assms by (auto simp: join_ops_def split: sum.splits if_splits)

text \<open>Deregistration by name and by identifier go the same way.\<close>

lemma join_deregister:
  assumes "join_ops v (ra, sa) (rb, sb) s = (p, s')"
    and "\<forall>x. ra = Inr x \<longrightarrow> x = A (fst s) n \<and> A sa = (A (fst s))(n := None)"
    and "\<forall>y. rb = Inr y \<longrightarrow> y = B (snd s) n \<and> B sb = (B (snd s))(n := None)"
    and "\<forall>m. m \<noteq> n \<longrightarrow> A sa m = A (fst s) m" "\<forall>m. m \<noteq> n \<longrightarrow> B sb m = B (snd s) m"
  shows "(\<forall>x. map_ok (cached_or_decoded decode) p = Inr x \<longrightarrow> x = cache_view A B decode s n \<and>
      cache_view A B decode s' = (cache_view A B decode s)(n := None)) \<and>
    (\<forall>m. m \<noteq> n \<longrightarrow> cache_view A B decode s' m = cache_view A B decode s m)"
proof -
  have "cache_view A B decode s' m = cache_view A B decode s m" if "m \<noteq> n" for m
    using join_ops_cases [OF assms(1)] assms(4,5) that by (auto simp: cache_view_def)
  moreover have "x = cache_view A B decode s n \<and> cache_view A B decode s' = (cache_view A B decode s)(n := None)"
    if "map_ok (cached_or_decoded decode) p = Inr x" for x
    using that join_ops_cases [OF assms(1)] assms(2,3)
    by (auto simp: cache_view_def fun_eq_iff result_simps)
  ultimately show ?thesis by blast
qed

locale cache_registry =
  cache: tunnel_registry view_a name_a issued_a lookup_a register_a deregister_a deregister_identifier_a +
  target: tunnel_registry view_b name_b issued_b lookup_b register_b deregister_b deregister_identifier_b
  for view_a :: "'s \<Rightarrow> 'n \<Rightarrow> 'r option" and name_a :: "'i \<Rightarrow> 'n" and issued_a :: "'i \<Rightarrow> bool"
    and lookup_a :: "'va \<Rightarrow> 'n \<Rightarrow> 's \<Rightarrow> ('ea, 'r option) result \<times> 's"
    and register_a :: "'va \<Rightarrow> 'n \<Rightarrow> 'r \<Rightarrow> 's \<Rightarrow> ('ea, 'i) result \<times> 's"
    and deregister_a :: "'va \<Rightarrow> 'n \<Rightarrow> 's \<Rightarrow> ('ea, 'r option) result \<times> 's"
    and deregister_identifier_a :: "'va \<Rightarrow> 'i \<Rightarrow> 's \<Rightarrow> ('ea, 'r option) result \<times> 's"
    and view_b :: "'t \<Rightarrow> 'n \<Rightarrow> 'q option" and name_b :: "'k \<Rightarrow> 'n" and issued_b :: "'k \<Rightarrow> bool"
    and lookup_b :: "'vb \<Rightarrow> 'n \<Rightarrow> 't \<Rightarrow> ('eb, 'q option) result \<times> 't"
    and register_b :: "'vb \<Rightarrow> 'n \<Rightarrow> 'q \<Rightarrow> 't \<Rightarrow> ('eb, 'k) result \<times> 't"
    and deregister_b :: "'vb \<Rightarrow> 'n \<Rightarrow> 't \<Rightarrow> ('eb, 'q option) result \<times> 't"
    and deregister_identifier_b :: "'vb \<Rightarrow> 'k \<Rightarrow> 't \<Rightarrow> ('eb, 'q option) result \<times> 't" +
  fixes encode :: "'r \<Rightarrow> 'q" and decode :: "'q \<Rightarrow> 'r"
  assumes decode_encode: "decode (encode r) = r"
begin

lemma lookup_cases:
  assumes "cache_lookup lookup_a register_a lookup_b decode v n s = (q, s')"
  shows "cache_view view_a view_b decode s' = cache_view view_a view_b decode s \<and>
    (\<forall>x. q = Inr x \<longrightarrow> x = cache_view view_a view_b decode s n)"
proof -
  obtain qa sa where a: "lookup_a (env_a v) n (fst s) = (qa, sa)" by fastforce
  obtain qb sb where b: "lookup_b (env_b v) n (snd s) = (qb, sb)" by fastforce
  have va: "view_a sa = view_a (fst s)" "view_b sb = view_b (snd s)"
    using cache.lookup_view [OF a] target.lookup_view [OF b] .
  have ra: "\<And>x. qa = Inr x \<Longrightarrow> x = view_a (fst s) n" "\<And>x. qb = Inr x \<Longrightarrow> x = view_b (snd s) n"
    using cache.lookup_result a target.lookup_result b by blast+
  have reg: "view_a sa' = (view_a sa)(n \<mapsto> d) \<or> view_a sa' = view_a sa"
    if "register_a e n d sa = (i, sa')" for e d i sa'
    using cache.register_result cache.register_failed that by (cases i) blast+
  show ?thesis
  proof (cases "\<exists>d. qa = Inr None \<and> qb = Inr (Some d)")
    case True
    then obtain d where d: "qa = Inr None" "qb = Inr (Some d)" by blast
    obtain i sa' where r: "register_a (env_a2 v) n (decode d) sa = (i, sa')" by fastforce
    have n: "view_a (fst s) n = None" "view_b (snd s) n = Some d"
      using ra d by auto
    have "cache_view view_a view_b decode (sa', sb) m = cache_view view_a view_b decode s m" for m
      using reg [OF r] va n by (cases "m = n") (auto simp: cache_view_def)
    then have "cache_view view_a view_b decode (sa', sb) = cache_view view_a view_b decode s" ..
    then show ?thesis
      using assms a b d r n
      by (cases i) (auto simp: cache_lookup_def Let_def cache_view_def)
  next
    case False
    then show ?thesis
      using assms a b va ra
      by (auto simp: cache_lookup_def cache_view_def [abs_def] split: sum.splits option.splits)
  qed
qed

lemma register_Inr:
  assumes "cache_register register_a register_b encode v n r s = (Inr i, s')"
  shows "issued_a (cache_ident i) \<and> issued_b (target_ident i) \<and> name_a (cache_ident i) = n \<and>
    name_b (target_ident i) = n \<and>
    cache_view view_a view_b decode s' = (cache_view view_a view_b decode s)(n \<mapsto> r)"
proof -
  obtain q where j: "join_ops v (register_a (env_a v) n r (fst s))
      (register_b (env_b v) n (encode r) (snd s)) s = (Inr q, s')"
    "i = \<lparr>cache_ident = fst q, target_ident = snd q\<rparr>"
    using assms by (auto simp: cache_register_def result_simps split: prod.splits)
  obtain x y where q: "q = (x, y)" by fastforce
  have "register_a (env_a v) n r (fst s) = (Inr x, fst s')"
    "register_b (env_b v) n (encode r) (snd s) = (Inr y, snd s')"
    using join_ops_cases [OF j(1)] q by (auto simp: prod_eq_iff)
  then show ?thesis
    using cache.register_result target.register_result j q
    by (auto simp: cache_view_def fun_eq_iff dest!: cache.register_result target.register_result)
qed

lemma register_any:
  assumes "cache_register register_a register_b encode v n r s = (q, s')"
  shows "(view_a (fst s') = view_a (fst s) \<or> view_a (fst s') = (view_a (fst s))(n \<mapsto> r)) \<and>
    (view_b (snd s') = view_b (snd s) \<or> view_b (snd s') = (view_b (snd s))(n \<mapsto> encode r))"
proof -
  obtain p where "join_ops v (register_a (env_a v) n r (fst s))
      (register_b (env_b v) n (encode r) (snd s)) s = (p, s')"
    using assms by (auto simp: cache_register_def split: prod.splits)
  note j = join_ops_cases [OF this]
  obtain x sa where x: "register_a (env_a v) n r (fst s) = (x, sa)" by fastforce
  obtain y sb where y: "register_b (env_b v) n (encode r) (snd s) = (y, sb)" by fastforce
  have "fst s' = fst s \<or> fst s' = sa" "snd s' = snd s \<or> snd s' = sb"
    using j x y by auto
  then show ?thesis
    using cache.register_view [OF x] target.register_view [OF y] by metis
qed

lemma register_Inl:
  assumes "cache_register register_a register_b encode v n r s = (Inl e, s')"
  shows "cache_view view_a view_b decode s' = cache_view view_a view_b decode s \<or>
    cache_view view_a view_b decode s' = (cache_view view_a view_b decode s)(n \<mapsto> r)"
proof -
  have "cache_view view_a view_b decode s' m = cache_view view_a view_b decode s m" if "m \<noteq> n" for m
    using register_any [OF assms] that by (auto simp: cache_view_def)
  then have "cache_view view_a view_b decode s' =
      (cache_view view_a view_b decode s)(n := cache_view view_a view_b decode s' n)"
    by (auto simp: fun_eq_iff)
  moreover have "cache_view view_a view_b decode s' n = cache_view view_a view_b decode s n \<or>
      cache_view view_a view_b decode s' n = Some r"
    using register_any [OF assms]
    by (cases "view_a (fst s) n") (auto simp: cache_view_def decode_encode)
  ultimately show ?thesis
    by (metis fun_upd_triv)
qed

lemma deregister_any:
  assumes "cache_deregister deregister_a deregister_b decode v n s = (q, s')"
  shows "(\<forall>x. q = Inr x \<longrightarrow> x = cache_view view_a view_b decode s n \<and>
      cache_view view_a view_b decode s' = (cache_view view_a view_b decode s)(n := None)) \<and>
    (\<forall>m. m \<noteq> n \<longrightarrow> cache_view view_a view_b decode s' m = cache_view view_a view_b decode s m)"
proof -
  obtain ra sa where a: "deregister_a (env_a v) n (fst s) = (ra, sa)" by fastforce
  obtain rb sb where b: "deregister_b (env_b v) n (snd s) = (rb, sb)" by fastforce
  obtain p where j: "join_ops v (ra, sa) (rb, sb) s = (p, s')" and q: "q = map_ok (cached_or_decoded decode) p"
    using assms a b by (auto simp: cache_deregister_def split: prod.splits)
  show ?thesis
    unfolding q using a b cache.deregister_result target.deregister_result
      cache.deregister_other [OF a] target.deregister_other [OF b]
    by (intro join_deregister [OF j]) blast+
qed

lemma deregister_identifier_any:
  assumes "issued_a (cache_ident i)" "issued_b (target_ident i)" "name_a (cache_ident i) = n"
    "name_b (target_ident i) = n"
    and "cache_deregister_identifier deregister_identifier_a deregister_identifier_b decode v i s = (q, s')"
  shows "(\<forall>x. q = Inr x \<longrightarrow> x = cache_view view_a view_b decode s n \<and>
      cache_view view_a view_b decode s' = (cache_view view_a view_b decode s)(n := None)) \<and>
    (\<forall>m. m \<noteq> n \<longrightarrow> cache_view view_a view_b decode s' m = cache_view view_a view_b decode s m)"
proof -
  obtain ra sa where a: "deregister_identifier_a (env_a v) (cache_ident i) (fst s) = (ra, sa)" by fastforce
  obtain rb sb where b: "deregister_identifier_b (env_b v) (target_ident i) (snd s) = (rb, sb)" by fastforce
  obtain p where j: "join_ops v (ra, sa) (rb, sb) s = (p, s')" and q: "q = map_ok (cached_or_decoded decode) p"
    using assms(5) a b by (auto simp: cache_deregister_identifier_def split: prod.splits)
  show ?thesis
    unfolding q using a b cache.deregister_identifier_result [OF assms(1), unfolded assms(3)]
      target.deregister_identifier_result [OF assms(2), unfolded assms(4)]
      cache.deregister_identifier_other [OF assms(1) a, unfolded assms(3)]
      target.deregister_identifier_other [OF assms(2) b, unfolded assms(4)]
    by (intro join_deregister [OF j]) blast+
qed

end

sublocale cache_registry \<subseteq> cached:
  tunnel_registry "cache_view view_a view_b decode" "\<lambda>i. name_a (cache_ident i)"
    "\<lambda>i. issued_a (cache_ident i) \<and> issued_b (target_ident i)
       \<and> name_a (cache_ident i) = name_b (target_ident i)"
    "cache_lookup lookup_a register_a lookup_b decode"
    "cache_register register_a register_b encode"
    "cache_deregister deregister_a deregister_b decode"
    "cache_deregister_identifier deregister_identifier_a deregister_identifier_b decode"
  by standard
    (use lookup_cases register_Inr register_Inl deregister_any deregister_identifier_any in
      \<open>metis (full_types)\<close>)+

context cache_registry
begin

lemma cache_is_registry:
  "tunnel_registry (cache_view view_a view_b decode) (\<lambda>i. name_a (cache_ident i))
    (\<lambda>i. issued_a (cache_ident i) \<and> issued_b (target_ident i)
       \<and> name_a (cache_ident i) = name_b (target_ident i))
    (cache_lookup lookup_a register_a lookup_b decode)
    (cache_register register_a register_b encode)
    (cache_deregister deregister_a deregister_b decode)
    (cache_deregister_identifier deregister_identifier_a deregister_identifier_b decode)"
  by (rule cached.tunnel_registry_axioms)

end

section \<open>The registries refine a map\<close>

text \<open>
  An in-memory registry whose blocking tasks are all joined answers every sequence of
  lookups, registrations and deregistrations as a plain map does, for every \<open>DashMap\<close> that
  obeys the laws of its documentation.
\<close>

lemma in_memory_refines_map:
  assumes "dashmap_laws D" "\<forall>v \<in> fst ` set ops. v = None"
  shows "registry_run (in_memory_lookup D) (in_memory_register D) (in_memory_deregister D) ops
      (in_memory_new D) = spec_run (map snd ops) Map.empty"
proof -
  have "Failed \<notin> set (registry_run (in_memory_lookup D) (in_memory_register D) (in_memory_deregister D) ops s)" for s
    using assms(2)
  proof (induction ops arbitrary: s)
    case (Cons vo ops)
    then show ?case
      by (cases vo; cases "snd vo") (auto simp: in_memory_defs split: prod.splits)
  qed simp
  from tunnel_registry.run_refines [OF dashmap_laws.in_memory_is_registry [OF assms(1)] this]
  show ?thesis
    by (simp add: in_memory_new_def dashmap_laws.get_new [OF assms(1)])
qed

lemma in_memory_refines_map_witness:
  "registry_run (in_memory_lookup assoc_dashmap) (in_memory_register assoc_dashmap)
      (in_memory_deregister assoc_dashmap)
      [(None :: nat option, Register (1 :: nat) True), (None, Lookup 1), (None, Deregister 1), (None, Lookup 1)]
      (in_memory_new assoc_dashmap) = [Stored, Found (Some True), Removed (Some True), Found None]"
  using in_memory_refines_map [OF assoc_map.dashmap_laws_axioms, of
      "[(None :: nat option, Register (1 :: nat) True), (None, Lookup 1), (None, Deregister 1), (None, Lookup 1)]"]
  by simp

lemma in_memory_cache_registry:
  assumes "dashmap_laws D" "dashmap_laws E" "\<forall>r. decode (encode r) = r"
  shows "cache_registry (\<lambda>s. dm_get D (tunnels s)) (\<lambda>i. i) (\<lambda>_. True) (in_memory_lookup D)
    (in_memory_register D) (in_memory_deregister D) (in_memory_deregister_identifier D)
    (\<lambda>s. dm_get E (tunnels s)) (\<lambda>i. i) (\<lambda>_. True) (in_memory_lookup E)
    (in_memory_register E) (in_memory_deregister E) (in_memory_deregister_identifier E) encode decode"
  using assms(3) dashmap_laws.in_memory_is_registry [OF assms(1)]
    dashmap_laws.in_memory_is_registry [OF assms(2)]
  by (simp add: cache_registry_def cache_registry_axioms_def)

definition quiet :: "('va option, 'vb option) cache_env \<Rightarrow> bool" where
  "quiet v \<longleftrightarrow> env_a v = None \<and> env_a2 v = None \<and> env_b v = None"

lemma cache_never_fails:
  "\<forall>v \<in> fst ` set ops. quiet v \<Longrightarrow>
    Failed \<notin> set (registry_run
      (cache_lookup (in_memory_lookup D) (in_memory_register D) (in_memory_lookup E) decode)
      (cache_register (in_memory_register D) (in_memory_register E) encode)
      (cache_deregister (in_memory_deregister D) (in_memory_deregister E) decode) ops s)"
proof (induction ops arbitrary: s)
  case (Cons vo ops)
  then show ?case
    by (cases vo; cases "snd vo")
      (auto simp: in_memory_defs quiet_def cache_lookup_def cache_register_def cache_deregister_def
        join_ops_def Let_def split: prod.splits option.splits)
qed simp

text \<open>
  C4: a write-through cache over two in-memory registries answers every sequence of lookups,
  registrations and deregistrations as a plain map does, in whatever order its joined operations
  complete: reading through the cache never shows a stale or a missing record.
\<close>

theorem cache_refines_map:
  assumes "dashmap_laws D" "dashmap_laws E" "\<forall>r. decode (encode r) = r"
    and "\<forall>v \<in> fst ` set ops. quiet v"
  shows "registry_run
      (cache_lookup (in_memory_lookup D) (in_memory_register D) (in_memory_lookup E) decode)
      (cache_register (in_memory_register D) (in_memory_register E) encode)
      (cache_deregister (in_memory_deregister D) (in_memory_deregister E) decode) ops
      (in_memory_new D, in_memory_new E) = spec_run (map snd ops) Map.empty"
proof -
  note never = cache_never_fails [OF assms(4)]
  have "cache_view (\<lambda>s. dm_get D (tunnels s)) (\<lambda>s. dm_get E (tunnels s)) decode
      (in_memory_new D, in_memory_new E) = Map.empty"
    using dashmap_laws.get_new [OF assms(1)] dashmap_laws.get_new [OF assms(2)]
    by (simp add: cache_view_def in_memory_new_def fun_eq_iff)
  with tunnel_registry.run_refines [OF cache_registry.cache_is_registry
      [OF in_memory_cache_registry [OF assms(1-3)]] never]
  show ?thesis by simp
qed

theorem cache_refines_map_witness:
  "registry_run
      (cache_lookup (in_memory_lookup assoc_dashmap) (in_memory_register assoc_dashmap)
        (in_memory_lookup assoc_dashmap) (\<lambda>n. n - 1))
      (cache_register (in_memory_register assoc_dashmap) (in_memory_register assoc_dashmap) Suc)
      (cache_deregister (in_memory_deregister assoc_dashmap) (in_memory_deregister assoc_dashmap) (\<lambda>n. n - 1))
      [(\<lparr>env_a = None :: nat option, env_a2 = None, env_b = None :: nat option, a_first = True,
         other_ran = False\<rparr>, Register (1 :: nat) (4 :: nat)),
       (\<lparr>env_a = None, env_a2 = None, env_b = None, a_first = False, other_ran = False\<rparr>, Deregister 1)]
      (in_memory_new assoc_dashmap, in_memory_new assoc_dashmap) = [Stored, Removed (Some 4)]"
  using cache_refines_map [OF assoc_map.dashmap_laws_axioms assoc_map.dashmap_laws_axioms, of "\<lambda>n. n - 1" Suc
      "[(\<lparr>env_a = None :: nat option, env_a2 = None, env_b = None :: nat option, a_first = True,
         other_ran = False\<rparr>, Register (1 :: nat) (4 :: nat)),
       (\<lparr>env_a = None, env_a2 = None, env_b = None, a_first = False, other_ran = False\<rparr>, Deregister 1)]"]
  by (simp add: quiet_def)

interpretation cached_memory:
  cache_registry "\<lambda>s. dm_get assoc_dashmap (tunnels s)" "\<lambda>i. i" "\<lambda>_. True" "in_memory_lookup assoc_dashmap"
    "in_memory_register assoc_dashmap" "in_memory_deregister assoc_dashmap"
    "in_memory_deregister_identifier assoc_dashmap"
    "\<lambda>s. dm_get assoc_dashmap (tunnels s)" "\<lambda>i. i" "\<lambda>_. True" "in_memory_lookup assoc_dashmap"
    "in_memory_register assoc_dashmap" "in_memory_deregister assoc_dashmap"
    "in_memory_deregister_identifier assoc_dashmap" "\<lambda>r. r" "\<lambda>r. r"
  by (rule in_memory_cache_registry) (simp_all add: assoc_map.dashmap_laws_axioms)

interpretation mapped_memory:
  mapped_registry "\<lambda>s. dm_get assoc_dashmap (tunnels s)" "\<lambda>i. i" "\<lambda>_. True" "in_memory_lookup assoc_dashmap"
    "in_memory_register assoc_dashmap" "in_memory_deregister assoc_dashmap"
    "in_memory_deregister_identifier assoc_dashmap"
    Inr "\<lambda>q. case q of Inl _ \<Rightarrow> None | Inr r \<Rightarrow> Some r" Inr "\<lambda>k. case k of Inl _ \<Rightarrow> None | Inr i \<Rightarrow> Some i"
    "\<lambda>e. e"
  by unfold_locales (auto split: sum.splits)

end
