(* ===== verification/Ip_Text.thy ===== *)
theory Ip_Text
  imports Rust_Strings
begin

text \<open>
  IP and socket addresses of \<open>std::net\<close>, with the text formats the code prints and parses:
  the recursive-descent reader of the standard library for IPv4 and IPv6 addresses and their
  \<open>Display\<close> implementations, including the compression of zero groups and the
  IPv4-mapped form. Printing an address and parsing the text gives the address back.
\<close>

section \<open>Addresses\<close>

datatype ipv4 = Ipv4 (o1: byte) (o2: byte) (o3: byte) (o4: byte)

type_synonym ipv6 = "16 word list"

definition ipv6_wf :: "ipv6 \<Rightarrow> bool" where
  "ipv6_wf a \<longleftrightarrow> length a = 8"

datatype ip_addr = V4 ipv4 | V6 ipv6

datatype socket_addr =
    SockV4 ipv4 port
  | SockV6 ipv6 port (flowinfo: "32 word") (scope_id: "32 word")

fun socket_addr_new :: "ip_addr \<Rightarrow> port \<Rightarrow> socket_addr" where
  "socket_addr_new (V4 a) p = SockV4 a p"
| "socket_addr_new (V6 a) p = SockV6 a p 0 0"

fun socket_ip :: "socket_addr \<Rightarrow> ip_addr" where
  "socket_ip (SockV4 a p) = V4 a"
| "socket_ip (SockV6 a p f s) = V6 a"

fun socket_port :: "socket_addr \<Rightarrow> port" where
  "socket_port (SockV4 a p) = p"
| "socket_port (SockV6 a p f s) = p"

definition ipv4_localhost :: ipv4 where
  "ipv4_localhost = Ipv4 127 0 0 1"

definition ipv6_localhost :: ipv6 where
  "ipv6_localhost = [0, 0, 0, 0, 0, 0, 0, 1]"

fun is_loopback :: "ip_addr \<Rightarrow> bool" where
  "is_loopback (V4 a) \<longleftrightarrow> o1 a = 127"
| "is_loopback (V6 a) \<longleftrightarrow> a = ipv6_localhost"

section \<open>The reader\<close>

definition to_digit :: "nat \<Rightarrow> rchar \<Rightarrow> nat option" where
  "to_digit radix c =
    (let d = (if 48 \<le> c \<and> c < 58 then Some (c - 48)
              else if 97 \<le> c \<and> c < 123 then Some (c - 87)
              else if 65 \<le> c \<and> c < 91 then Some (c - 55)
              else None)
     in case d of Some v \<Rightarrow> if v < radix then Some v else None | None \<Rightarrow> None)"

text \<open>\<open>mx\<close> is the largest value of the integer type; the result carries the digit count.\<close>

fun read_digits :: "nat \<Rightarrow> nat \<Rightarrow> nat \<Rightarrow> nat \<Rightarrow> nat \<Rightarrow> rstr \<Rightarrow> (nat \<times> nat \<times> rstr) option" where
  "read_digits radix mx max_digits n acc [] = Some (acc, n, [])"
| "read_digits radix mx max_digits n acc (c # cs) =
    (case to_digit radix c of
       None \<Rightarrow> Some (acc, n, c # cs)
     | Some d \<Rightarrow>
         if mx < acc * radix + d then None
         else if max_digits < Suc n then None
         else read_digits radix mx max_digits (Suc n) (acc * radix + d) cs)"

definition read_number :: "nat \<Rightarrow> nat \<Rightarrow> nat \<Rightarrow> bool \<Rightarrow> rstr \<Rightarrow> (nat \<times> rstr) option" where
  "read_number radix mx max_digits allow_zero_prefix s =
    (case read_digits radix mx max_digits 0 0 s of
       None \<Rightarrow> None
     | Some (v, n, rest) \<Rightarrow>
         if n = 0 then None
         else if \<not> allow_zero_prefix \<and> take 1 s = [48] \<and> 1 < n then None
         else Some (v, rest))"

definition read_given_char :: "rchar \<Rightarrow> rstr \<Rightarrow> rstr option" where
  "read_given_char c s = (case s of [] \<Rightarrow> None | d # ds \<Rightarrow> if d = c then Some ds else None)"

definition read_separator ::
  "rchar \<Rightarrow> nat \<Rightarrow> (rstr \<Rightarrow> ('a \<times> rstr) option) \<Rightarrow> rstr \<Rightarrow> ('a \<times> rstr) option" where
  "read_separator sep i inner s =
    (if 0 < i then Option.bind (read_given_char sep s) inner else inner s)"

abbreviation dot :: rchar where "dot \<equiv> 46"
abbreviation colon :: rchar where "colon \<equiv> 58"

definition read_octet :: "nat \<Rightarrow> rstr \<Rightarrow> (nat \<times> rstr) option" where
  "read_octet i = read_separator dot i (read_number 10 255 3 False)"

definition read_ipv4_addr :: "rstr \<Rightarrow> (ipv4 \<times> rstr) option" where
  "read_ipv4_addr s =
    Option.bind (read_octet 0 s) (\<lambda>(a, s1).
    Option.bind (read_octet 1 s1) (\<lambda>(b, s2).
    Option.bind (read_octet 2 s2) (\<lambda>(c, s3).
    Option.bind (read_octet 3 s3) (\<lambda>(d, s4).
      Some (Ipv4 (of_nat a) (of_nat b) (of_nat c) (of_nat d), s4)))))"

definition ipv4_groups :: "ipv4 \<Rightarrow> 16 word list" where
  "ipv4_groups a = [of_nat (unat (o1 a) * 256 + unat (o2 a)), of_nat (unat (o3 a) * 256 + unat (o4 a))]"

fun read_groups :: "nat \<Rightarrow> nat \<Rightarrow> rstr \<Rightarrow> 16 word list \<times> bool \<times> rstr" where
  "read_groups i 0 s = ([], False, s)"
| "read_groups i (Suc n) s =
    (case (if 0 < n then read_separator colon i read_ipv4_addr s else None) of
       Some (v4, s') \<Rightarrow> (ipv4_groups v4, True, s')
     | None \<Rightarrow>
         (case read_separator colon i (read_number 16 65535 4 True) s of
            None \<Rightarrow> ([], False, s)
          | Some (g, s') \<Rightarrow>
              (case read_groups (Suc i) n s' of (gs, v4, rest) \<Rightarrow> (of_nat g # gs, v4, rest))))"

definition read_ipv6_addr :: "rstr \<Rightarrow> (ipv6 \<times> rstr) option" where
  "read_ipv6_addr s =
    (case read_groups 0 8 s of (head, head_ipv4, s1) \<Rightarrow>
       if length head = 8 then Some (head, s1)
       else if head_ipv4 then None
       else Option.bind (read_given_char colon s1) (\<lambda>s2.
            Option.bind (read_given_char colon s2) (\<lambda>s3.
              case read_groups 0 (8 - (length head + 1)) s3 of (tail, _, s4) \<Rightarrow>
                Some (head @ replicate (8 - length head - length tail) 0 @ tail, s4))))"

definition parse_ipv4 :: "rstr \<Rightarrow> ipv4 option" where
  "parse_ipv4 s =
    (if 15 < length (utf8 s) then None
     else case read_ipv4_addr s of Some (a, []) \<Rightarrow> Some a | _ \<Rightarrow> None)"

definition parse_ipv6 :: "rstr \<Rightarrow> ipv6 option" where
  "parse_ipv6 s = (case read_ipv6_addr s of Some (a, []) \<Rightarrow> Some a | _ \<Rightarrow> None)"

section \<open>Printing\<close>

definition show_ipv4 :: "ipv4 \<Rightarrow> rstr" where
  "show_ipv4 a = show_nat (unat (o1 a)) @ [dot] @ show_nat (unat (o2 a)) @ [dot]
     @ show_nat (unat (o3 a)) @ [dot] @ show_nat (unat (o4 a))"

definition hex_digit :: "nat \<Rightarrow> rchar" where
  "hex_digit d = (if d < 10 then 48 + d else 87 + d)"

fun show_hex :: "nat \<Rightarrow> rstr" where
  "show_hex n = (if n < 16 then [hex_digit n] else show_hex (n div 16) @ [hex_digit (n mod 16)])"

declare show_hex.simps [simp del]

fun show_groups :: "16 word list \<Rightarrow> rstr" where
  "show_groups [] = []"
| "show_groups [g] = show_hex (unat g)"
| "show_groups (g # gs) = show_hex (unat g) @ [colon] @ show_groups gs"

text \<open>The first longest run of zero groups, as its start and length.\<close>

fun longest_zeros :: "16 word list \<Rightarrow> nat \<Rightarrow> nat \<times> nat \<Rightarrow> nat \<times> nat \<Rightarrow> nat \<times> nat" where
  "longest_zeros [] i longest current = longest"
| "longest_zeros (g # gs) i longest current =
    (if g = 0 then
       (let current' = (if snd current = 0 then (i, 1) else (fst current, snd current + 1));
            longest' = (if snd current' > snd longest then current' else longest)
        in longest_zeros gs (Suc i) longest' current')
     else longest_zeros gs (Suc i) longest (0, 0))"

definition show_ipv6 :: "ipv6 \<Rightarrow> rstr" where
  "show_ipv6 a =
    (if take 6 a = [0, 0, 0, 0, 0, 0xffff] then
       lit ''::ffff:'' @ show_ipv4 (Ipv4 (of_nat (unat (a ! 6) div 256)) (of_nat (unat (a ! 6) mod 256))
         (of_nat (unat (a ! 7) div 256)) (of_nat (unat (a ! 7) mod 256)))
     else
       (let (start, len) = longest_zeros a 0 (0, 0) (0, 0) in
        if len > 1 then show_groups (take start a) @ [colon, colon] @ show_groups (drop (start + len) a)
        else show_groups a))"

section \<open>Reading digits back\<close>

lemma read_digits_append:
  "(\<forall>c \<in> set s. to_digit b c \<noteq> None) \<Longrightarrow>
    read_digits b mx md k acc (s @ t) =
      (case read_digits b mx md k acc s of None \<Rightarrow> None | Some (v, n, _) \<Rightarrow> read_digits b mx md n v t)"
  by (induction s arbitrary: k acc) (auto split: option.splits)

lemma read_digits_printed:
  fixes f :: "nat \<Rightarrow> rstr"
  assumes f: "\<And>n. f n = (if n < b then [dig n] else f (n div b) @ [dig (n mod b)])"
    and dig: "\<And>d. d < b \<Longrightarrow> to_digit b (dig d) = Some d" and b: "1 < b"
  shows "n \<le> mx \<Longrightarrow> length (f n) \<le> md \<Longrightarrow> read_digits b mx md 0 0 (f n) = Some (n, length (f n), [])
    \<and> (\<forall>c \<in> set (f n). to_digit b c \<noteq> None)"
proof (induction n rule: less_induct)
  case (less n)
  show ?case
  proof (cases "n < b")
    case True
    then have "f n = [dig n]" by (simp add: f [of n])
    then show ?thesis using True dig [OF True] less.prems by simp
  next
    case False
    then have n: "f n = f (n div b) @ [dig (n mod b)]" by (simp add: f [of n])
    have lt: "n div b < n" using False b by (intro div_less_dividend) auto
    have "n div b \<le> mx" using less.prems(1) lt by linarith
    then have ih: "read_digits b mx md 0 0 (f (n div b)) = Some (n div b, length (f (n div b)), [])"
      "\<forall>c \<in> set (f (n div b)). to_digit b c \<noteq> None"
      using less.IH [OF lt] less.prems(2) n by auto
    have m: "to_digit b (dig (n mod b)) = Some (n mod b)" using dig b by simp
    have "n div b * b + n mod b = n" by simp
    then show ?thesis
      using ih m less.prems n by (simp add: read_digits_append)
  qed
qed

lemma to_digit_dec: "d < 10 \<Longrightarrow> to_digit 10 (48 + d) = Some d"
  by (simp add: to_digit_def)

lemma to_digit_hex: "d < 16 \<Longrightarrow> to_digit 16 (hex_digit d) = Some d"
  by (auto simp: to_digit_def hex_digit_def)

lemma length_show_nat_octet: "n < 256 \<Longrightarrow> length (show_nat n) \<le> 3"
  by (simp add: show_nat.simps [of n] show_nat.simps [of "n div 10"] show_nat.simps [of "n div 10 div 10"])

lemma length_show_hex_group: "n < 65536 \<Longrightarrow> length (show_hex n) \<le> 4"
proof -
  assume "n < 65536"
  then have "n div 16 div 16 div 16 < 16" by simp
  then show ?thesis
    by (simp add: show_hex.simps [of n] show_hex.simps [of "n div 16"]
        show_hex.simps [of "n div 16 div 16"] show_hex.simps [of "n div 16 div 16 div 16"])
qed

lemma hd_show_nat: "0 < n \<Longrightarrow> hd (show_nat n) \<noteq> 48"
proof (induction n rule: show_nat.induct)
  case (1 n)
  then show ?case
    by (cases "n < 10") (simp_all add: show_nat.simps [of n])
qed

definition not_digit_next :: "nat \<Rightarrow> rstr \<Rightarrow> bool" where
  "not_digit_next radix s \<longleftrightarrow> (case s of [] \<Rightarrow> True | c # _ \<Rightarrow> to_digit radix c = None)"

lemma read_digits_stop: "not_digit_next b t \<Longrightarrow> read_digits b mx md n v t = Some (v, n, t)"
  by (cases t) (auto simp: not_digit_next_def)

lemma show_nat_leading_zero: "take 1 (show_nat n) = [48] \<Longrightarrow> length (show_nat n) = 1"
proof -
  assume z: "take 1 (show_nat n) = [48]"
  then have "hd (show_nat n) = 48" by (cases "show_nat n") auto
  then have "n = 0" using hd_show_nat [of n] by (cases "n = 0") auto
  then show ?thesis by (simp add: show_nat.simps)
qed

lemma read_octet_number:
  assumes "n < 256" "not_digit_next 10 t"
  shows "read_number 10 255 3 False (show_nat n @ t) = Some (n, t)"
proof -
  have r: "read_digits 10 255 3 0 0 (show_nat n) = Some (n, length (show_nat n), [])"
    "\<forall>c \<in> set (show_nat n). to_digit 10 c \<noteq> None"
    using read_digits_printed [of show_nat 10 "\<lambda>d. 48 + d" n 255 3] show_nat.simps to_digit_dec
      length_show_nat_octet assms(1) by auto
  have "take 1 (show_nat n @ t) = take 1 (show_nat n)"
    by (cases "show_nat n") (auto simp: show_nat_not_Nil)
  then show ?thesis
    using r assms(2) show_nat_leading_zero [of n]
    by (auto simp: read_number_def read_digits_append read_digits_stop)
qed

lemma read_group_number:
  assumes "n < 65536" "not_digit_next 16 t"
  shows "read_number 16 65535 4 True (show_hex n @ t) = Some (n, t)"
proof -
  have r: "read_digits 16 65535 4 0 0 (show_hex n) = Some (n, length (show_hex n), [])"
    "\<forall>c \<in> set (show_hex n). to_digit 16 c \<noteq> None"
    using read_digits_printed [of show_hex 16 hex_digit n 65535 4] show_hex.simps to_digit_hex
      length_show_hex_group assms(1) by auto
  have "show_hex n \<noteq> []" by (subst show_hex.simps) simp
  then show ?thesis
    using r assms(2) by (simp add: read_number_def read_digits_append read_digits_stop)
qed

section \<open>IPv4 round trip\<close>

lemma read_ipv4_show:
  assumes "not_digit_next 10 t"
  shows "read_ipv4_addr (show_ipv4 a @ t) = Some (a, t)"
proof -
  have d: "not_digit_next 10 (dot # u)" for u by (simp add: not_digit_next_def to_digit_def)
  have o: "read_octet 0 (show_nat (unat w) @ u) = Some (unat w, u)"
    "0 < i \<Longrightarrow> read_octet i (dot # show_nat (unat w) @ u) = Some (unat w, u)"
    if "not_digit_next 10 u" for u i and w :: byte
    using read_octet_number [OF unat_byte_less that]
    by (simp_all add: read_octet_def read_separator_def read_given_char_def)
  show ?thesis
    using assms by (simp add: show_ipv4_def read_ipv4_addr_def o d)
qed

lemma show_ipv4_chars: "c \<in> set (show_ipv4 a) \<Longrightarrow> is_digit c \<or> c = dot"
  by (auto simp: show_ipv4_def dest: show_nat_digits)

lemma length_utf8_ascii: "(\<forall>c \<in> set s. c < 128) \<Longrightarrow> length (utf8 s) = length s"
  by (induction s) (auto simp: utf8_char_def)

lemma parse_show_ipv4: "parse_ipv4 (show_ipv4 a) = Some a"
proof -
  have "length (show_nat (unat w)) \<le> 3" for w :: byte
    by (rule length_show_nat_octet) simp
  from this [of "o1 a"] this [of "o2 a"] this [of "o3 a"] this [of "o4 a"]
  have "length (show_ipv4 a) \<le> 15" by (simp add: show_ipv4_def)
  moreover have "\<forall>c \<in> set (show_ipv4 a). c < 128"
    by (auto simp: is_digit_def dest!: show_ipv4_chars)
  ultimately have "length (utf8 (show_ipv4 a)) \<le> 15"
    by (simp add: length_utf8_ascii)
  then show ?thesis
    using read_ipv4_show [of "[]" a] by (simp add: parse_ipv4_def not_digit_next_def)
qed

section \<open>IPv6 round trip\<close>

lemma read_digits_rest: "read_digits b mx md n acc s = Some (v, k, rest) \<Longrightarrow> set rest \<subseteq> set s"
  by (induction b mx md n acc s rule: read_digits.induct) (auto split: option.splits if_splits)

lemma no_ipv4_without_dot: "dot \<notin> set s \<Longrightarrow> read_ipv4_addr s = None"
proof (cases "read_octet 0 s")
  case (Some as)
  assume d: "dot \<notin> set s"
  obtain a s1 where as: "as = (a, s1)" by fastforce
  then have "set s1 \<subseteq> set s"
    using Some by (auto simp: read_octet_def read_separator_def read_number_def
        dest!: read_digits_rest split: option.splits if_splits)
  then have "read_octet 1 s1 = None"
    using d by (auto simp: read_octet_def read_separator_def read_given_char_def split: list.splits)
  then show ?thesis using Some as by (simp add: read_ipv4_addr_def)
qed (simp add: read_ipv4_addr_def)

lemma show_hex_chars: "c \<in> set (show_hex n) \<Longrightarrow> to_digit 16 c \<noteq> None"
proof (induction n rule: show_hex.induct)
  case (1 n)
  have "n mod 16 < 16" by simp
  then show ?case
    using 1 by (cases "n < 16") (auto simp: show_hex.simps [of n] to_digit_hex)
qed

lemma show_hex_no_punct [simp]: "dot \<notin> set (show_hex n)" "colon \<notin> set (show_hex n)"
  using show_hex_chars [of dot n] show_hex_chars [of colon n] by (auto simp: to_digit_def)

definition sep_groups :: "nat \<Rightarrow> 16 word list \<Rightarrow> rstr" where
  "sep_groups i gs = (if i = 0 then show_groups gs else concat (map (\<lambda>g. colon # show_hex (unat g)) gs))"

lemma show_groups_Cons: "show_groups (g # gs) = show_hex (unat g) @ sep_groups 1 gs"
  by (induction gs arbitrary: g) (auto simp: sep_groups_def)

lemma sep_groups_simps [simp]:
  "sep_groups i [] = []"
  "sep_groups i (g # gs) = (if i = 0 then [] else [colon]) @ show_hex (unat g) @ sep_groups (Suc i) gs"
  using show_groups_Cons [of g gs] by (auto simp: sep_groups_def)

lemma sep_groups_no_dot [simp]: "dot \<notin> set (sep_groups i gs)"
  by (induction gs arbitrary: i) auto

definition group_stop :: "nat \<Rightarrow> rstr \<Rightarrow> bool" where
  "group_stop i s \<longleftrightarrow> read_separator colon i (read_number 16 65535 4 True) s = None"

lemma not_digit_sep: "not_digit_next 16 t \<Longrightarrow> not_digit_next 16 (sep_groups (Suc i) gs @ t)"
  by (cases gs) (auto simp: not_digit_next_def to_digit_def)

lemma no_ipv4_sep: "dot \<notin> set s \<Longrightarrow> read_separator colon i read_ipv4_addr s = None"
  by (auto simp: read_separator_def read_given_char_def no_ipv4_without_dot split: list.splits)

lemma read_groups_sep:
  assumes "dot \<notin> set t"
  shows "length gs \<le> n \<Longrightarrow> (length gs < n \<Longrightarrow> group_stop (i + length gs) t) \<Longrightarrow>
    (gs \<noteq> [] \<Longrightarrow> not_digit_next 16 t) \<Longrightarrow>
    read_groups i n (sep_groups i gs @ t) = (gs, False, t)"
proof (induction gs arbitrary: i n)
  case Nil
  then show ?case
    using no_ipv4_sep [OF assms, of i] by (cases n) (auto simp: group_stop_def)
next
  case (Cons g gs)
  then obtain m where n: "n = Suc m" by (cases n) auto
  have nd: "not_digit_next 16 (sep_groups (Suc i) gs @ t)"
    using Cons.prems(3) by (intro not_digit_sep) simp
  have "read_separator colon i (read_number 16 65535 4 True) (sep_groups i (g # gs) @ t) =
      Some (unat g, sep_groups (Suc i) gs @ t)"
    using read_group_number [OF unat_word16_less nd, of g]
    by (cases "i = 0") (simp_all add: read_separator_def read_given_char_def)
  moreover have "read_separator colon i read_ipv4_addr (sep_groups i (g # gs) @ t) = None"
    using assms by (intro no_ipv4_sep) auto
  moreover have "read_groups (Suc i) m (sep_groups (Suc i) gs @ t) = (gs, False, t)"
    using Cons.prems n by (intro Cons.IH) auto
  ultimately show ?case
    unfolding n read_groups.simps(2)
    by (cases "m = 0") (simp_all del: sep_groups_simps read_groups.simps)
qed

lemma group_stop_colons: "group_stop i (colon # colon # t)" "group_stop i []"
  by (simp_all add: group_stop_def read_separator_def read_given_char_def read_number_def to_digit_def)

lemma read_ipv6_full:
  "length a = 8 \<Longrightarrow> parse_ipv6 (show_groups a) = Some a"
  using read_groups_sep [of "[]" a 8 0]
  by (simp add: parse_ipv6_def read_ipv6_addr_def sep_groups_def not_digit_next_def)

lemma read_ipv6_compressed:
  assumes "length h + length t + l = 8" "1 < l"
  shows "parse_ipv6 (show_groups h @ [colon, colon] @ show_groups t) = Some (h @ replicate l 0 @ t)"
proof -
  have "read_groups 0 8 (sep_groups 0 h @ colon # colon # show_groups t) =
      (h, False, colon # colon # show_groups t)"
    using assms group_stop_colons sep_groups_no_dot [of 0 t]
    by (intro read_groups_sep) (auto simp: not_digit_next_def to_digit_def sep_groups_def)
  moreover have "read_groups 0 (8 - (length h + 1)) (sep_groups 0 t @ []) = (t, False, [])"
    using assms group_stop_colons by (intro read_groups_sep) (auto simp: not_digit_next_def)
  moreover have "8 - length h - length t = l" using assms by linarith
  ultimately show ?thesis
    using assms by (simp add: parse_ipv6_def read_ipv6_addr_def sep_groups_def read_given_char_def)
qed

text \<open>A position and length that name a run of zeros in the groups seen so far.\<close>

definition zero_run :: "16 word list \<Rightarrow> nat \<times> nat \<Rightarrow> bool" where
  "zero_run gs r \<longleftrightarrow> (snd r = 0 \<or> fst r + snd r \<le> length gs) \<and>
     (\<forall>i. fst r \<le> i \<and> i < fst r + snd r \<longrightarrow> gs ! i = 0)"

lemma zero_run_snoc: "zero_run gs r \<Longrightarrow> zero_run (gs @ [g]) r"
  by (auto simp: zero_run_def nth_append)

lemma longest_zeros_run:
  "zero_run pre lg \<Longrightarrow> zero_run pre cur \<Longrightarrow> (snd cur \<noteq> 0 \<longrightarrow> fst cur + snd cur = length pre) \<Longrightarrow>
    zero_run (pre @ gs) (longest_zeros gs (length pre) lg cur)"
proof (induction gs arbitrary: pre lg cur)
  case (Cons g gs)
  show ?case
  proof (cases "g = 0")
    case True
    define cur' where "cur' = (if snd cur = 0 then (length pre, 1) else (fst cur, snd cur + 1))"
    define lg' where "lg' = (if snd cur' > snd lg then cur' else lg)"
    have c: "zero_run (pre @ [g]) cur'" "fst cur' + snd cur' = length (pre @ [g])"
      using Cons.prems(2,3) True by (auto simp: cur'_def zero_run_def nth_append less_Suc_eq)
    then have "zero_run (pre @ [g]) lg'"
      using zero_run_snoc [OF Cons.prems(1)] by (simp add: lg'_def)
    from Cons.IH [OF this c(1)] c(2)
    have "zero_run (pre @ g # gs) (longest_zeros gs (Suc (length pre)) lg' cur')" by simp
    moreover have "longest_zeros (g # gs) (length pre) lg cur = longest_zeros gs (Suc (length pre)) lg' cur'"
      using True unfolding cur'_def lg'_def longest_zeros.simps(2) Let_def by simp
    ultimately show ?thesis by simp
  next
    case False
    have "zero_run (pre @ [g]) (0, 0)" by (simp add: zero_run_def)
    from Cons.IH [OF zero_run_snoc [OF Cons.prems(1)] this] False show ?thesis by simp
  qed
qed simp

lemma zero_run_split:
  assumes "zero_run gs (st, l)" "l \<noteq> 0"
  shows "take st gs @ replicate l 0 @ drop (st + l) gs = gs"
  using assms by (intro nth_equalityI) (auto simp: zero_run_def nth_append min_def)

lemma replicate_5: "replicate 5 x = [x, x, x, x, x]"
  by (simp add: eval_nat_numeral)

lemma parse_show_mapped:
  assumes "take 6 a = [0, 0, 0, 0, 0, 0xffff]" "ipv6_wf a"
  shows "parse_ipv6 (show_ipv6 a) = Some a"
proof -
  obtain x y where a: "a = [0, 0, 0, 0, 0, 0xffff, x, y]"
    using assms unfolding ipv6_wf_def
    by (auto simp: eval_nat_numeral length_Suc_conv take_Suc_conv_app_nth)
  let ?v = "Ipv4 (of_nat (unat x div 256)) (of_nat (unat x mod 256))
         (of_nat (unat y div 256)) (of_nat (unat y mod 256)) :: ipv4"
  have b: "unat (of_nat (unat w div 256) :: byte) * 256 + unat (of_nat (unat w mod 256) :: byte) = unat w"
    for w :: "16 word"
    using unat_word16_less [of w] by (simp add: unat_of_nat less_mult_imp_div_less)
  have g: "ipv4_groups ?v = [x, y]" unfolding ipv4_groups_def ipv4.sel b by simp
  have r: "read_ipv4_addr (show_ipv4 ?v) = Some (?v, [])"
    using read_ipv4_show [of "[]" ?v] by (simp add: not_digit_next_def)
  have n: "read_ipv4_addr (102 # 102 # 102 # 102 # s) = None" "read_ipv4_addr (58 # s) = None" for s
    by (simp_all add: read_ipv4_addr_def read_octet_def read_separator_def read_number_def to_digit_def)
  let ?t = "colon # show_ipv4 ?v" and ?f = "[102, 102, 102, 102] :: rstr"
  have nn: "read_number 16 65535 4 True (colon # s) = None" for s
    by (simp add: read_number_def to_digit_def)
  have nf: "read_number 16 65535 4 True (?f @ ?t) = Some (65535, ?t)"
    using read_group_number [of 65535 ?t]
    by (simp add: show_hex.simps hex_digit_def not_digit_next_def to_digit_def)
  have h: "read_groups 0 (Suc 7) (colon # colon # ?f @ ?t) = ([], False, colon # colon # ?f @ ?t)"
    unfolding read_groups.simps(2) using n nn by (simp add: read_separator_def)
  have t1: "read_groups (Suc 0) 6 ?t = (ipv4_groups ?v, True, [])"
    using r read_groups.simps(2) [of "Suc 0" 5 ?t] by (simp add: read_separator_def read_given_char_def)
  have t: "read_groups 0 7 (?f @ ?t) = ([0xffff, x, y], True, [])"
    using n nf g t1 read_groups.simps(2) [of 0 6 "?f @ ?t"] by (simp add: read_separator_def)
  have "read_ipv6_addr (colon # colon # ?f @ ?t) = Some (a, [])"
    using h t by (simp add: read_ipv6_addr_def read_given_char_def a replicate_5 del: read_groups.simps)
  moreover have "show_ipv6 a = colon # colon # ?f @ ?t"
    by (simp add: a show_ipv6_def lit_def)
  ultimately show ?thesis by (simp add: parse_ipv6_def)
qed

lemma parse_show_ipv6:
  assumes "ipv6_wf a"
  shows "parse_ipv6 (show_ipv6 a) = Some a"
proof (cases "take 6 a = [0, 0, 0, 0, 0, 0xffff]")
  case True
  then show ?thesis using assms by (rule parse_show_mapped)
next
  case False
  obtain st l where z: "longest_zeros a 0 (0, 0) (0, 0) = (st, l)" by fastforce
  have run: "zero_run a (st, l)"
    using longest_zeros_run [of "[]" "(0, 0)" "(0, 0)" a] z by (simp add: zero_run_def)
  show ?thesis
  proof (cases "1 < l")
    case l: True
    have "st + l \<le> 8" using run l assms by (auto simp: zero_run_def ipv6_wf_def)
    then have "parse_ipv6 (show_groups (take st a) @ [colon, colon] @ show_groups (drop (st + l) a)) =
        Some (take st a @ replicate l 0 @ drop (st + l) a)"
      using assms l by (intro read_ipv6_compressed) (auto simp: ipv6_wf_def)
    then show ?thesis
      using False l z zero_run_split [OF run] by (simp add: show_ipv6_def)
  next
    case l: False
    then show ?thesis
      using False z assms read_ipv6_full by (simp add: show_ipv6_def ipv6_wf_def)
  qed
qed

end
