(* ===== verification/Streams.thy ===== *)
theory Streams
  imports Prelude
begin

text \<open>
  The byte-stream adaptors: \<open>Unsplit\<close> and the proxying helpers of \<open>util/mod.rs\<close>,
  and \<open>QuinnTunnelStream\<close>, \<open>QuinnTunnelRefStream\<close> and \<open>WrappedStream\<close> of
  \<open>util/tunnel_stream.rs\<close>. A stream implementation is a record of poll functions over its
  state, so an adaptor maps records to records. The adaptors built from a writing and a reading
  half keep the two halves apart: any sequence of calls is seen by each half as the calls meant
  for it, in order, with the answers of that half.
\<close>

section \<open>The stream traits\<close>

text \<open>
  \<open>poll_read n\<close> polls with a \<open>ReadBuf\<close> of \<open>n\<close> unfilled bytes and returns the bytes
  put there. The type \<open>'e\<close> stands for \<open>std::io::Error\<close>.
\<close>

record ('r, 'e) async_read =
  poll_read :: "nat \<Rightarrow> 'r \<Rightarrow> ('e, byte list) result poll \<times> 'r"

record ('r, 'e) async_buf_read = "('r, 'e) async_read" +
  poll_fill_buf :: "'r \<Rightarrow> ('e, byte list) result poll \<times> 'r"
  consume :: "nat \<Rightarrow> 'r \<Rightarrow> 'r"

record ('w, 'e) async_write =
  poll_write :: "byte list \<Rightarrow> 'w \<Rightarrow> ('e, nat) result poll \<times> 'w"
  poll_flush :: "'w \<Rightarrow> ('e, unit) result poll \<times> 'w"
  poll_shutdown :: "'w \<Rightarrow> ('e, unit) result poll \<times> 'w"
  poll_write_vectored :: "byte list list \<Rightarrow> 'w \<Rightarrow> ('e, nat) result poll \<times> 'w"
  is_write_vectored :: "'w \<Rightarrow> bool"

text \<open>The provided methods of \<open>AsyncWrite\<close>: the first non-empty slice is written.\<close>

definition default_write_vectored ::
  "(byte list \<Rightarrow> 'w \<Rightarrow> ('e, nat) result poll \<times> 'w) \<Rightarrow> byte list list \<Rightarrow> 'w \<Rightarrow> ('e, nat) result poll \<times> 'w" where
  "default_write_vectored pw bufs w =
    pw (case filter (\<lambda>b. b \<noteq> []) bufs of [] \<Rightarrow> [] | b # _ \<Rightarrow> b) w"

definition writer_of ::
  "(byte list \<Rightarrow> 'w \<Rightarrow> ('e, nat) result poll \<times> 'w) \<Rightarrow> ('w \<Rightarrow> ('e, unit) result poll \<times> 'w) \<Rightarrow>
   ('w \<Rightarrow> ('e, unit) result poll \<times> 'w) \<Rightarrow> ('w, 'e) async_write" where
  "writer_of pw pf ps = \<lparr>poll_write = pw, poll_flush = pf, poll_shutdown = ps,
     poll_write_vectored = default_write_vectored pw, is_write_vectored = (\<lambda>_. False)\<rparr>"

text \<open>Running a poll function on one half of a pair.\<close>

definition on_fst :: "('w \<Rightarrow> 'a \<times> 'w) \<Rightarrow> 'w \<times> 'r \<Rightarrow> 'a \<times> 'w \<times> 'r" where
  "on_fst f s = (case f (fst s) of (a, w) \<Rightarrow> (a, w, snd s))"

definition on_snd :: "('r \<Rightarrow> 'a \<times> 'r) \<Rightarrow> 'w \<times> 'r \<Rightarrow> 'a \<times> 'w \<times> 'r" where
  "on_snd f s = (case f (snd s) of (a, r) \<Rightarrow> (a, fst s, r))"

section \<open>Unsplit\<close>

definition unsplit_read :: "('r, 'e) async_read \<Rightarrow> ('w \<times> 'r, 'e) async_read" where
  "unsplit_read R = \<lparr>poll_read = \<lambda>n. on_snd (poll_read R n)\<rparr>"

definition unsplit_buf_read :: "('r, 'e) async_buf_read \<Rightarrow> ('w \<times> 'r, 'e) async_buf_read" where
  "unsplit_buf_read R =
    \<lparr>poll_read = \<lambda>n. on_snd (poll_read R n),
     poll_fill_buf = on_snd (poll_fill_buf R),
     consume = \<lambda>amt (w, r). (w, consume R amt r)\<rparr>"

definition unsplit_write :: "('w, 'e) async_write \<Rightarrow> ('w \<times> 'r, 'e) async_write" where
  "unsplit_write W =
    \<lparr>poll_write = \<lambda>buf. on_fst (poll_write W buf),
     poll_flush = on_fst (poll_flush W),
     poll_shutdown = on_fst (poll_shutdown W),
     poll_write_vectored = \<lambda>bufs. on_fst (poll_write_vectored W bufs),
     is_write_vectored = (\<lambda>(w, r). is_write_vectored W w)\<rparr>"

section \<open>Quinn streams\<close>

text \<open>
  A \<open>QuinnTunnelStream\<close> and a \<open>QuinnTunnelRefStream\<close> hold quinn's send stream first and
  its receive stream second.
\<close>

definition quinn_ref_stream_new :: "'w \<Rightarrow> 'r \<Rightarrow> 'w \<times> 'r" where
  "quinn_ref_stream_new send recv = (send, recv)"

definition quinn_stream_new :: "'w \<times> 'r \<Rightarrow> 'w \<times> 'r" where
  "quinn_stream_new streams = (fst streams, snd streams)"

definition as_ref_tunnel_stream :: "'w \<times> 'r \<Rightarrow> 'w \<times> 'r" where
  "as_ref_tunnel_stream self = quinn_ref_stream_new (fst self) (snd self)"

definition quinn_ref_write :: "('w, 'e) async_write \<Rightarrow> ('w \<times> 'r, 'e) async_write" where
  "quinn_ref_write W = writer_of (\<lambda>buf. on_fst (poll_write W buf)) (on_fst (poll_flush W))
     (on_fst (poll_shutdown W))"

definition quinn_write :: "('w, 'e) async_write \<Rightarrow> ('w \<times> 'r, 'e) async_write" where
  "quinn_write W = writer_of (\<lambda>buf. on_fst (poll_write W buf)) (on_fst (poll_flush W))
     (on_fst (poll_shutdown W))"

definition quinn_ref_read :: "('r, 'e) async_read \<Rightarrow> ('w \<times> 'r, 'e) async_read" where
  "quinn_ref_read R = \<lparr>poll_read = \<lambda>n. on_snd (poll_read R n)\<rparr>"

definition quinn_read :: "('r, 'e) async_read \<Rightarrow> ('w \<times> 'r, 'e) async_read" where
  "quinn_read R = \<lparr>poll_read = \<lambda>n. on_snd (poll_read R n)\<rparr>"

section \<open>The traits of the futures crate\<close>

text \<open>
  The \<open>futures::io\<close> view of a stream: \<open>poll_close\<close> is \<open>poll_shutdown\<close>, and
  \<open>poll_read\<close> wraps the slice into a \<open>ReadBuf\<close> and returns how much of it was filled.
  The answer carries the content of the slice beside the count.
\<close>

definition futures_poll_read ::
  "('s, 'e) async_read \<Rightarrow> nat \<Rightarrow> 's \<Rightarrow> (('e, nat) result poll \<times> byte list) \<times> 's" where
  "futures_poll_read R n s =
    (case poll_read R n s of
       (Pending, s') \<Rightarrow> ((Pending, []), s')
     | (Ready (Inl e), s') \<Rightarrow> ((Ready (Err e), []), s')
     | (Ready (Inr bs), s') \<Rightarrow> ((Ready (Ok (length bs)), bs), s'))"

definition futures_poll_close :: "('s, 'e) async_write \<Rightarrow> 's \<Rightarrow> ('e, unit) result poll \<times> 's" where
  "futures_poll_close W = poll_shutdown W"

record ('s, 'e) futures_io =
  fut_poll_read :: "nat \<Rightarrow> 's \<Rightarrow> (('e, nat) result poll \<times> byte list) \<times> 's"
  fut_poll_write :: "byte list \<Rightarrow> 's \<Rightarrow> ('e, nat) result poll \<times> 's"
  fut_poll_flush :: "'s \<Rightarrow> ('e, unit) result poll \<times> 's"
  fut_poll_close :: "'s \<Rightarrow> ('e, unit) result poll \<times> 's"

text \<open>The traits for any \<open>TunnelStream\<close>; for a QUIC stream they are written out for its halves.\<close>

definition tunnel_stream_futures :: "('s, 'e) async_read \<Rightarrow> ('s, 'e) async_write \<Rightarrow> ('s, 'e) futures_io" where
  "tunnel_stream_futures R W =
    \<lparr>fut_poll_read = futures_poll_read R, fut_poll_write = poll_write W, fut_poll_flush = poll_flush W,
     fut_poll_close = futures_poll_close W\<rparr>"

definition quinn_stream_futures :: "('r, 'e) async_read \<Rightarrow> ('w, 'e) async_write \<Rightarrow> ('w \<times> 'r, 'e) futures_io" where
  "quinn_stream_futures R W =
    \<lparr>fut_poll_read = (\<lambda>n s. case poll_read (quinn_read R) n s of
        (Pending, s') \<Rightarrow> ((Pending, []), s')
      | (Ready (Inl e), s') \<Rightarrow> ((Ready (Err e), []), s')
      | (Ready (Inr bs), s') \<Rightarrow> ((Ready (Ok (length bs)), bs), s')),
     fut_poll_write = (\<lambda>buf. on_fst (poll_write W buf)),
     fut_poll_flush = on_fst (poll_flush W),
     fut_poll_close = on_fst (poll_shutdown W)\<rparr>"

lemma quinn_stream_futures_eq: "quinn_stream_futures R W = tunnel_stream_futures (quinn_read R) (quinn_write W)"
  by (simp add: quinn_stream_futures_def tunnel_stream_futures_def futures_poll_read_def futures_poll_close_def
      quinn_write_def writer_of_def fun_eq_iff)

section \<open>Wrapped streams\<close>

datatype ('br, 'bw, 'qw, 'qr, 'd) wrapped_stream =
    Boxed 'br 'bw
  | Quinn 'qw 'qr
  | QuinnRef 'qw 'qr
  | DuplexStream 'd

definition wrapped_of_duplex :: "'d \<Rightarrow> ('br, 'bw, 'qw, 'qr, 'd) wrapped_stream" where
  "wrapped_of_duplex d = DuplexStream d"

definition wrapped_duplex ::
  "(nat \<Rightarrow> 'd \<times> 'd) \<Rightarrow> nat \<Rightarrow>
   ('br, 'bw, 'qw, 'qr, 'd) wrapped_stream \<times> ('br, 'bw, 'qw, 'qr, 'd) wrapped_stream" where
  "wrapped_duplex duplex max_buf_size =
    (case duplex max_buf_size of (a, b) \<Rightarrow> (wrapped_of_duplex a, wrapped_of_duplex b))"

text \<open>The implementations behind the alternatives of \<open>WrappedStream\<close>.\<close>

record ('br, 'bw, 'qw, 'qr, 'd, 'e) stream_impls =
  boxed_read :: "('br, 'e) async_read"
  boxed_write :: "('bw, 'e) async_write"
  quinn_send :: "('qw, 'e) async_write"
  quinn_recv :: "('qr, 'e) async_read"
  duplex_read :: "('d, 'e) async_read"
  duplex_write :: "('d, 'e) async_write"

definition wrapped_read ::
  "('br, 'bw, 'qw, 'qr, 'd, 'e) stream_impls \<Rightarrow>
   (('br, 'bw, 'qw, 'qr, 'd) wrapped_stream, 'e) async_read" where
  "wrapped_read I = \<lparr>poll_read = \<lambda>n s. case s of
       Quinn w r \<Rightarrow> (case poll_read (quinn_recv I) n r of (a, r') \<Rightarrow> (a, Quinn w r'))
     | QuinnRef w r \<Rightarrow> (case poll_read (quinn_recv I) n r of (a, r') \<Rightarrow> (a, QuinnRef w r'))
     | DuplexStream d \<Rightarrow> (case poll_read (duplex_read I) n d of (a, d') \<Rightarrow> (a, DuplexStream d'))
     | Boxed r w \<Rightarrow> (case poll_read (boxed_read I) n r of (a, r') \<Rightarrow> (a, Boxed r' w))\<rparr>"

definition wrapped_write ::
  "('br, 'bw, 'qw, 'qr, 'd, 'e) stream_impls \<Rightarrow>
   (('br, 'bw, 'qw, 'qr, 'd) wrapped_stream, 'e) async_write" where
  "wrapped_write I = writer_of
    (\<lambda>buf s. case s of
       Quinn w r \<Rightarrow> (case poll_write (quinn_send I) buf w of (a, w') \<Rightarrow> (a, Quinn w' r))
     | QuinnRef w r \<Rightarrow> (case poll_write (quinn_send I) buf w of (a, w') \<Rightarrow> (a, QuinnRef w' r))
     | DuplexStream d \<Rightarrow> (case poll_write (duplex_write I) buf d of (a, d') \<Rightarrow> (a, DuplexStream d'))
     | Boxed r w \<Rightarrow> (case poll_write (boxed_write I) buf w of (a, w') \<Rightarrow> (a, Boxed r w')))
    (\<lambda>s. case s of
       Quinn w r \<Rightarrow> (case poll_flush (quinn_send I) w of (a, w') \<Rightarrow> (a, Quinn w' r))
     | QuinnRef w r \<Rightarrow> (case poll_flush (quinn_send I) w of (a, w') \<Rightarrow> (a, QuinnRef w' r))
     | DuplexStream d \<Rightarrow> (case poll_flush (duplex_write I) d of (a, d') \<Rightarrow> (a, DuplexStream d'))
     | Boxed r w \<Rightarrow> (case poll_flush (boxed_write I) w of (a, w') \<Rightarrow> (a, Boxed r w')))
    (\<lambda>s. case s of
       Quinn w r \<Rightarrow> (case poll_shutdown (quinn_send I) w of (a, w') \<Rightarrow> (a, Quinn w' r))
     | QuinnRef w r \<Rightarrow> (case poll_shutdown (quinn_send I) w of (a, w') \<Rightarrow> (a, QuinnRef w' r))
     | DuplexStream d \<Rightarrow> (case poll_shutdown (duplex_write I) d of (a, d') \<Rightarrow> (a, DuplexStream d'))
     | Boxed r w \<Rightarrow> (case poll_shutdown (boxed_write I) w of (a, w') \<Rightarrow> (a, Boxed r w')))"

definition wrapped_stream_futures ::
  "('br, 'bw, 'qw, 'qr, 'd, 'e) stream_impls \<Rightarrow>
   (('br, 'bw, 'qw, 'qr, 'd) wrapped_stream, 'e) futures_io" where
  "wrapped_stream_futures I =
    \<lparr>fut_poll_read = futures_poll_read (wrapped_read I), fut_poll_write = poll_write (wrapped_write I),
     fut_poll_flush = poll_flush (wrapped_write I), fut_poll_close = poll_shutdown (wrapped_write I)\<rparr>"

text \<open>
  A wrapped QUIC stream behaves in the traits of the futures crate as the stream it wraps.
\<close>

lemma wrapped_quinn_futures:
  "fut_poll_read (wrapped_stream_futures I) n (Quinn w r) =
     apsnd (\<lambda>(w, r). Quinn w r) (fut_poll_read (quinn_stream_futures (quinn_recv I) (quinn_send I)) n (quinn_stream_new (w, r)))"
  "fut_poll_write (wrapped_stream_futures I) buf (Quinn w r) =
     apsnd (\<lambda>(w, r). Quinn w r) (fut_poll_write (quinn_stream_futures (quinn_recv I) (quinn_send I)) buf (quinn_stream_new (w, r)))"
  "fut_poll_close (wrapped_stream_futures I) (Quinn w r) =
     apsnd (\<lambda>(w, r). Quinn w r) (fut_poll_close (quinn_stream_futures (quinn_recv I) (quinn_send I)) (quinn_stream_new (w, r)))"
  by (auto simp: wrapped_stream_futures_def quinn_stream_futures_def futures_poll_read_def wrapped_read_def wrapped_write_def
      quinn_read_def quinn_stream_new_def on_fst_def on_snd_def writer_of_def split: prod.splits poll.splits sum.splits)

section \<open>Proxying\<close>

text \<open>
  \<open>copy_bidirectional\<close> and \<open>BufReader\<close> belong to tokio and are parameters. The copy is
  given the implementations and states of its two streams; \<open>buffered\<close> wraps a reader with a
  buffer of the given capacity.
\<close>

definition PROXY_BUFFER_CAPACITY :: nat where
  "PROXY_BUFFER_CAPACITY = 1024 * 32"

definition proxy_generic_tokio_streams ::
  "(nat \<Rightarrow> 'r \<Rightarrow> 'b) \<Rightarrow> ('w \<times> 'b \<Rightarrow> 'v \<times> 'b \<Rightarrow> ('e, nat \<times> nat) result) \<Rightarrow> 'w \<times> 'r \<Rightarrow> 'v \<times> 'r \<Rightarrow>
   ('e, nat \<times> nat) result" where
  "proxy_generic_tokio_streams buffered copy_bidirectional a b =
    (case a of (sender_a, reader_a) \<Rightarrow> case b of (sender_b, reader_b) \<Rightarrow>
       (let a = (sender_a, buffered PROXY_BUFFER_CAPACITY reader_a);
            b = (sender_b, buffered PROXY_BUFFER_CAPACITY reader_b)
        in case copy_bidirectional a b of
             Inr (a_to_b, b_to_a) \<Rightarrow> Ok (a_to_b, b_to_a)
           | Inl e \<Rightarrow> Err e))"

text \<open>
  The deprecated helpers: copying one way through a buffer, copying between two TCP streams, and
  between a TCP stream, split into its halves, and another stream.
\<close>

definition proxy_tokio_stream ::
  "(nat \<Rightarrow> 'r \<Rightarrow> 'b) \<Rightarrow> ('b \<Rightarrow> 'w \<Rightarrow> ('e, nat) result) \<Rightarrow> 'r \<Rightarrow> 'w \<Rightarrow> ('e, nat) result" where
  "proxy_tokio_stream buffered copy_buf recv send = copy_buf (buffered (1024 * 32) recv) send"

definition proxy_tcp_streams ::
  "('c \<Rightarrow> 'c \<Rightarrow> ('e, nat \<times> nat) result) \<Rightarrow> 'c \<Rightarrow> 'c \<Rightarrow> ('e, nat \<times> nat) result" where
  "proxy_tcp_streams copy_bidirectional source proxy = copy_bidirectional source proxy"

definition proxy_from_tcp_stream ::
  "(nat \<Rightarrow> 'r \<Rightarrow> 'b) \<Rightarrow> ('w \<times> 'b \<Rightarrow> 'v \<times> 'b \<Rightarrow> ('e, nat \<times> nat) result) \<Rightarrow> ('c \<Rightarrow> 'r \<times> 'w) \<Rightarrow> 'c \<Rightarrow> 'v \<times> 'r \<Rightarrow>
   ('e, nat \<times> nat) result" where
  "proxy_from_tcp_stream buffered copy_bidirectional split source proxy =
    (case split source of (reader, writer) \<Rightarrow>
       proxy_generic_tokio_streams buffered copy_bidirectional (writer, reader) proxy)"

text \<open>\<open>finally_async\<close>: the cleanup sees and may change the outcome of the block.\<close>

definition finally_async ::
  "('e, 'a) result \<Rightarrow> (('e, 'a) result \<Rightarrow> ('e, unit) result \<times> ('e, 'a) result) \<Rightarrow> ('e, 'a) result" where
  "finally_async cb cleanup =
    (case cleanup cb of (cleanup_res, cb_res) \<Rightarrow>
       case cleanup_res of
         Inr _ \<Rightarrow> cb_res
       | Inl e \<Rightarrow> (case cb_res of Inr _ \<Rightarrow> Err e | Inl e2 \<Rightarrow> Err e2))"

section \<open>Streams made of two halves\<close>

datatype stream_op = OpRead nat | OpWrite "byte list" | OpFlush | OpShutdown | OpWriteVectored "byte list list"

datatype 'e stream_answer =
    AnsRead "('e, byte list) result poll" | AnsCount "('e, nat) result poll" | AnsUnit "('e, unit) result poll"

fun is_read_op :: "stream_op \<Rightarrow> bool" where
  "is_read_op (OpRead n) = True"
| "is_read_op _ = False"

fun stream_apply ::
  "('s, 'e) async_read \<Rightarrow> ('s, 'e) async_write \<Rightarrow> stream_op \<Rightarrow> 's \<Rightarrow> 'e stream_answer \<times> 's" where
  "stream_apply R W (OpRead n) s = apfst AnsRead (poll_read R n s)"
| "stream_apply R W (OpWrite bs) s = apfst AnsCount (poll_write W bs s)"
| "stream_apply R W OpFlush s = apfst AnsUnit (poll_flush W s)"
| "stream_apply R W OpShutdown s = apfst AnsUnit (poll_shutdown W s)"
| "stream_apply R W (OpWriteVectored bufs) s = apfst AnsCount (poll_write_vectored W bufs s)"

fun run_ops :: "(stream_op \<Rightarrow> 's \<Rightarrow> 'e stream_answer \<times> 's) \<Rightarrow> stream_op list \<Rightarrow> 's \<Rightarrow>
  (stream_op \<times> 'e stream_answer) list \<times> 's" where
  "run_ops ap [] s = ([], s)"
| "run_ops ap (x # xs) s =
    (case ap x s of (a, s1) \<Rightarrow> case run_ops ap xs s1 of (as, s2) \<Rightarrow> ((x, a) # as, s2))"

text \<open>What each half is asked; the calls of the other kind never reach it.\<close>

fun read_apply :: "('r, 'e) async_read \<Rightarrow> stream_op \<Rightarrow> 'r \<Rightarrow> 'e stream_answer \<times> 'r" where
  "read_apply R (OpRead n) r = apfst AnsRead (poll_read R n r)"
| "read_apply R _ r = (AnsRead Pending, r)"

fun write_apply :: "('w, 'e) async_write \<Rightarrow> stream_op \<Rightarrow> 'w \<Rightarrow> 'e stream_answer \<times> 'w" where
  "write_apply W (OpRead n) w = (AnsRead Pending, w)"
| "write_apply W (OpWrite bs) w = apfst AnsCount (poll_write W bs w)"
| "write_apply W OpFlush w = apfst AnsUnit (poll_flush W w)"
| "write_apply W OpShutdown w = apfst AnsUnit (poll_shutdown W w)"
| "write_apply W (OpWriteVectored bufs) w = apfst AnsCount (poll_write_vectored W bufs w)"

definition plain_writer :: "('w, 'e) async_write \<Rightarrow> ('w, 'e) async_write" where
  "plain_writer W = writer_of (poll_write W) (poll_flush W) (poll_shutdown W)"

definition halves_apart ::
  "(stream_op \<Rightarrow> 's \<Rightarrow> 'e stream_answer \<times> 's) \<Rightarrow> (stream_op \<Rightarrow> 'r \<Rightarrow> 'e stream_answer \<times> 'r) \<Rightarrow>
   (stream_op \<Rightarrow> 'w \<Rightarrow> 'e stream_answer \<times> 'w) \<Rightarrow> ('w \<Rightarrow> 'r \<Rightarrow> 's) \<Rightarrow> stream_op list \<Rightarrow> 'w \<Rightarrow> 'r \<Rightarrow> bool" where
  "halves_apart ap ar aw join xs w r \<longleftrightarrow>
    (case run_ops ap xs (join w r) of (log, s) \<Rightarrow>
     case run_ops aw (filter (\<lambda>x. \<not> is_read_op x) xs) w of (wlog, w') \<Rightarrow>
     case run_ops ar (filter is_read_op xs) r of (rlog, r') \<Rightarrow>
       s = join w' r' \<and> filter (\<lambda>e. is_read_op (fst e)) log = rlog \<and>
       filter (\<lambda>e. \<not> is_read_op (fst e)) log = wlog)"

locale two_halves =
  fixes apply_op :: "stream_op \<Rightarrow> 's \<Rightarrow> 'e stream_answer \<times> 's"
    and apply_read :: "stream_op \<Rightarrow> 'r \<Rightarrow> 'e stream_answer \<times> 'r"
    and apply_write :: "stream_op \<Rightarrow> 'w \<Rightarrow> 'e stream_answer \<times> 'w"
    and join :: "'w \<Rightarrow> 'r \<Rightarrow> 's"
  assumes reads: "is_read_op x \<Longrightarrow> apply_op x (join w r) = apsnd (join w) (apply_read x r)"
    and writes: "\<not> is_read_op x \<Longrightarrow> apply_op x (join w r) = apsnd (\<lambda>w'. join w' r) (apply_write x w)"
begin

lemma run_apart: "halves_apart apply_op apply_read apply_write join xs w r"
  unfolding halves_apart_def
proof (induction xs arbitrary: w r)
  case (Cons x xs)
  show ?case
  proof (cases "is_read_op x")
    case True
    obtain a r1 where r1: "apply_read x r = (a, r1)" by fastforce
    from True r1 reads [OF True, of w r] Cons.IH [where w = w and r = r1] show ?thesis
      by (auto split: prod.splits)
  next
    case False
    obtain a w1 where w1: "apply_write x w = (a, w1)" by fastforce
    from False w1 writes [OF False, of w r] Cons.IH [where w = w1 and r = r] show ?thesis
      by (auto split: prod.splits)
  qed
qed simp

end

lemmas half_defs = on_fst_def on_snd_def writer_of_def plain_writer_def default_write_vectored_def

interpretation unsplit: two_halves "stream_apply (unsplit_read R) (unsplit_write W)"
  "read_apply R" "write_apply W" Pair for R W
  by unfold_locales (case_tac x; simp add: unsplit_read_def unsplit_write_def half_defs split: prod.splits)+

interpretation quinn: two_halves "stream_apply (quinn_read R) (quinn_write W)"
  "read_apply R" "write_apply (plain_writer W)" Pair for R W
  by unfold_locales (case_tac x; simp add: quinn_read_def quinn_write_def half_defs split: prod.splits)+

interpretation quinn_ref: two_halves "stream_apply (quinn_ref_read R) (quinn_ref_write W)"
  "read_apply R" "write_apply (plain_writer W)" Pair for R W
  by unfold_locales (case_tac x; simp add: quinn_ref_read_def quinn_ref_write_def half_defs split: prod.splits)+

interpretation wrapped_quinn: two_halves "stream_apply (wrapped_read I) (wrapped_write I)"
  "read_apply (quinn_recv I)" "write_apply (plain_writer (quinn_send I))" Quinn for I
  by unfold_locales (case_tac x; simp add: wrapped_read_def wrapped_write_def half_defs split: prod.splits)+

interpretation wrapped_quinn_ref: two_halves "stream_apply (wrapped_read I) (wrapped_write I)"
  "read_apply (quinn_recv I)" "write_apply (plain_writer (quinn_send I))" QuinnRef for I
  by unfold_locales (case_tac x; simp add: wrapped_read_def wrapped_write_def half_defs split: prod.splits)+

interpretation wrapped_boxed: two_halves "stream_apply (wrapped_read I) (wrapped_write I)"
  "read_apply (boxed_read I)" "write_apply (plain_writer (boxed_write I))" "\<lambda>w r. Boxed r w" for I
  by unfold_locales (case_tac x; simp add: wrapped_read_def wrapped_write_def half_defs split: prod.splits)+

text \<open>
  In every stream adaptor that is built from a writing and a reading half (\<open>Unsplit\<close>,
  \<open>QuinnTunnelStream\<close>, \<open>QuinnTunnelRefStream\<close> and three alternatives of
  \<open>WrappedStream\<close>), an arbitrary interleaving of reads, writes, flushes and shutdowns gives
  the answers and final states that the two halves give when each is run alone on its own calls.
\<close>

lemma stream_halves_independent:
  "halves_apart (stream_apply (unsplit_read R) (unsplit_write W)) (read_apply R) (write_apply W) Pair xs w r \<and>
   halves_apart (stream_apply (quinn_read R) (quinn_write W)) (read_apply R)
     (write_apply (plain_writer W)) Pair xs w r \<and>
   halves_apart (stream_apply (quinn_ref_read R) (quinn_ref_write W)) (read_apply R)
     (write_apply (plain_writer W)) Pair xs w r \<and>
   halves_apart (stream_apply (wrapped_read I) (wrapped_write I)) (read_apply (quinn_recv I))
     (write_apply (plain_writer (quinn_send I))) Quinn ys v q \<and>
   halves_apart (stream_apply (wrapped_read I) (wrapped_write I)) (read_apply (quinn_recv I))
     (write_apply (plain_writer (quinn_send I))) QuinnRef ys v q \<and>
   halves_apart (stream_apply (wrapped_read I) (wrapped_write I)) (read_apply (boxed_read I))
     (write_apply (plain_writer (boxed_write I))) (\<lambda>w r. Boxed r w) ys bw br"
  by (intro conjI unsplit.run_apart quinn.run_apart quinn_ref.run_apart wrapped_quinn.run_apart
      wrapped_quinn_ref.run_apart wrapped_boxed.run_apart)

text \<open>
  \<open>finally_async\<close> prefers the error of the block over the error of the cleanup.
\<close>

lemma finally_async_outcome:
  "finally_async cb cleanup =
    (case cleanup cb of (c, r) \<Rightarrow> if is_ok r then and_then c (\<lambda>_. r) else r)"
  by (auto simp: finally_async_def split: prod.splits sum.splits)

end
