(* ===== verification/Proxy_Tcp.thy ===== *)
theory Proxy_Tcp
  imports Ip_Text Services Streams
begin

text \<open>
  The TCP proxy protocol (\<open>common/protocol/proxy_tcp.rs\<close>): targets and their route
  addresses, target parsing, and the service that resolves a target, connects to it and copies
  bytes both ways. Name resolution, TCP connections and the copy itself belong to tokio and are
  the fields of \<open>tcp_env\<close>; the calls the service makes are recorded, so that the addresses
  it connects to can be stated.
\<close>

section \<open>Targets\<close>

datatype dns_target =
    PreferHigher (dns_host: rstr) (dns_port_of: port)
  | Dns4 (dns_host: rstr) (dns_port_of: port)
  | Dns6 (dns_host: rstr) (dns_port_of: port)

fun includes_ipv6 :: "dns_target \<Rightarrow> bool" where
  "includes_ipv6 (PreferHigher h p) = True"
| "includes_ipv6 (Dns6 h p) = True"
| "includes_ipv6 (Dns4 h p) = False"

fun includes_ipv4 :: "dns_target \<Rightarrow> bool" where
  "includes_ipv4 (PreferHigher h p) = True"
| "includes_ipv4 (Dns6 h p) = False"
| "includes_ipv4 (Dns4 h p) = True"

fun dns_target_host :: "dns_target \<Rightarrow> rstr" where
  "dns_target_host (PreferHigher h p) = h"
| "dns_target_host (Dns6 h p) = h"
| "dns_target_host (Dns4 h p) = h"

fun dns_target_port :: "dns_target \<Rightarrow> port option" where
  "dns_target_port (PreferHigher h p) = Some p"
| "dns_target_port (Dns6 h p) = Some p"
| "dns_target_port (Dns4 h p) = Some p"

fun is_ipv4 :: "socket_addr \<Rightarrow> bool" where
  "is_ipv4 (SockV4 a p) = True"
| "is_ipv4 (SockV6 a p f s) = False"

definition dns_contains :: "dns_target \<Rightarrow> socket_addr \<Rightarrow> bool \<Rightarrow> bool" where
  "dns_contains t addr check_port =
    (if check_port \<and> Some (socket_port addr) \<noteq> dns_target_port t then False
     else \<not> is_ipv4 addr \<and> includes_ipv6 t \<or> is_ipv4 addr \<and> includes_ipv4 t)"

datatype tcp_stream_target = Port port | SocketAddr socket_addr | Dns dns_target

fun show_ip :: "ip_addr \<Rightarrow> rstr" where
  "show_ip (V4 a) = show_ipv4 a"
| "show_ip (V6 a) = show_ipv6 a"

fun target_host_port :: "tcp_stream_target \<Rightarrow> rstr \<times> port option" where
  "target_host_port (Port p) = (show_ipv4 ipv4_localhost, Some p)"
| "target_host_port (SocketAddr s) = (show_ip (socket_ip s), Some (socket_port s))"
| "target_host_port (Dns d) = (dns_target_host d, dns_target_port d)"

section \<open>Targets as route addresses\<close>

definition proxy_tcp_protocol_name :: rstr where
  "proxy_tcp_protocol_name = lit ''proxy-tcp''"

fun address_of_target :: "tcp_stream_target \<Rightarrow> route_address" where
  "address_of_target (Port p) =
    into_suffixed (address_of_segments [proxy_tcp_protocol_name]) [lit ''tcp'', show_u16 p]"
| "address_of_target (SocketAddr (SockV4 a p)) =
    into_suffixed (address_of_segments [proxy_tcp_protocol_name])
      [lit ''ip4'', show_ipv4 a, lit ''tcp'', show_u16 p]"
| "address_of_target (SocketAddr (SockV6 a p f s)) =
    into_suffixed (address_of_segments [proxy_tcp_protocol_name])
      [lit ''ip6'', show_ipv6 a, lit ''tcp'', show_u16 p]"
| "address_of_target (Dns (PreferHigher h p)) =
    into_suffixed (address_of_segments [proxy_tcp_protocol_name])
      [lit ''dns'', h, lit ''tcp'', show_u16 p]"
| "address_of_target (Dns (Dns4 h p)) =
    into_suffixed (address_of_segments [proxy_tcp_protocol_name])
      [lit ''dns4'', h, lit ''tcp'', show_u16 p]"
| "address_of_target (Dns (Dns6 h p)) =
    into_suffixed (address_of_segments [proxy_tcp_protocol_name])
      [lit ''dns6'', h, lit ''tcp'', show_u16 p]"

definition tcp_client_build_addr :: "tcp_stream_target \<Rightarrow> ('e, route_address) result" where
  "tcp_client_build_addr args = Ok (address_of_target args)"

datatype tcp_stream_target_format_error =
    TooFewSegments | NoMatchingFormat | InvalidPort int_error_kind | InvalidIP

definition target_of_address ::
  "route_address \<Rightarrow> (tcp_stream_target_format_error, tcp_stream_target) result" where
  "target_of_address value =
    (case strip_segment_prefix value [proxy_tcp_protocol_name] of
       None \<Rightarrow> Err NoMatchingFormat
     | Some stripped \<Rightarrow>
         (let parts = take 4 stripped in
          if parts = [] then Err TooFewSegments
          else and_then (map_err InvalidPort (parse_u16 (last parts))) (\<lambda>port.
            case butlast parts of
              [t] \<Rightarrow> if t = lit ''tcp'' then Ok (SocketAddr (socket_addr_new (V4 ipv4_localhost) port))
                     else Err NoMatchingFormat
            | [c, x, t] \<Rightarrow>
                if t \<noteq> lit ''tcp'' then Err NoMatchingFormat
                else if c = lit ''ip4'' then
                  map_ok (\<lambda>a. SocketAddr (socket_addr_new (V4 a) port)) (ok_or InvalidIP (parse_ipv4 x))
                else if c = lit ''ip6'' then
                  map_ok (\<lambda>a. SocketAddr (socket_addr_new (V6 a) port)) (ok_or InvalidIP (parse_ipv6 x))
                else if c = lit ''dns'' then Ok (Dns (PreferHigher x port))
                else if c = lit ''dns6'' then Ok (Dns (Dns6 x port))
                else if c = lit ''dns4'' then Ok (Dns (Dns4 x port))
                else Err NoMatchingFormat
            | _ \<Rightarrow> Err NoMatchingFormat)))"

definition show_target :: "tcp_stream_target \<Rightarrow> rstr" where
  "show_target t = rendered (address_of_target t)"

datatype tcp_stream_target_parse_error =
    ParseRouteAddress route_address_parse_error | ParseFormat tcp_stream_target_format_error

definition target_from_str :: "rstr \<Rightarrow> (tcp_stream_target_parse_error, tcp_stream_target) result" where
  "target_from_str s =
    and_then (map_err ParseRouteAddress (address_from_str s)) (\<lambda>route_addr.
      case target_of_address route_addr of
        Inr t \<Rightarrow> Ok t
      | Inl e \<Rightarrow>
          if e = TooFewSegments \<or> e = NoMatchingFormat then
            (if take 1 (iter_segments route_addr) \<in>
                {[lit ''dns''], [lit ''dns4''], [lit ''dns6''], [lit ''ip4''], [lit ''ip6''], [lit ''tcp'']}
             then and_then (map_err ParseRouteAddress (address_from_str (slash # proxy_tcp_protocol_name @ s)))
               (\<lambda>prefixed. map_err ParseFormat (target_of_address prefixed))
             else Err (ParseFormat NoMatchingFormat))
          else Err (ParseFormat e))"

section \<open>The service\<close>

datatype tcp_call = LookupHost rstr | ConnectTo "socket_addr list"

record ('c, 'w, 'r, 'b, 'v, 'x) tcp_env =
  lookup_host :: "rstr \<Rightarrow> ('x, socket_addr list) result"
  tcp_connect :: "socket_addr list \<Rightarrow> ('x, 'c) result"
  set_nodelay :: "'c \<Rightarrow> ('x, unit) result"
  conn_split :: "'c \<Rightarrow> 'w \<times> 'r"
  buf_reader :: "nat \<Rightarrow> 'r \<Rightarrow> 'b"
  copy_bidirectional :: "'w \<times> 'b \<Rightarrow> 'v \<times> 'b \<Rightarrow> ('x, nat \<times> nat) result"
  anyhow_of_io :: "'x \<Rightarrow> anyhow"

record tcp_stream_service =
  local_only :: bool

datatype tcp_connect_error = ConnectionFailed | NoLoopbackAddressesFound

definition service_connect ::
  "('c, 'w, 'r, 'b, 'v, 'x) tcp_env \<Rightarrow> tcp_stream_service \<Rightarrow> socket_addr list \<Rightarrow>
   (tcp_connect_error, ('x, 'c) result) result \<times> tcp_call list" where
  "service_connect E self addrs =
    (if addrs = [] then (Err ConnectionFailed, [])
     else
       (let addrs = (if local_only self then filter (\<lambda>x. is_loopback (socket_ip x)) addrs else addrs) in
        if local_only self \<and> addrs = [] then (Err NoLoopbackAddressesFound, [])
        else (Ok (and_then (tcp_connect E addrs) (\<lambda>c. and_then (set_nodelay E c) (\<lambda>_. Ok c))),
              [ConnectTo addrs])))"

definition resolve_dns ::
  "('c, 'w, 'r, 'b, 'v, 'x) tcp_env \<Rightarrow> dns_target \<Rightarrow> ('x, socket_addr list) result \<times> tcp_call list" where
  "resolve_dns E t =
    (let q = dns_target_host t @ [colon] @ show_u16 (dns_port_of t) in
     (map_ok (filter (\<lambda>addr. dns_contains t addr True)) (lookup_host E q), [LookupHost q]))"

fun resolve ::
  "('c, 'w, 'r, 'b, 'v, 'x) tcp_env \<Rightarrow> tcp_stream_target \<Rightarrow> ('x, socket_addr list) result \<times> tcp_call list" where
  "resolve E (Port p) =
    (Ok [socket_addr_new (V6 ipv6_localhost) p, socket_addr_new (V4 ipv4_localhost) p], [])"
| "resolve E (SocketAddr s) = (Ok [s], [])"
| "resolve E (Dns d) = resolve_dns E d"

definition tcp_service_accepts :: "tcp_stream_service \<Rightarrow> route_address \<Rightarrow> bool" where
  "tcp_service_accepts self addr = is_ok (target_of_address addr)"

definition tcp_service_handle ::
  "('c, 'w, 'r, 'b, 'v, 'x) tcp_env \<Rightarrow> tcp_stream_service \<Rightarrow> route_address \<Rightarrow> 'v \<times> 'r \<Rightarrow>
   (anyhow service_error, unit) result \<times> tcp_call list" where
  "tcp_service_handle E self addr stream =
    (case target_of_address addr of
       Inl _ \<Rightarrow> (Err AddressError, [])
     | Inr target \<Rightarrow>
         (case resolve E target of
            (Inl _, calls) \<Rightarrow> (Err AddressError, calls)
          | (Inr addrs, calls) \<Rightarrow>
              (case service_connect E self addrs of
                 (Inl ConnectionFailed, calls') \<Rightarrow> (Err DependencyFailure, calls @ calls')
               | (Inl NoLoopbackAddressesFound, calls') \<Rightarrow> (Err AddressError, calls @ calls')
               | (Inr (Inl _), calls') \<Rightarrow> (Err DependencyFailure, calls @ calls')
               | (Inr (Inr connection), calls') \<Rightarrow>
                   (case proxy_generic_tokio_streams (buf_reader E) (copy_bidirectional E)
                           (conn_split E connection) stream of
                      Inr _ \<Rightarrow> (Ok (), calls @ calls')
                    | Inl e \<Rightarrow> (Err (InternalError (anyhow_of_io E e)), calls @ calls')))))"

text \<open>The client copies between its own halves and the tunnel stream.\<close>

record ('r, 'w) tcp_stream_client =
  client_recv :: 'r
  client_send :: 'w

definition tcp_client_handle ::
  "('c, 'w, 'r, 'b, 'v, 'x) tcp_env \<Rightarrow> ('r, 'w) tcp_stream_client \<Rightarrow> route_address \<Rightarrow> 'v \<times> 'r \<Rightarrow>
   ('x client_error, nat \<times> nat) result" where
  "tcp_client_handle E self addr tunnel =
    (case proxy_generic_tokio_streams (buf_reader E) (copy_bidirectional E)
            (client_send self, client_recv self) tunnel of
       Inr (tcp_to_tunnel_bytes, tunnel_to_tcp_bytes) \<Rightarrow> Ok (tcp_to_tunnel_bytes, tunnel_to_tcp_bytes)
     | Inl e \<Rightarrow> Err (client_error.IllegalResponse e))"

section \<open>Target round trip\<close>

text \<open>
  A target is well formed when its IPv6 address has eight groups. What parsing gives back is
  \<open>target_parsed\<close>: a bare port becomes IPv4 localhost, and an IPv6 socket address loses its
  flow information and scope.
\<close>

fun target_wf :: "tcp_stream_target \<Rightarrow> bool" where
  "target_wf (SocketAddr (SockV6 a p f s)) = ipv6_wf a"
| "target_wf t = True"

fun target_parsed :: "tcp_stream_target \<Rightarrow> tcp_stream_target" where
  "target_parsed (Port p) = SocketAddr (SockV4 ipv4_localhost p)"
| "target_parsed (SocketAddr (SockV6 a p f s)) = SocketAddr (SockV6 a p 0 0)"
| "target_parsed t = t"

definition target_segments :: "tcp_stream_target \<Rightarrow> rstr list" where
  "target_segments t = tl (segments (address_of_target t))"

lemma segments_of_target: "segments (address_of_target t) = proxy_tcp_protocol_name # target_segments t"
  by (cases t rule: address_of_target.cases)
     (simp_all add: target_segments_def into_suffixed_def address_of_segments_def)

lemma take_4 [simp]: "take 4 [a, b, c, d] = [a, b, c, d]" "take 4 [a, b] = [a, b]"
  by simp_all

lemma target_round: "target_wf t \<Longrightarrow> target_of_address (address_of_target t) = Ok (target_parsed t)"
  by (cases t rule: address_of_target.cases)
     (simp_all add: target_of_address_def into_suffixed_def address_of_segments_def
        strip_segment_prefix_def iter_segments_def parse_show_ipv4 parse_show_ipv6 lit_def)

lemma target_segments_head:
  "\<exists>c ss. target_segments t = c # ss \<and> c \<in> {lit ''dns'', lit ''dns4'', lit ''dns6'', lit ''ip4'', lit ''ip6'', lit ''tcp''}"
  by (cases t rule: address_of_target.cases)
     (simp_all add: target_segments_def into_suffixed_def address_of_segments_def)

lemma render_protocol_name: "render_chars proxy_tcp_protocol_name = proxy_tcp_protocol_name"
  by (simp add: proxy_tcp_protocol_name_def lit_def needs_escaped_def)

lemma target_round_unprefixed:
  assumes "target_wf t"
  shows "target_from_str (rendered (address_of_segments (target_segments t))) = Ok (target_parsed t)"
proof -
  let ?a = "address_of_segments (target_segments t)"
  obtain c ss where c: "target_segments t = c # ss"
    "c \<in> {lit ''dns'', lit ''dns4'', lit ''dns6'', lit ''ip4'', lit ''ip6'', lit ''tcp''}"
    using target_segments_head by blast
  then have "c \<noteq> proxy_tcp_protocol_name" by (auto simp: proxy_tcp_protocol_name_def lit_def)
  then have "target_of_address ?a = Err NoMatchingFormat"
    by (simp add: target_of_address_def strip_segment_prefix_def iter_segments_def
        address_of_segments_def c(1))
  moreover have "slash # proxy_tcp_protocol_name @ rendered ?a = rendered (address_of_target t)"
    by (simp add: rendered_def iter_segments_def address_of_segments_def segments_of_target c(1)
        render_protocol_name)
  moreover have "take 1 (iter_segments ?a) = [c]"
    by (simp add: iter_segments_def address_of_segments_def c(1))
  ultimately show ?thesis
    using c(2) target_round [OF assms] by (simp add: target_from_str_def from_str_rendered)
qed

text \<open>
  C15: what the textual forms of a TCP target keep. The route address made of a target, the
  displayed target and the form without the \<open>proxy-tcp\<close> prefix all parse, and to the same
  target \<open>target_parsed\<close>: a name or an IPv4 address with its port comes back as it was, a bare
  port as that port of IPv4 localhost, and an IPv6 address without its flow information and
  scope. So exactly the bare ports and the IPv6 addresses with a flow or scope do not survive;
  parsing once more changes nothing.
\<close>

theorem target_round_trip:
  assumes "target_wf t"
  shows "target_of_address (address_of_target t) = Ok (target_parsed t) \<and>
    target_from_str (show_target t) = Ok (target_parsed t) \<and>
    target_from_str (rendered (address_of_segments (target_segments t))) = Ok (target_parsed t) \<and>
    (target_parsed t \<noteq> t \<longleftrightarrow> (\<exists>p. t = Port p) \<or>
       (\<exists>a p flow scope. t = SocketAddr (SockV6 a p flow scope) \<and> (flow \<noteq> 0 \<or> scope \<noteq> 0))) \<and>
    (\<forall>p. t = Port p \<longrightarrow> target_parsed t = SocketAddr (SockV4 ipv4_localhost p)) \<and>
    target_parsed (target_parsed t) = target_parsed t"
proof -
  have "target_parsed t \<noteq> t \<longleftrightarrow> (\<exists>p. t = Port p) \<or>
      (\<exists>a p flow scope. t = SocketAddr (SockV6 a p flow scope) \<and> (flow \<noteq> 0 \<or> scope \<noteq> 0))"
    "target_parsed (target_parsed t) = target_parsed t"
    by (cases t rule: target_parsed.cases; auto)+
  then show ?thesis
    using target_round [OF assms] target_round_unprefixed [OF assms]
    by (simp add: target_from_str_def show_target_def from_str_rendered)
qed

theorem target_round_trip_witness:
  "target_wf (SocketAddr (SockV6 [0x2001, 0xdb8, 0, 0, 0, 0, 0, 1] 443 0 0)) \<and>
   target_from_str (lit ''/ip6/2001:db8::1/tcp/443'') =
     Ok (SocketAddr (SockV6 [0x2001, 0xdb8, 0, 0, 0, 0, 0, 1] 443 0 0))"
proof -
  let ?t = "SocketAddr (SockV6 [0x2001, 0xdb8, 0, 0, 0, 0, 0, 1] 443 0 0)"
  have w: "target_wf ?t" by (simp add: ipv6_wf_def)
  have "rendered (address_of_segments (target_segments ?t)) = lit ''/ip6/2001:db8::1/tcp/443''"
    by (simp add: target_segments_def into_suffixed_def address_of_segments_def rendered_def
        iter_segments_def needs_escaped_def lit_def show_ipv6_def show_hex.simps hex_digit_def
        show_u16_def show_nat.simps numeral_2_eq_2 [symmetric])
  then show ?thesis
    using w target_round_trip [OF w] by simp
qed

section \<open>Where the service connects to\<close>

text \<open>
  The addresses a target allows: its own address, the two localhosts for a bare port, and for a
  name any address of the family it asks for with the same port.
\<close>

fun target_allows :: "tcp_stream_target \<Rightarrow> socket_addr \<Rightarrow> bool" where
  "target_allows (Port p) a \<longleftrightarrow> is_loopback (socket_ip a) \<and> socket_port a = p"
| "target_allows (SocketAddr s) a \<longleftrightarrow> a = s"
| "target_allows (Dns d) a \<longleftrightarrow> socket_port a = dns_port_of d \<and>
     (is_ipv4 a \<and> includes_ipv4 d \<or> \<not> is_ipv4 a \<and> includes_ipv6 d)"

fun call_permitted :: "tcp_stream_service \<Rightarrow> route_address \<Rightarrow> tcp_call \<Rightarrow> bool" where
  "call_permitted self addr (ConnectTo as) \<longleftrightarrow> as \<noteq> [] \<and>
     (case target_of_address addr of
        Inl _ \<Rightarrow> False
      | Inr t \<Rightarrow> list_all (\<lambda>a. target_allows t a \<and> (local_only self \<longrightarrow> is_loopback (socket_ip a))) as)"
| "call_permitted self addr (LookupHost q) \<longleftrightarrow>
     (\<exists>d. target_of_address addr = Ok (Dns d) \<and> q = dns_host d @ [colon] @ show_u16 (dns_port_of d))"

lemma dns_host_eq: "dns_target_host d = dns_host d"
  by (cases d) auto

lemma dns_contains_allows: "dns_contains d a True = target_allows (Dns d) a"
  by (cases d) (auto simp: dns_contains_def)

lemma resolve_allows: "fst (resolve E t) = Ok as \<Longrightarrow> list_all (target_allows t) as"
proof (cases t)
  case (Dns d)
  assume "fst (resolve E t) = Ok as"
  then obtain bs where "as = filter (target_allows (Dns d)) bs"
    using Dns by (auto simp: resolve_dns_def dns_contains_allows result_simps Let_def
        simp del: target_allows.simps)
  then show ?thesis using Dns by (simp add: list_all_iff del: target_allows.simps)
qed (auto simp: ipv6_localhost_def ipv4_localhost_def)

lemma resolve_calls:
  "snd (resolve E t) = (case t of Dns d \<Rightarrow> [LookupHost (dns_host d @ [colon] @ show_u16 (dns_port_of d))] | _ \<Rightarrow> [])"
  by (cases t) (auto simp: resolve_dns_def dns_host_eq Let_def)

lemma connect_calls:
  assumes "list_all P as" "call \<in> set (snd (service_connect E self as))"
  shows "\<exists>bs. call = ConnectTo bs \<and> bs \<noteq> [] \<and>
    list_all (\<lambda>a. P a \<and> (local_only self \<longrightarrow> is_loopback (socket_ip a))) bs"
  using assms by (auto simp: service_connect_def list_all_iff Let_def split: if_splits)

text \<open>
  C14: whatever the remote asks for, the TCP service connects only to addresses the requested
  target allows (the same port and address family for a name), it connects only to loopback
  addresses when it is \<open>local_only\<close>, and it resolves only the name the target carries.
\<close>

theorem tcp_service_calls_permitted:
  "list_all (call_permitted self addr) (snd (tcp_service_handle E self addr stream))"
proof (cases "target_of_address addr")
  case (Inr t)
  have look: "list_all (call_permitted self addr) (snd (resolve E t))"
    using Inr by (auto simp: resolve_calls split: tcp_stream_target.splits)
  have conn: "list_all (call_permitted self addr) (snd (service_connect E self as))"
    if "fst (resolve E t) = Ok as" for as
    using connect_calls [OF resolve_allows [OF that]] Inr by (fastforce simp: list_all_iff)
  show ?thesis
    using Inr look conn
    by (auto simp: tcp_service_handle_def split: prod.splits sum.splits tcp_connect_error.splits)
qed (simp add: tcp_service_handle_def)

end
