(* ===== verification/Dropkick.thy ===== *)
theory Dropkick
  imports Prelude "HOL-Library.Sublist"
begin

text \<open>
  Drop notifications (\<open>util/dropkick.rs\<close>) and cancellation (\<open>util/cancellation.rs\<close>).
  A kick is a state change of the world \<open>'w\<close>. The cancellation tokens of tokio-util are a
  record of operations with their documented behaviour as a locale. For the shared target, an
  \<open>Arc<Mutex<Option<T>>>\<close>, every interleaving of dropped handles, lock holders, takers and
  background tasks is a run of a step relation, and the target is kicked or taken once.
\<close>

section \<open>Dropkick\<close>

record 'a dropkick =
  inner :: "'a option"

definition dropkick_new :: "'a \<Rightarrow> 'a dropkick" where
  "dropkick_new target = \<lparr>inner = Some target\<rparr>"

definition dropkick_drop :: "('a \<Rightarrow> 'w \<Rightarrow> 'w) \<Rightarrow> 'a dropkick \<Rightarrow> 'w \<Rightarrow> 'w" where
  "dropkick_drop kick d w = (case inner d of Some x \<Rightarrow> kick x w | None \<Rightarrow> w)"

text \<open>\<open>counter\<close> empties the wrapper and drops it.\<close>

definition dropkick_counter :: "('a \<Rightarrow> 'w \<Rightarrow> 'w) \<Rightarrow> 'a dropkick \<Rightarrow> 'w \<Rightarrow> 'w" where
  "dropkick_counter kick d w = dropkick_drop kick (d\<lparr>inner := None\<rparr>) w"

text \<open>\<open>counter_take\<close>, a panic being \<open>None\<close>.\<close>

definition dropkick_counter_take :: "('a \<Rightarrow> 'w \<Rightarrow> 'w) \<Rightarrow> 'a dropkick \<Rightarrow> 'w \<Rightarrow> ('a \<times> 'w) option" where
  "dropkick_counter_take kick d w =
    (case inner d of
       None \<Rightarrow> None
     | Some x \<Rightarrow> Some (x, dropkick_drop kick (d\<lparr>inner := None\<rparr>) w))"

definition dropkick_deref :: "'a dropkick \<Rightarrow> 'a option" where
  "dropkick_deref d = inner d"

lemma dropkick_laws:
  "dropkick_drop kick (dropkick_new x) w = kick x w"
  "dropkick_counter kick d w = w"
  "dropkick_counter_take kick (dropkick_new x) w = Some (x, w)"
  "dropkick_deref (dropkick_new x) = Some x"
  by (simp_all add: dropkick_drop_def dropkick_new_def dropkick_counter_def
      dropkick_counter_take_def dropkick_deref_def)

section \<open>What is kicked\<close>

text \<open>A channel's \<open>send\<close> answers whether the message was taken; the answer is ignored.\<close>

definition kick_message :: "('m \<Rightarrow> 'w \<Rightarrow> bool \<times> 'w) \<Rightarrow> 'm \<Rightarrow> 'w \<Rightarrow> 'w" where
  "kick_message send value w = snd (send value w)"

definition kick_unit_message :: "(unit \<Rightarrow> 'w \<Rightarrow> bool \<times> 'w) \<Rightarrow> 'w \<Rightarrow> 'w" where
  "kick_unit_message send w = kick_message send () w"

definition kick_fn :: "('w \<Rightarrow> 'r \<times> 'w) \<Rightarrow> 'w \<Rightarrow> 'w" where
  "kick_fn f w = snd (f w)"

fun kick_option :: "('a \<Rightarrow> 'w \<Rightarrow> 'w) \<Rightarrow> 'a option \<Rightarrow> 'w \<Rightarrow> 'w" where
  "kick_option kick None w = w"
| "kick_option kick (Some x) w = kick x w"

text \<open>An owned mutex: its content and whether it is poisoned.\<close>

definition kick_mutex :: "('a \<Rightarrow> 'w \<Rightarrow> 'w) \<Rightarrow> bool \<Rightarrow> 'a \<Rightarrow> 'w \<Rightarrow> 'w" where
  "kick_mutex kick is_poisoned x w = (if is_poisoned then w else kick x w)"

section \<open>Cancellation tokens\<close>

record ('k, 't) token_ops =
  token_new :: "'t \<Rightarrow> 'k \<times> 't"
  child_token :: "'k \<Rightarrow> 't \<Rightarrow> 'k \<times> 't"
  cancel :: "'k \<Rightarrow> 't \<Rightarrow> 't"
  is_cancelled :: "'k \<Rightarrow> 't \<Rightarrow> bool"

definition kick_token :: "('k, 't) token_ops \<Rightarrow> 'k \<Rightarrow> 't \<Rightarrow> 't" where
  "kick_token T k t = (if \<not> is_cancelled T k t then cancel T k t else t)"

text \<open>A \<open>CancellationListener\<close> offers the token's operations but \<open>cancel\<close>.\<close>

record 'k cancellation_listener =
  token :: 'k

definition listener_child_token :: "('k, 't) token_ops \<Rightarrow> 'k cancellation_listener \<Rightarrow> 't \<Rightarrow> 'k \<times> 't" where
  "listener_child_token T l t = child_token T (token l) t"

definition listener_is_cancelled :: "('k, 't) token_ops \<Rightarrow> 'k cancellation_listener \<Rightarrow> 't \<Rightarrow> bool" where
  "listener_is_cancelled T l t = is_cancelled T (token l) t"

definition listener_of :: "'k \<Rightarrow> 'k cancellation_listener" where
  "listener_of k = \<lparr>token = k\<rparr>"

text \<open>
  The documented behaviour: \<open>below j k\<close> says that \<open>j\<close> is \<open>k\<close> or a child of \<open>k\<close>, at any
  depth. Cancelling a token cancels exactly the tokens below it, a new token is not cancelled, a
  child token is cancelled when its parent already is, and nothing is ever reset.
\<close>

locale cancellation =
  fixes T :: "('k, 't) token_ops"
    and known :: "'k \<Rightarrow> 't \<Rightarrow> bool"
    and below :: "'k \<Rightarrow> 'k \<Rightarrow> 't \<Rightarrow> bool"
  assumes cancel_iff: "known k t \<Longrightarrow> is_cancelled T j (cancel T k t) \<longleftrightarrow> is_cancelled T j t \<or> below j k t"
    and below_refl: "below k k t"
    and below_cancelled: "below j k t \<Longrightarrow> is_cancelled T k t \<Longrightarrow> is_cancelled T j t"
    and below_cancel: "below i j (cancel T k t) \<longleftrightarrow> below i j t"
    and known_cancel: "known j (cancel T k t) \<longleftrightarrow> known j t"
    and new_token: "token_new T t = (k, t') \<Longrightarrow> \<not> known k t \<and> known k t' \<and> \<not> is_cancelled T k t'"
    and new_frame: "token_new T t = (k, t') \<Longrightarrow> known j t \<Longrightarrow>
      known j t' \<and> is_cancelled T j t' = is_cancelled T j t \<and> \<not> below j k t' \<and> \<not> below k j t' \<and>
      (known i t \<longrightarrow> below i j t' = below i j t)"
    and child: "child_token T p t = (k, t') \<Longrightarrow> known p t \<Longrightarrow>
      \<not> known k t \<and> known k t' \<and> is_cancelled T k t' = is_cancelled T p t \<and>
      (known j t \<longrightarrow> below k j t' = below p j t)"
    and child_frame: "child_token T p t = (k, t') \<Longrightarrow> known p t \<Longrightarrow> known j t \<Longrightarrow>
      known j t' \<and> is_cancelled T j t' = is_cancelled T j t \<and> \<not> below j k t' \<and>
      (known i t \<longrightarrow> below i j t' = below i j t)"
begin

lemma kick_token_iff:
  "known k t \<Longrightarrow> is_cancelled T j (kick_token T k t) \<longleftrightarrow> is_cancelled T j t \<or> below j k t"
  by (auto simp: kick_token_def cancel_iff dest: below_cancelled)

lemma kick_token_frame:
  "below i j (kick_token T k t) \<longleftrightarrow> below i j t" "known j (kick_token T k t) \<longleftrightarrow> known j t"
  by (simp_all add: kick_token_def below_cancel known_cancel)

end

text \<open>
  An implementation: a token is the path of numbers from its root, and the state holds the next
  number and the cancelled paths.
\<close>

type_synonym token_path = "nat list"
type_synonym token_forest = "nat \<times> token_path list"

fun path_known :: "token_path \<Rightarrow> token_forest \<Rightarrow> bool" where
  "path_known k (n, cs) \<longleftrightarrow> k \<noteq> [] \<and> (\<forall>x \<in> set k. x < n)"

fun path_below :: "token_path \<Rightarrow> token_path \<Rightarrow> token_forest \<Rightarrow> bool" where
  "path_below j k t \<longleftrightarrow> prefix k j"

fun path_extend :: "token_path \<Rightarrow> token_forest \<Rightarrow> token_path \<times> token_forest" where
  "path_extend p (n, cs) = (p @ [n], (Suc n, filter (\<lambda>c. path_known c (n, cs)) cs))"

definition forest_ops :: "(token_path, token_forest) token_ops" where
  "forest_ops =
    \<lparr>token_new = path_extend [],
     child_token = path_extend,
     cancel = (\<lambda>k (n, cs). (n, k # cs)),
     is_cancelled = (\<lambda>k (n, cs). list_ex (\<lambda>c. path_known c (n, cs) \<and> prefix c k) cs)\<rparr>"

lemma forest_ops_simps [simp]:
  "token_new forest_ops (n, cs) = ([n], (Suc n, filter (\<lambda>c. path_known c (n, cs)) cs))"
  "child_token forest_ops p (n, cs) = (p @ [n], (Suc n, filter (\<lambda>c. path_known c (n, cs)) cs))"
  "cancel forest_ops k (n, cs) = (n, k # cs)"
  "is_cancelled forest_ops k (n, cs) \<longleftrightarrow> (\<exists>c \<in> set cs. path_known c (n, cs) \<and> prefix c k)"
  by (auto simp: forest_ops_def list_ex_iff)

lemma path_known_prefix: "path_known k t \<Longrightarrow> prefix c k \<Longrightarrow> c \<noteq> [] \<Longrightarrow> path_known c t"
  by (cases t) (auto dest: set_mono_prefix)

interpretation token_forest: cancellation forest_ops path_known path_below
proof (unfold_locales)
  fix j k t show "path_known k t \<Longrightarrow> is_cancelled forest_ops j (cancel forest_ops k t) =
    (is_cancelled forest_ops j t \<or> path_below j k t)" by (cases t) auto
next
  fix j k t assume "path_below j k t" "is_cancelled forest_ops k t"
  then show "is_cancelled forest_ops j t" by (cases t) (auto intro: prefix_order.trans)
next
  fix j k t show "path_known j (cancel forest_ops k t) = path_known j t" by (cases t) auto
next
  fix t k t' assume "token_new forest_ops t = (k, t')"
  then show "\<not> path_known k t \<and> path_known k t' \<and> \<not> is_cancelled forest_ops k t'"
    by (cases t) (auto simp: prefix_Cons)
next
  fix t k t' j i assume "token_new forest_ops t = (k, t')" "path_known j t"
  then show "path_known j t' \<and> is_cancelled forest_ops j t' = is_cancelled forest_ops j t \<and>
      \<not> path_below j k t' \<and> \<not> path_below k j t' \<and>
      (path_known i t \<longrightarrow> path_below i j t' = path_below i j t)"
    by (cases t) (auto simp: prefix_Cons less_Suc_eq, auto simp: prefix_def)
next
  fix p t k t' j assume "child_token forest_ops p t = (k, t')" "path_known p t"
  then show "\<not> path_known k t \<and> path_known k t' \<and> is_cancelled forest_ops k t' = is_cancelled forest_ops p t \<and>
      (path_known j t \<longrightarrow> path_below k j t' = path_below p j t)"
    by (cases t) (auto simp: less_Suc_eq)
next
  fix p t k t' j i assume "child_token forest_ops p t = (k, t')" "path_known p t" "path_known j t"
  then show "path_known j t' \<and> is_cancelled forest_ops j t' = is_cancelled forest_ops j t \<and>
      \<not> path_below j k t' \<and> (path_known i t \<longrightarrow> path_below i j t' = path_below i j t)"
    by (cases t) (auto simp: less_Suc_eq, auto simp: prefix_def)
qed auto

section \<open>Shared targets\<close>

text \<open>
  The cell behind an \<open>Arc<Mutex<Option<T>>>\<close>: the number of strong references, whether some
  thread holds the lock, whether the mutex is poisoned, the content, and the number of
  background tasks that wait for the lock. The global counter of outstanding tasks is
  \<open>outstanding\<close>. A panic of the dropping thread is the second component of the result.
\<close>

record 'a shared =
  refs :: nat
  locked :: bool
  poisoned :: bool
  content :: "'a option"
  pending_tasks :: nat
  outstanding :: "64 word"

definition kick_shared :: "('a \<Rightarrow> 'w \<Rightarrow> 'w) \<Rightarrow> 'a shared \<Rightarrow> 'w \<Rightarrow> 'a shared \<times> bool \<times> 'w" where
  "kick_shared kick c w =
    (if refs c = 1 then
       (c\<lparr>refs := 0, content := None\<rparr>, False, kick_mutex (kick_option kick) (poisoned c) (content c) w)
     else if locked c then (c\<lparr>pending_tasks := pending_tasks c + 1\<rparr>, False, w)
     else if poisoned c then (c\<lparr>refs := refs c - 1\<rparr>, True, w)
     else (c\<lparr>content := None, refs := refs c - 1\<rparr>, False,
           dropkick_drop (kick_option kick) (dropkick_new (content c)) w))"

text \<open>
  The background task, run when it gets the lock. A poisoned mutex panics in \<open>expect\<close>, after
  the counter was incremented.
\<close>

definition dropkick_mutex_background_task ::
  "('a \<Rightarrow> 'w \<Rightarrow> 'w) \<Rightarrow> 'a shared \<Rightarrow> 'w \<Rightarrow> 'a shared \<times> 'w" where
  "dropkick_mutex_background_task kick c w =
    (let c = c\<lparr>outstanding := outstanding c + 1, pending_tasks := pending_tasks c - 1, refs := refs c - 1\<rparr> in
     if poisoned c then (c, w)
     else (c\<lparr>content := None, outstanding := outstanding c - 1\<rparr>, kick_option kick (content c) w))"

definition counter_take_mutex :: "'a shared \<Rightarrow> 'a option \<times> 'a shared" where
  "counter_take_mutex c = (if poisoned c then (None, c) else (content c, c\<lparr>content := None\<rparr>))"

text \<open>
  Runs of a shared target: \<open>handles\<close> dropkick handles and any number of other references.
  Kicked values are logged in \<open>kicked\<close>, taken ones in \<open>taken\<close>, and \<open>fired\<close> says that some
  handle was dropped. Another thread can hold the lock as long as it has a reference, and poisons
  the mutex when it panics.
\<close>

record 'a shared_run =
  cell :: "'a shared"
  handles :: nat
  kicked :: "'a list"
  taken :: "'a list"
  fired :: bool

definition log_kick :: "'a \<Rightarrow> 'a list \<Rightarrow> 'a list" where
  "log_kick x xs = xs @ [x]"

inductive shared_step :: "'a shared_run \<Rightarrow> 'a shared_run \<Rightarrow> bool" where
  drop_handle: "0 < handles s \<Longrightarrow> kick_shared log_kick (cell s) (kicked s) = (c, panicked, ks) \<Longrightarrow>
    shared_step s (s\<lparr>cell := c, handles := handles s - 1, kicked := ks, fired := True\<rparr>)"
| run_task: "0 < pending_tasks (cell s) \<Longrightarrow> \<not> locked (cell s) \<Longrightarrow>
    dropkick_mutex_background_task log_kick (cell s) (kicked s) = (c, ks) \<Longrightarrow>
    shared_step s (s\<lparr>cell := c, kicked := ks\<rparr>)"
| take_content: "0 < handles s \<Longrightarrow> \<not> locked (cell s) \<Longrightarrow> counter_take_mutex (cell s) = (x, c) \<Longrightarrow>
    shared_step s (s\<lparr>cell := c, taken := taken s @ (case x of None \<Rightarrow> [] | Some v \<Rightarrow> [v])\<rparr>)"
| lock_cell: "\<not> locked (cell s) \<Longrightarrow> handles s + pending_tasks (cell s) < refs (cell s) \<Longrightarrow>
    shared_step s (s\<lparr>cell := (cell s)\<lparr>locked := True\<rparr>\<rparr>)"
| unlock_cell: "locked (cell s) \<Longrightarrow> shared_step s (s\<lparr>cell := (cell s)\<lparr>locked := False, poisoned := poisoned (cell s) \<or> p\<rparr>\<rparr>)"
| clone_arc: "0 < handles s \<or> handles s + pending_tasks (cell s) < refs (cell s) \<Longrightarrow>
    shared_step s (s\<lparr>cell := (cell s)\<lparr>refs := refs (cell s) + 1\<rparr>\<rparr>)"
| drop_arc: "\<not> locked (cell s) \<Longrightarrow> handles s + pending_tasks (cell s) < refs (cell s) \<Longrightarrow> 1 < refs (cell s) \<Longrightarrow>
    shared_step s (s\<lparr>cell := (cell s)\<lparr>refs := refs (cell s) - 1\<rparr>\<rparr>)"

definition shared_start :: "'a \<Rightarrow> nat \<Rightarrow> nat \<Rightarrow> 'a shared_run" where
  "shared_start x dropkicks others =
    \<lparr>cell = \<lparr>refs = dropkicks + others, locked = False, poisoned = False, content = Some x,
             pending_tasks = 0, outstanding = 0\<rparr>,
     handles = dropkicks, kicked = [], taken = [], fired = False\<rparr>"

definition shared_inv :: "'a \<Rightarrow> 'a shared_run \<Rightarrow> bool" where
  "shared_inv x s \<longleftrightarrow>
     handles s + pending_tasks (cell s) + (if locked (cell s) then 1 else 0) \<le> refs (cell s) \<and>
     (poisoned (cell s) \<or>
        kicked s @ taken s @ (case content (cell s) of None \<Rightarrow> [] | Some v \<Rightarrow> [v]) = [x]) \<and>
     length (kicked s @ taken s) \<le> 1 \<and> set (kicked s @ taken s) \<subseteq> {x} \<and>
     (case content (cell s) of None \<Rightarrow> True | Some v \<Rightarrow> v = x \<and> kicked s @ taken s = []) \<and>
     (fired s \<and> \<not> poisoned (cell s) \<and> pending_tasks (cell s) = 0 \<longrightarrow> content (cell s) = None)"

inductive_cases shared_stepE: "shared_step s t"

lemmas shared_defs = kick_shared_def dropkick_mutex_background_task_def counter_take_mutex_def
  kick_mutex_def log_kick_def dropkick_laws(1)

lemma shared_step_inv: "shared_step s t \<Longrightarrow> shared_inv x s \<Longrightarrow> shared_inv x t"
  by (erule shared_stepE; cases "content (cell s)")
     (auto simp: shared_inv_def shared_defs Let_def split: if_splits option.splits)

lemma shared_start_inv: "shared_inv x (shared_start x n m)"
  by (simp add: shared_inv_def shared_start_def)

lemma shared_run_inv: "shared_step\<^sup>*\<^sup>* (shared_start x n m) s \<Longrightarrow> shared_inv x s"
  by (induction rule: rtranclp_induct) (auto intro: shared_start_inv shared_step_inv)

text \<open>
  C20: a target shared through \<open>Arc<Mutex<Option<T>>>\<close> is kicked or taken at most once in
  every interleaving of dropped handles, lock holders, takers and background tasks. Once a handle
  was dropped, no background task waits any more and no lock holder panicked, it was kicked or
  taken exactly once.
\<close>

theorem shared_kicked_once:
  assumes "shared_step\<^sup>*\<^sup>* (shared_start x n m) s"
  shows "(kicked s @ taken s = [] \<or> kicked s @ taken s = [x]) \<and>
    (fired s \<and> \<not> poisoned (cell s) \<and> pending_tasks (cell s) = 0 \<longrightarrow> kicked s @ taken s = [x])"
  using shared_run_inv [OF assms]
  by (cases "kicked s @ taken s") (auto simp: shared_inv_def split: option.splits)

theorem shared_kicked_once_witness:
  "\<exists>s. shared_step\<^sup>*\<^sup>* (shared_start (7 :: nat) 1 1) s \<and> fired s \<and> kicked s @ taken s = [7]"
proof -
  let ?c = "\<lambda>r l p k. \<lparr>refs = r, locked = l, poisoned = False, content = k, pending_tasks = p, outstanding = 0\<rparr>"
  let ?s0 = "shared_start (7 :: nat) 1 1"
  let ?s1 = "\<lparr>cell = ?c 2 True 0 (Some (7 :: nat)), handles = 1, kicked = [], taken = [], fired = False\<rparr>"
  let ?s2 = "\<lparr>cell = ?c 2 True 1 (Some (7 :: nat)), handles = 0, kicked = [], taken = [], fired = True\<rparr>"
  let ?s3 = "\<lparr>cell = ?c 2 False 1 (Some (7 :: nat)), handles = 0, kicked = [], taken = [], fired = True\<rparr>"
  let ?s4 = "\<lparr>cell = ?c 1 False 0 None, handles = 0, kicked = [7 :: nat], taken = [], fired = True\<rparr>"
  have "shared_step ?s0 ?s1"
    using lock_cell [of ?s0] by (simp add: shared_start_def numeral_2_eq_2)
  moreover have "shared_step ?s1 ?s2"
    using drop_handle [of ?s1 _ False] by (simp add: shared_defs)
  moreover have "shared_step ?s2 ?s3"
    using unlock_cell [of ?s2 False] by simp
  moreover have "shared_step ?s3 ?s4"
    using run_task [of ?s3] by (simp add: shared_defs)
  ultimately have r: "shared_step\<^sup>*\<^sup>* ?s0 ?s4"
    by (meson converse_rtranclp_into_rtranclp rtranclp.rtrancl_refl)
  then show ?thesis using shared_kicked_once [OF r] by auto
qed

end
