(* ===== verification/Tunnels.thy ===== *)
theory Tunnels
  imports Ip_Text Tunnel_Id Dropkick
begin

text \<open>
  The vocabulary of tunnels (\<open>common/protocol/tunnel/mod.rs\<close>) and the in-memory tunnel pair
  of \<open>common/protocol/tunnel/duplex.rs\<close>: errors, sides, addresses, close reasons, and the two
  entangled ends, whose streams arrive in the order and in the pairs in which they were opened.
\<close>

section \<open>Errors, sides, addresses\<close>

datatype tunnel_error = ConnectionClosed | ApplicationClosed | TimedOut | TransportError | LocallyClosed

datatype tunnel_side = Connect | Listen

datatype tunnel_address_info = Unidentified | Socket socket_addr | AddrPort port

fun show_socket_addr :: "socket_addr \<Rightarrow> rstr" where
  "show_socket_addr (SockV4 a p) = show_ipv4 a @ [colon] @ show_u16 p"
| "show_socket_addr (SockV6 a p f s) =
    lit ''['' @ show_ipv6 a @ (if s = 0 then [] else lit ''%'' @ show_nat (unat s)) @ lit '']:'' @ show_u16 p"

fun show_address_info :: "tunnel_address_info \<Rightarrow> rstr" where
  "show_address_info Unidentified = lit ''Unidentified''"
| "show_address_info (Socket s) = show_socket_addr s"
| "show_address_info (AddrPort p) = show_u16 p"

section \<open>Close reasons\<close>

text \<open>The opaque error of an application is its message.\<close>

datatype tunnel_close_reason =
    GracefulExit (remote_initiated: bool)
  | AuthenticationFailure (remote_responsible: "bool option")
  | CloseError tunnel_error
  | CloseApplicationError rstr
  | ApplicationErrorMessage rstr
  | Unspecified

fun is_unspecified :: "tunnel_close_reason \<Rightarrow> bool" where
  "is_unspecified Unspecified = True"
| "is_unspecified _ = False"

fun is_graceful_exit :: "tunnel_close_reason \<Rightarrow> bool" where
  "is_graceful_exit (GracefulExit r) = True"
| "is_graceful_exit _ = False"

lemma is_unspecified_iff: "is_unspecified r \<longleftrightarrow> r = Unspecified"
  by (cases r) auto

fun show_tunnel_error :: "tunnel_error \<Rightarrow> rstr" where
  "show_tunnel_error ConnectionClosed = lit ''Connection closed''"
| "show_tunnel_error ApplicationClosed = lit ''Connection closed by application''"
| "show_tunnel_error TimedOut = lit ''Connection timed out''"
| "show_tunnel_error TransportError = lit ''Transport error encountered''"
| "show_tunnel_error LocallyClosed = lit ''Connection closed locally''"

fun show_close_reason :: "tunnel_close_reason \<Rightarrow> rstr" where
  "show_close_reason (GracefulExit r) =
    lit ''Tunnel closed gracefully - initiator: '' @ (if r then lit ''remote'' else lit ''local'')"
| "show_close_reason (AuthenticationFailure r) =
    lit ''Tunnel failed authentication - responsibility: '' @
    (case r of Some True \<Rightarrow> lit ''remote'' | Some False \<Rightarrow> lit ''local'' | None \<Rightarrow> lit ''unknown'')"
| "show_close_reason (CloseError e) = lit ''Tunnel closed due to error: '' @ show_tunnel_error e"
| "show_close_reason (CloseApplicationError m) = lit ''Tunnel closed due to application error: '' @ m"
| "show_close_reason (ApplicationErrorMessage m) =
    lit ''Tunnel closed due to application error message: '' @ m"
| "show_close_reason Unspecified = lit ''Tunnel closed without indication of reason''"

section \<open>Unbounded channels\<close>

text \<open>
  tokio's unbounded mpsc channel, one state per channel: \<open>send\<close> answers whether the message
  was taken, \<open>recv\<close> is a poll of the receiver.
\<close>

record ('m, 'q) mpsc =
  mpsc_send :: "'m \<Rightarrow> 'q \<Rightarrow> bool \<times> 'q"
  mpsc_recv :: "'q \<Rightarrow> 'm option poll \<times> 'q"
  mpsc_new :: 'q

text \<open>
  Documented behaviour: messages are received in the order in which they were sent, a send is
  taken as long as the receiver lives, and the receiver sees the end only when nothing is queued.
\<close>

locale mpsc_channel =
  fixes C :: "('m, 'q) mpsc"
    and queued :: "'q \<Rightarrow> 'm list"
  assumes new_empty: "queued (mpsc_new C) = []"
    and send_taken: "mpsc_send C m q = (True, q') \<Longrightarrow> queued q' = queued q @ [m]"
    and send_refused: "mpsc_send C m q = (False, q') \<Longrightarrow> queued q' = queued q"
    and recv_item: "mpsc_recv C q = (Ready (Some m), q') \<Longrightarrow> queued q = m # queued q'"
    and recv_end: "mpsc_recv C q = (Ready None, q') \<Longrightarrow> queued q = [] \<and> queued q' = []"
    and recv_pending: "mpsc_recv C q = (Pending, q') \<Longrightarrow> queued q = [] \<and> queued q' = []"

text \<open>A channel as its queue and whether both ends live.\<close>

definition list_mpsc :: "('m, 'm list \<times> bool \<times> bool) mpsc" where
  "list_mpsc =
    \<lparr>mpsc_send = \<lambda>m (q, tx_alive, rx_alive).
       if rx_alive then (True, (q @ [m], tx_alive, rx_alive)) else (False, (q, tx_alive, rx_alive)),
     mpsc_recv = \<lambda>(q, tx_alive, rx_alive).
       case q of
         m # ms \<Rightarrow> (Ready (Some m), (ms, tx_alive, rx_alive))
       | [] \<Rightarrow> (if tx_alive then Pending else Ready None, (q, tx_alive, rx_alive)),
     mpsc_new = ([], True, True)\<rparr>"

interpretation queue_channel: mpsc_channel list_mpsc fst
  by unfold_locales (auto simp: list_mpsc_def split: list.splits if_splits)

section \<open>Duplex tunnels\<close>

text \<open>
  A pair of entangled tunnels: the channel towards each end, and the number of in-memory streams
  made so far. \<open>tokio::io::duplex\<close> makes a new pair of connected stream ends; an end is its
  pair's number and a flag telling the local from the remote end.
\<close>

type_synonym duplex_end = "nat \<times> bool"

record 'q duplex_tunnel =
  duplex_id :: tunnel_id
  duplex_side :: tunnel_side
  channel_to_remote :: 'q

record 'q entangled =
  listener :: "'q duplex_tunnel"
  connector :: "'q duplex_tunnel"
  next_pair :: nat

definition duplex_for :: "tunnel_id \<Rightarrow> 'q \<Rightarrow> tunnel_side \<Rightarrow> 'q duplex_tunnel" where
  "duplex_for i up side = \<lparr>duplex_id = i, duplex_side = side, channel_to_remote = up\<rparr>"

definition duplex_channel :: "(duplex_end, 'q) mpsc \<Rightarrow> 'q entangled" where
  "duplex_channel C =
    \<lparr>listener = duplex_for 0 (mpsc_new C) Listen, connector = duplex_for 1 (mpsc_new C) Connect,
     next_pair = 0\<rparr>"

fun end_of :: "tunnel_side \<Rightarrow> 'q entangled \<Rightarrow> 'q duplex_tunnel" where
  "end_of Listen e = listener e"
| "end_of Connect e = connector e"

fun set_end :: "tunnel_side \<Rightarrow> 'q duplex_tunnel \<Rightarrow> 'q entangled \<Rightarrow> 'q entangled" where
  "set_end Listen d e = e\<lparr>listener := d\<rparr>"
| "set_end Connect d e = e\<lparr>connector := d\<rparr>"

fun other_side :: "tunnel_side \<Rightarrow> tunnel_side" where
  "other_side Listen = Connect"
| "other_side Connect = Listen"

definition duplex_open_link ::
  "(duplex_end, 'q) mpsc \<Rightarrow> tunnel_side \<Rightarrow> 'q entangled \<Rightarrow> (tunnel_error, duplex_end) result \<times> 'q entangled" where
  "duplex_open_link C side e =
    (let local = (next_pair e, True); remote = (next_pair e, False); d = end_of side e;
         (taken, q) = mpsc_send C remote (channel_to_remote d);
         e' = set_end side (d\<lparr>channel_to_remote := q\<rparr>) (e\<lparr>next_pair := Suc (next_pair e)\<rparr>)
     in (if taken then Ok local else Err ConnectionClosed, e'))"

text \<open>A poll of the stream of a side's downlink, fed by the other side's channel.\<close>

definition duplex_poll_incoming ::
  "(duplex_end, 'q) mpsc \<Rightarrow> tunnel_side \<Rightarrow> 'q entangled \<Rightarrow>
   (tunnel_error, duplex_end) result option poll \<times> 'q entangled" where
  "duplex_poll_incoming C side e =
    (let d = end_of (other_side side) e; (p, q) = mpsc_recv C (channel_to_remote d)
     in (map_poll_ready (map_option Ok) p, set_end (other_side side) (d\<lparr>channel_to_remote := q\<rparr>) e))"

datatype duplex_op = OpenLink tunnel_side | PollIncoming tunnel_side

datatype duplex_event =
    Opened tunnel_side "(tunnel_error, duplex_end) result"
  | Polled tunnel_side "(tunnel_error, duplex_end) result option poll"

fun duplex_apply ::
  "(duplex_end, 'q) mpsc \<Rightarrow> duplex_op \<Rightarrow> 'q entangled \<Rightarrow> duplex_event \<times> 'q entangled" where
  "duplex_apply C (OpenLink side) e = apfst (Opened side) (duplex_open_link C side e)"
| "duplex_apply C (PollIncoming side) e = apfst (Polled side) (duplex_poll_incoming C side e)"

fun duplex_run ::
  "(duplex_end, 'q) mpsc \<Rightarrow> duplex_op list \<Rightarrow> 'q entangled \<Rightarrow> duplex_event list \<times> 'q entangled" where
  "duplex_run C [] e = ([], e)"
| "duplex_run C (x # xs) e =
    (case duplex_apply C x e of (a, e1) \<Rightarrow> case duplex_run C xs e1 of (as, e2) \<Rightarrow> (a # as, e2))"

text \<open>The streams opened by a side, and the streams that reached a side, in order.\<close>

fun opened_by :: "tunnel_side \<Rightarrow> duplex_event list \<Rightarrow> nat list" where
  "opened_by side [] = []"
| "opened_by side (Opened t (Inr s) # es) = (if t = side then fst s # opened_by side es else opened_by side es)"
| "opened_by side (_ # es) = opened_by side es"

fun reached :: "tunnel_side \<Rightarrow> duplex_event list \<Rightarrow> nat list" where
  "reached side [] = []"
| "reached side (Polled t (Ready (Some (Inr s))) # es) = (if t = side then fst s # reached side es else reached side es)"
| "reached side (_ # es) = reached side es"

definition in_flight :: "('q \<Rightarrow> duplex_end list) \<Rightarrow> tunnel_side \<Rightarrow> 'q entangled \<Rightarrow> nat list" where
  "in_flight queued side e = map fst (queued (channel_to_remote (end_of side e)))"

lemma end_of_set_end [simp]:
  "end_of s (set_end t d e) = (if s = t then d else end_of s e)"
  "end_of s (e\<lparr>next_pair := n\<rparr>) = end_of s e"
  by (cases s; cases t; simp; fail)+

lemma other_side_eq [simp]: "other_side s = t \<longleftrightarrow> s \<noteq> t" "t = other_side s \<longleftrightarrow> s \<noteq> t"
  by (cases s; cases t; simp)+

locale duplex_link = mpsc_channel C queued
  for C :: "(duplex_end, 'q) mpsc" and queued :: "'q \<Rightarrow> duplex_end list"
begin

lemma duplex_apply_fifo:
  assumes "duplex_apply C x e = (a, e')"
  shows "in_flight queued side e @ opened_by side [a] = reached (other_side side) [a] @ in_flight queued side e'"
proof (cases x)
  case (OpenLink s)
  obtain b q where b: "mpsc_send C (next_pair e, False) (channel_to_remote (end_of s e)) = (b, q)" by fastforce
  then show ?thesis
    using assms OpenLink send_taken send_refused
    by (cases b) (auto simp: duplex_open_link_def in_flight_def)
next
  case (PollIncoming s)
  obtain p q where p: "mpsc_recv C (channel_to_remote (end_of (other_side s) e)) = (p, q)" by fastforce
  consider "p = Pending" | "p = Ready None" | m where "p = Ready (Some m)"
    by (metis option.exhaust poll.exhaust)
  then show ?thesis
    by cases (insert assms PollIncoming p, (cases s; cases side;
      auto simp: duplex_poll_incoming_def in_flight_def dest: recv_item recv_pending recv_end)+)
qed

lemma duplex_run_fifo:
  "duplex_run C xs e = (log, e') \<Longrightarrow>
    in_flight queued side e @ opened_by side log = reached (other_side side) log @ in_flight queued side e'"
proof (induction xs arbitrary: e log)
  case (Cons x xs)
  obtain a e1 where a: "duplex_apply C x e = (a, e1)" by fastforce
  obtain as where as: "duplex_run C xs e1 = (as, e')" "log = a # as"
    using Cons.prems a by (auto split: prod.splits)
  have app: "opened_by side (a # as) = opened_by side [a] @ opened_by side as"
    "reached (other_side side) (a # as) = reached (other_side side) [a] @ reached (other_side side) as"
    by (cases "(side, a # as)" rule: opened_by.cases; simp)
       (cases "(other_side side, a # as)" rule: reached.cases; simp)
  show ?case
    using Cons.IH [OF as(1)] duplex_apply_fifo [OF a, of side] unfolding as(2) app
    by (metis append.assoc)
qed simp

end

interpretation duplex_queue: duplex_link list_mpsc fst
  by unfold_locales

text \<open>
  An entangled pair of duplex tunnels delivers streams in order and in pairs: in every
  sequence of opens and polls, the streams that reached one side, followed by those still queued,
  are the streams the other side opened, in the order of opening.
\<close>

lemma duplex_fifo:
  assumes "mpsc_channel C queued" and "duplex_run C ops (duplex_channel C) = (log, e)"
  shows "opened_by side log = reached (other_side side) log @ in_flight queued side e"
proof -
  have "duplex_link C queued" using assms(1) by (rule duplex_link.intro)
  from duplex_link.duplex_run_fifo [OF this assms(2), of side] show ?thesis
    using mpsc_channel.new_empty [OF assms(1)]
    by (cases side) (simp_all add: duplex_channel_def duplex_for_def in_flight_def)
qed

lemma duplex_fifo_witness:
  "mpsc_channel (list_mpsc :: (duplex_end, _) mpsc) fst \<and>
   reached Connect (fst (duplex_run list_mpsc [OpenLink Listen, OpenLink Listen, PollIncoming Connect]
     (duplex_channel list_mpsc))) = [0] \<and>
   opened_by Listen (fst (duplex_run list_mpsc [OpenLink Listen, OpenLink Listen, PollIncoming Connect]
     (duplex_channel list_mpsc))) = [0] @ [1]"
proof -
  let ?r = "duplex_run list_mpsc [OpenLink Listen, OpenLink Listen, PollIncoming Connect] (duplex_channel list_mpsc)"
  have m: "mpsc_channel (list_mpsc :: (duplex_end, _) mpsc) fst" by (rule queue_channel.mpsc_channel_axioms)
  have "?r = (fst ?r, snd ?r)" by simp
  from duplex_fifo [OF m this, of Listen] show ?thesis
    using m by (simp add: in_flight_def duplex_channel_def duplex_for_def duplex_open_link_def
        duplex_poll_incoming_def list_mpsc_def)
qed

end
