(* ===== verification/Quinn_Tunnel.thy ===== *)
theory Quinn_Tunnel
  imports Tunnels Registry Futures
begin

text \<open>
  The QUIC tunnel (\<open>common/protocol/tunnel/quinn_tunnel.rs\<close>). The connection belongs to
  quinn: the outcomes of \<open>accept_bi\<close> and \<open>open_bi\<close> are arguments of the operations that
  await them. The tokens are those of the locale \<open>cancellation\<close>. Operations that await are
  split where they can be interleaved: opening a link into the call and its completion.
\<close>

section \<open>Connection errors\<close>

datatype quinn_connection_error =
    VersionMismatch | QuinnTransportError | QuinnConnectionClosed | QuinnApplicationClosed
  | Reset | QuinnTimedOut | QuinnLocallyClosed | CidsExhausted

fun tunnel_error_of_quinn :: "quinn_connection_error \<Rightarrow> tunnel_error" where
  "tunnel_error_of_quinn VersionMismatch = TransportError"
| "tunnel_error_of_quinn QuinnTransportError = TransportError"
| "tunnel_error_of_quinn QuinnConnectionClosed = ConnectionClosed"
| "tunnel_error_of_quinn QuinnApplicationClosed = ApplicationClosed"
| "tunnel_error_of_quinn Reset = TransportError"
| "tunnel_error_of_quinn QuinnTimedOut = TimedOut"
| "tunnel_error_of_quinn QuinnLocallyClosed = LocallyClosed"
| "tunnel_error_of_quinn CidsExhausted = TransportError"

section \<open>The tunnel\<close>

text \<open>
  The immutable part of a tunnel, with the two listeners of the task that joins the per-direction
  tokens, and the shared state its parts point to.
\<close>

record 'k quinn_tunnel =
  qt_id :: tunnel_id
  qt_side :: tunnel_side
  closed :: 'k
  incoming_closed :: 'k
  outgoing_closed :: 'k
  join_incoming :: "'k cancellation_listener"
  join_outgoing :: "'k cancellation_listener"

record 't quinn_state =
  tokens :: 't
  close_reason :: tunnel_close_reason
  authenticated :: "tunnel_name option"
  notified :: "tunnel_name option"
  active_streams :: "64 word"
  connection_closed :: bool
  incoming_ended :: bool

definition from_quinn_connection ::
  "('k, 't) token_ops \<Rightarrow> tunnel_id \<Rightarrow> tunnel_side \<Rightarrow> 't \<Rightarrow> 'k quinn_tunnel \<times> 't quinn_state" where
  "from_quinn_connection T i side t0 =
    (let (overall_cancellation, t1) = token_new T t0;
         (incoming_cancellation, t2) = child_token T overall_cancellation t1;
         (outgoing_cancellation, t3) = child_token T overall_cancellation t2;
         (outgoing, t4) = child_token T overall_cancellation t3;
         t5 = dropkick_drop (kick_token T) (dropkick_new outgoing_cancellation) t4
     in (\<lparr>qt_id = i, qt_side = side, closed = overall_cancellation,
          incoming_closed = incoming_cancellation, outgoing_closed = outgoing,
          join_incoming = listener_of incoming_cancellation,
          join_outgoing = listener_of outgoing_cancellation\<rparr>,
         \<lparr>tokens = t5, close_reason = Unspecified, authenticated = None, notified = None,
          active_streams = 0, connection_closed = False, incoming_ended = False\<rparr>))"

text \<open>The spawned task, run once both listeners report cancellation.\<close>

definition join_task :: "('k, 't) token_ops \<Rightarrow> 'k quinn_tunnel \<Rightarrow> 't quinn_state \<Rightarrow> 't quinn_state" where
  "join_task T q s =
    (if listener_is_cancelled T (join_incoming q) (tokens s) \<and>
        listener_is_cancelled T (join_outgoing q) (tokens s)
     then s\<lparr>tokens := if \<not> is_cancelled T (closed q) (tokens s) then cancel T (closed q) (tokens s) else tokens s\<rparr>
     else s)"

definition is_closed :: "('k, 't) token_ops \<Rightarrow> 'k quinn_tunnel \<Rightarrow> 't quinn_state \<Rightarrow> bool" where
  "is_closed T q s = is_cancelled T (closed q) (tokens s)"

definition is_closed_uplink :: "('k, 't) token_ops \<Rightarrow> 'k quinn_tunnel \<Rightarrow> 't quinn_state \<Rightarrow> bool" where
  "is_closed_uplink T q s = is_cancelled T (outgoing_closed q) (tokens s)"

definition is_closed_downlink :: "('k, 't) token_ops \<Rightarrow> 'k quinn_tunnel \<Rightarrow> 't quinn_state \<Rightarrow> bool" where
  "is_closed_downlink T q s = is_cancelled T (incoming_closed q) (tokens s)"

text \<open>A poll of the futures that report closing.\<close>

definition on_closed_poll ::
  "('k, 't) token_ops \<Rightarrow> 'k quinn_tunnel \<Rightarrow> 't quinn_state \<Rightarrow> tunnel_close_reason poll" where
  "on_closed_poll T q s = (if listener_is_cancelled T (listener_of (closed q)) (tokens s)
     then Ready (close_reason s) else Pending)"

definition on_closed_uplink_poll ::
  "('k, 't) token_ops \<Rightarrow> 'k quinn_tunnel \<Rightarrow> 't quinn_state \<Rightarrow> tunnel_close_reason poll" where
  "on_closed_uplink_poll T q s = (if is_cancelled T (outgoing_closed q) (tokens s)
     then Ready (close_reason s) else Pending)"

definition on_closed_downlink_poll ::
  "('k, 't) token_ops \<Rightarrow> 'k quinn_tunnel \<Rightarrow> 't quinn_state \<Rightarrow> tunnel_close_reason poll" where
  "on_closed_downlink_poll T q s = (if is_cancelled T (incoming_closed q) (tokens s)
     then Ready (close_reason s) else Pending)"

section \<open>Control\<close>

definition quinn_close ::
  "('k, 't) token_ops \<Rightarrow> 'k quinn_tunnel \<Rightarrow> tunnel_close_reason \<Rightarrow> 't quinn_state \<Rightarrow>
   (tunnel_close_reason, tunnel_close_reason) result \<times> 't quinn_state" where
  "quinn_close T q reason s =
    (let s = s\<lparr>connection_closed := True\<rparr>;
         prev = close_reason s;
         s = s\<lparr>close_reason := if is_unspecified prev then reason else prev\<rparr>;
         s = s\<lparr>tokens := if \<not> is_cancelled T (closed q) (tokens s) then cancel T (closed q) (tokens s) else tokens s\<rparr>
     in (if is_unspecified prev then Ok prev else Err prev, s))"

text \<open>The part of \<open>report_authentication_success\<close> that runs under the write lock.\<close>

definition report_locked ::
  "('k, 't) token_ops \<Rightarrow> 'k quinn_tunnel \<Rightarrow> tunnel_name \<Rightarrow> 't quinn_state \<Rightarrow>
   (tunnel_close_reason option, unit) result \<times> 't quinn_state" where
  "report_locked T q name s =
    (if is_cancelled T (closed q) (tokens s) then (Err (Some (close_reason s)), s)
     else if authenticated s \<noteq> None then (Err None, s)
     else (Ok (), s\<lparr>authenticated := Some name, notified := Some name\<rparr>))"

definition report_authentication_success ::
  "('k, 't) token_ops \<Rightarrow> 'k quinn_tunnel \<Rightarrow> tunnel_name \<Rightarrow> 't quinn_state \<Rightarrow>
   (tunnel_close_reason option, unit) result \<times> 't quinn_state" where
  "report_authentication_success T q name s =
    (if is_cancelled T (closed q) (tokens s) then (Err (Some (close_reason s)), s)
     else report_locked T q name s)"

text \<open>
  \<open>on_authenticated\<close>: its first poll looks at the token before the current value, and a later
  one waits for a value \<open>poll_until\<close> the token is cancelled.
\<close>

definition on_authenticated_first ::
  "('k, 't) token_ops \<Rightarrow> 'k quinn_tunnel \<Rightarrow> 't quinn_state \<Rightarrow> (tunnel_close_reason, tunnel_name) result poll" where
  "on_authenticated_first T q s =
    (if is_cancelled T (closed q) (tokens s) then Ready (Err (close_reason s))
     else case notified s of Some v \<Rightarrow> Ready (Ok v) | None \<Rightarrow> Pending)"

definition on_authenticated_wait ::
  "('k, 't) token_ops \<Rightarrow> 'k quinn_tunnel \<Rightarrow> 't quinn_state \<Rightarrow> (tunnel_close_reason, tunnel_name) result poll" where
  "on_authenticated_wait T q s =
    map_poll_ready (\<lambda>res. ok_or (close_reason s) (Option.bind res (\<lambda>v. v)))
      (fst (poll_until_poll
         (\<lambda>v. (case v of Some n \<Rightarrow> Ready (Some n) | None \<Rightarrow> Pending, v))
         (\<lambda>c. (if c then Ready () else Pending, c))
         \<lparr>task = notified s, canceller = Some (is_cancelled T (closed q) (tokens s))\<rparr>))"

lemma on_authenticated_wait_eq: "on_authenticated_wait T q s = on_authenticated_first T q s"
  by (auto simp: on_authenticated_wait_def on_authenticated_first_def poll_until_poll_def
      split: option.splits)

section \<open>Links\<close>

definition open_link_call ::
  "('k, 't) token_ops \<Rightarrow> 'k quinn_tunnel \<Rightarrow> 't quinn_state \<Rightarrow> tunnel_error option" where
  "open_link_call T q s = (if is_closed_uplink T q s then Some ConnectionClosed else None)"

definition open_link_complete ::
  "('k, 't) token_ops \<Rightarrow> 'k quinn_tunnel \<Rightarrow> (quinn_connection_error, 'b) result \<Rightarrow> 't quinn_state \<Rightarrow>
   (tunnel_error, 'b) result \<times> 't quinn_state" where
  "open_link_complete T q opened s =
    (case opened of
       Inr streams \<Rightarrow> (Ok streams, s\<lparr>active_streams := active_streams s + 1\<rparr>)
     | Inl e \<Rightarrow>
         (let tunnel_error = tunnel_error_of_quinn e;
              s = s\<lparr>close_reason := CloseError tunnel_error\<rparr>
          in (Err tunnel_error,
              s\<lparr>tokens := if \<not> is_cancelled T (outgoing_closed q) (tokens s)
                          then cancel T (outgoing_closed q) (tokens s) else tokens s\<rparr>)))"

definition incoming_poll_next ::
  "('k, 't) token_ops \<Rightarrow> 'k quinn_tunnel \<Rightarrow> (quinn_connection_error, 'b) result poll \<Rightarrow> 't quinn_state \<Rightarrow>
   (tunnel_error, 'b) result option poll \<times> 't quinn_state" where
  "incoming_poll_next T q accepted s =
    (if incoming_ended s then (Ready None, s)
     else if is_cancelled T (incoming_closed q) (tokens s) then (Ready None, s\<lparr>incoming_ended := True\<rparr>)
     else case accepted of
       Pending \<Rightarrow> (Pending, s)
     | Ready (Inr streams) \<Rightarrow> (Ready (Some (Ok streams)), s\<lparr>active_streams := active_streams s + 1\<rparr>)
     | Ready (Inl e) \<Rightarrow>
         (let s = s\<lparr>close_reason := CloseError ConnectionClosed\<rparr>
          in (Ready (Some (Err (tunnel_error_of_quinn e))),
              s\<lparr>tokens := if \<not> is_cancelled T (incoming_closed q) (tokens s)
                          then cancel T (incoming_closed q) (tokens s) else tokens s\<rparr>)))"

definition downlink_available :: "('k, 't) token_ops \<Rightarrow> 'k quinn_tunnel \<Rightarrow> 't quinn_state \<Rightarrow> bool" where
  "downlink_available T q s = (\<not> is_closed_downlink T q s)"

text \<open>Dropping the reading half of a stream.\<close>

definition stream_drop_guard :: "'t quinn_state \<Rightarrow> 't quinn_state" where
  "stream_drop_guard s = s\<lparr>active_streams := active_streams s - 1\<rparr>"

section \<open>Runs of a tunnel\<close>

text \<open>
  The operations of a tunnel in any order. A run has, beside the state, the number of links whose
  opening was called and has not completed, and the number of streams that were handed out and
  not dropped.
\<close>

datatype quinn_op =
    DoClose tunnel_close_reason
  | DoReport tunnel_name
  | DoOpen
  | DoOpened "(quinn_connection_error, unit) result"
  | DoAccept "(quinn_connection_error, unit) result poll"
  | DoJoin
  | DoDropStream

type_synonym 't quinn_run = "'t quinn_state \<times> nat \<times> nat"

fun quinn_apply :: "('k, 't) token_ops \<Rightarrow> 'k quinn_tunnel \<Rightarrow> quinn_op \<Rightarrow> 't quinn_run \<Rightarrow> 't quinn_run" where
  "quinn_apply T q (DoClose r) (s, n, m) = (snd (quinn_close T q r s), n, m)"
| "quinn_apply T q (DoReport name) (s, n, m) = (snd (report_authentication_success T q name s), n, m)"
| "quinn_apply T q DoOpen (s, n, m) = (case open_link_call T q s of None \<Rightarrow> (s, Suc n, m) | Some _ \<Rightarrow> (s, n, m))"
| "quinn_apply T q (DoOpened r) (s, n, m) =
    (if n = 0 then (s, n, m)
     else case open_link_complete T q r s of (a, s') \<Rightarrow> (s', n - 1, if is_ok a then Suc m else m))"
| "quinn_apply T q (DoAccept r) (s, n, m) =
    (case incoming_poll_next T q r s of (a, s') \<Rightarrow> (s', n, if a = Ready (Some (Ok ())) then Suc m else m))"
| "quinn_apply T q DoJoin (s, n, m) = (join_task T q s, n, m)"
| "quinn_apply T q DoDropStream (s, n, m) = (if m = 0 then (s, n, m) else (stream_drop_guard s, n, m - 1))"

definition quinn_run :: "('k, 't) token_ops \<Rightarrow> 'k quinn_tunnel \<Rightarrow> quinn_op list \<Rightarrow> 't quinn_run \<Rightarrow> 't quinn_run" where
  "quinn_run T q ops c = fold (quinn_apply T q) ops c"

text \<open>
  The failures of opens that are under way: with \<open>n\<close> of them pending, only the first \<open>n\<close>
  completions count.
\<close>

fun failed_opens :: "nat \<Rightarrow> quinn_op list \<Rightarrow> quinn_connection_error list" where
  "failed_opens n [] = []"
| "failed_opens 0 (x # ops) = []"
| "failed_opens (Suc n) (DoOpened (Inl e) # ops) = e # failed_opens n ops"
| "failed_opens (Suc n) (DoOpened (Inr u) # ops) = failed_opens n ops"
| "failed_opens (Suc n) (x # ops) = failed_opens (Suc n) ops"

lemma failed_opens_0 [simp]: "failed_opens 0 ops = []"
  by (cases ops) simp_all

definition late_reason :: "quinn_connection_error list \<Rightarrow> tunnel_close_reason \<Rightarrow> tunnel_close_reason" where
  "late_reason es reason =
    (case rev es of [] \<Rightarrow> reason | e # _ \<Rightarrow> CloseError (tunnel_error_of_quinn e))"

lemma late_reason_append: "late_reason (es @ fs) reason = late_reason fs (late_reason es reason)"
  by (cases "rev fs") (simp_all add: late_reason_def)

lemma late_reason_specified: "reason \<noteq> Unspecified \<Longrightarrow> late_reason es reason \<noteq> Unspecified"
  by (simp add: late_reason_def split: list.splits)

lemma quinn_run_simps [simp]:
  "quinn_run T q [] c = c"
  "quinn_run T q (x # xs) c = quinn_run T q xs (quinn_apply T q x c)"
  by (simp_all add: quinn_run_def)

lemmas quinn_defs = quinn_close_def report_authentication_success_def report_locked_def
  open_link_call_def open_link_complete_def incoming_poll_next_def join_task_def
  stream_drop_guard_def is_closed_uplink_def listener_is_cancelled_def

lemmas quinn_splits = option.splits sum.splits poll.splits if_splits prod.splits

text \<open>Every operation changes the tokens by kicking one of the tunnel's own, if at all.\<close>

lemma quinn_apply_tokens:
  "quinn_apply T q x (s, n, m) = (s', n', m') \<Longrightarrow>
    tokens s' = tokens s \<or> (\<exists>k \<in> {closed q, incoming_closed q, outgoing_closed q}. tokens s' = kick_token T k (tokens s))"
  by (cases x) (auto simp: quinn_defs kick_token_def Let_def split: quinn_splits)

subsection \<open>Counting streams, authenticating\<close>

definition quinn_counts :: "'t quinn_run \<Rightarrow> bool" where
  "quinn_counts c \<longleftrightarrow> (case c of (s, n, m) \<Rightarrow> active_streams s = of_nat m \<and> notified s = authenticated s)"

lemma quinn_apply_counts: "quinn_counts c \<Longrightarrow> quinn_counts (quinn_apply T q x c)"
  by (cases c; cases x)
     (auto simp: quinn_counts_def quinn_defs Let_def of_nat_diff split: quinn_splits)

lemma quinn_run_counts: "quinn_counts c \<Longrightarrow> quinn_counts (quinn_run T q ops c)"
  by (induction ops arbitrary: c) (simp_all add: quinn_apply_counts)

lemma quinn_apply_authenticated:
  "authenticated (fst c) = Some name \<Longrightarrow> authenticated (fst (quinn_apply T q x c)) = Some name"
  by (cases c; cases x) (auto simp: quinn_defs Let_def split: quinn_splits)

lemma quinn_run_authenticated:
  "authenticated (fst c) = Some name \<Longrightarrow> authenticated (fst (quinn_run T q ops c)) = Some name"
  by (induction ops arbitrary: c) (simp_all add: quinn_apply_authenticated)

subsection \<open>The tokens of a tunnel\<close>

definition quinn_tokens_ok ::
  "('k, 't) token_ops \<Rightarrow> ('k \<Rightarrow> 't \<Rightarrow> bool) \<Rightarrow> ('k \<Rightarrow> 'k \<Rightarrow> 't \<Rightarrow> bool) \<Rightarrow> 'k quinn_tunnel \<Rightarrow> 't \<Rightarrow> bool" where
  "quinn_tokens_ok T known below q t \<longleftrightarrow>
     known (closed q) t \<and> known (incoming_closed q) t \<and> known (outgoing_closed q) t \<and>
     below (incoming_closed q) (closed q) t \<and> below (outgoing_closed q) (closed q) t \<and>
     join_incoming q = listener_of (incoming_closed q) \<and>
     is_cancelled T (token (join_outgoing q)) t"

context cancellation
begin

lemma from_quinn_connection_ok:
  assumes "from_quinn_connection T i side t0 = (q, s)"
  shows "quinn_tokens_ok T known below q (tokens s) \<and> \<not> is_closed T q s \<and> \<not> is_closed_uplink T q s \<and>
    \<not> is_closed_downlink T q s \<and> quinn_counts (s, 0, 0) \<and> close_reason s = Unspecified"
proof -
  obtain ov t1 where 1: "token_new T t0 = (ov, t1)" by fastforce
  obtain inc t2 where 2: "child_token T ov t1 = (inc, t2)" by fastforce
  obtain out t3 where 3: "child_token T ov t2 = (out, t3)" by fastforce
  obtain up t4 where 4: "child_token T ov t3 = (up, t4)" by fastforce
  note n1 = new_token [OF 1]
  have k1: "known ov t1" using n1 by simp
  note c2 = child [OF 2 k1, of ov] and f2 = child_frame [OF 2 k1 k1, of ov]
  have k2: "known ov t2" "known inc t2" using c2 f2 by auto
  note c3 = child [OF 3 k2(1), of ov] and f3 = child_frame [OF 3 k2(1) k2(1), of inc]
    and g3 = child_frame [OF 3 k2(1) k2(2), of ov]
  have k3: "known ov t3" "known inc t3" "known out t3" using c3 f3 g3 by auto
  note c4 = child [OF 4 k3(1), of ov] and d4 = child [OF 4 k3(1), of out]
    and f4 = child_frame [OF 4 k3(1) k3(1), of inc] and g4 = child_frame [OF 4 k3(1) k3(2), of ov]
    and h4 = child_frame [OF 4 k3(1) k3(3), of ov] and i4 = child_frame [OF 4 k3(1) k3(3), of inc]
  have k4: "known out t4" using h4 by simp
  note kick = kick_token_iff [OF k4] kick_token_frame
  show ?thesis
    using assms n1 c2 f2 c3 f3 g3 c4 d4 f4 g4 h4 i4 k1 k2 k3 below_refl
    by (auto simp: from_quinn_connection_def 1 2 3 4 dropkick_laws quinn_tokens_ok_def kick
        is_closed_def is_closed_uplink_def is_closed_downlink_def quinn_counts_def listener_of_def)
qed

lemma quinn_apply_tokens_ok:
  assumes "quinn_tokens_ok T known below q (tokens (fst c))"
  shows "quinn_tokens_ok T known below q (tokens (fst (quinn_apply T q x c)))"
proof -
  obtain s n m s' n' m' where c: "c = (s, n, m)" "quinn_apply T q x (s, n, m) = (s', n', m')"
    by (metis prod_cases3)
  show ?thesis
    using assms quinn_apply_tokens [OF c(2)] unfolding c(1) c(2)
    by (auto simp: quinn_tokens_ok_def kick_token_frame kick_token_iff)
qed

lemma quinn_run_tokens_ok:
  "quinn_tokens_ok T known below q (tokens (fst c)) \<Longrightarrow>
    quinn_tokens_ok T known below q (tokens (fst (quinn_run T q ops c)))"
  by (induction ops arbitrary: c) (simp_all add: quinn_apply_tokens_ok)

lemma quinn_close_closes:
  assumes "quinn_tokens_ok T known below q (tokens s)" "quinn_close T q reason s = (r, s')"
  shows "is_closed T q s' \<and> is_closed_uplink T q s' \<and> is_closed_downlink T q s'"
proof -
  have "tokens s' = kick_token T (closed q) (tokens s)"
    using assms(2) by (auto simp: quinn_close_def Let_def kick_token_def)
  then show ?thesis
    using assms(1) below_refl by (simp add: quinn_tokens_ok_def is_closed_def is_closed_uplink_def
        is_closed_downlink_def kick_token_iff)
qed

lemma quinn_close_run_closed:
  assumes "quinn_tokens_ok T known below q (tokens (fst c))" "is_closed T q (fst c)"
  shows "is_closed T q (fst (quinn_apply T q x c))"
proof -
  obtain s n m s' n' m' where c: "c = (s, n, m)" "quinn_apply T q x (s, n, m) = (s', n', m')"
    by (metis prod_cases3)
  show ?thesis
    using assms quinn_apply_tokens [OF c(2)] unfolding c(1) c(2)
    by (auto simp: quinn_tokens_ok_def is_closed_def kick_token_iff)
qed

lemma closed_both_ways:
  assumes "quinn_tokens_ok T known below q (tokens s)" "is_closed T q s"
  shows "is_closed_uplink T q s" "is_closed_downlink T q s"
  using assms below_cancelled
  by (auto simp: quinn_tokens_ok_def is_closed_def is_closed_uplink_def is_closed_downlink_def)

lemma closed_apply:
  assumes ok: "quinn_tokens_ok T known below q (tokens s)" and cl: "is_closed T q s"
    and step: "quinn_apply T q x (s, n, m) = (s', n', m')"
  shows "n' + m' \<le> n + m" "connection_closed s \<Longrightarrow> connection_closed s'"
    and "close_reason s \<noteq> Unspecified \<Longrightarrow> close_reason s' = late_reason (failed_opens n [x]) (close_reason s)"
    and "failed_opens n (x # ops) = failed_opens n [x] @ failed_opens n' ops"
proof -
  note both = closed_both_ways [OF ok cl]
  show "n' + m' \<le> n + m" "connection_closed s \<Longrightarrow> connection_closed s'"
    "close_reason s \<noteq> Unspecified \<Longrightarrow> close_reason s' = late_reason (failed_opens n [x]) (close_reason s)"
    "failed_opens n (x # ops) = failed_opens n [x] @ failed_opens n' ops"
    using step both cl
    by (cases x; cases n; auto simp: quinn_defs is_closed_def is_closed_downlink_def is_unspecified_iff
        late_reason_def Let_def split: quinn_splits)+
qed

text \<open>Whatever is called after a close, up to the completion of opens that were under way.\<close>

lemma closed_run:
  assumes "quinn_tokens_ok T known below q (tokens s)" "is_closed T q s"
    and "quinn_run T q ops (s, n, m) = (s', n', m')"
  shows "is_closed T q s' \<and> quinn_tokens_ok T known below q (tokens s') \<and> n' + m' \<le> n + m \<and>
    (connection_closed s \<longrightarrow> connection_closed s') \<and>
    (close_reason s \<noteq> Unspecified \<longrightarrow> close_reason s' = late_reason (failed_opens n ops) (close_reason s))"
  using assms
proof (induction ops arbitrary: s n m)
  case (Cons x ops)
  obtain s1 n1 m1 where c: "quinn_apply T q x (s, n, m) = (s1, n1, m1)" by (metis prod_cases3)
  note step = closed_apply [OF Cons.prems(1,2) c]
  have ok: "quinn_tokens_ok T known below q (tokens s1)" "is_closed T q s1"
    using quinn_apply_tokens_ok [of q "(s, n, m)" x] quinn_close_run_closed [of q "(s, n, m)" x] c Cons.prems(1,2)
    by simp_all
  have "quinn_run T q ops (s1, n1, m1) = (s', n', m')" using Cons.prems(3) c by simp
  from Cons.IH [OF ok this] step(1-3) show ?case
    unfolding step(4) [of ops] late_reason_append
    by (auto simp: late_reason_specified)
qed (simp add: late_reason_def)

lemma incoming_failure_closes:
  assumes ok: "quinn_tokens_ok T known below q (tokens s)"
    and run: "incoming_poll_next T q (Ready (Err e)) s = (Ready (Some (Err te)), s')"
  shows "is_closed T q (join_task T q s') \<and> is_closed_uplink T q (join_task T q s')"
proof -
  have t: "tokens s' = kick_token T (incoming_closed q) (tokens s)"
    using run by (auto simp: incoming_poll_next_def Let_def kick_token_def split: if_splits)
  have ok': "quinn_tokens_ok T known below q (tokens s')" "is_cancelled T (incoming_closed q) (tokens s')"
    using ok below_refl by (auto simp: t quinn_tokens_ok_def kick_token_frame kick_token_iff)
  then have "tokens (join_task T q s') = kick_token T (closed q) (tokens s')"
    by (auto simp: join_task_def quinn_tokens_ok_def listener_is_cancelled_def listener_of_def kick_token_def)
  then show ?thesis
    using ok' below_refl by (simp add: quinn_tokens_ok_def is_closed_def is_closed_uplink_def kick_token_iff)
qed

end

section \<open>Properties\<close>

text \<open>
  C16: what closing a QUIC tunnel does, at any point of any run and for everything called after
  it. The tunnel stays closed: links are refused, the downlink is gone and its stream has ended,
  authentication is refused, and those who wait for the closing are told the reason. No stream is
  handed out any more but for links whose opening was under way at the close. The close keeps a
  reason that was specified before and returns it as an error; a specified reason then stays,
  except that a link whose opening was under way and fails puts its own error in its place.
\<close>

theorem quinn_close_effect:
  assumes "cancellation T known below"
    and "from_quinn_connection T i side t0 = (q, s0)"
    and "quinn_run T q before (s0, 0, 0) = (s1, n1, m1)"
    and "quinn_close T q reason s1 = (r, s2)"
    and "quinn_run T q later (s2, n1, m1) = (s, n, m)"
  shows "(if close_reason s1 = Unspecified then r = Ok Unspecified \<and> close_reason s2 = reason
     else r = Err (close_reason s1) \<and> close_reason s2 = close_reason s1) \<and>
    is_closed T q s \<and> connection_closed s \<and> open_link_call T q s = Some ConnectionClosed \<and>
    \<not> downlink_available T q s \<and> fst (incoming_poll_next T q accepted s) = Ready None \<and>
    report_authentication_success T q name s = (Err (Some (close_reason s)), s) \<and>
    on_closed_poll T q s = Ready (close_reason s) \<and> n + m \<le> n1 + m1 \<and>
    (close_reason s2 \<noteq> Unspecified \<longrightarrow> close_reason s =
      (case rev (failed_opens n1 later) of
         [] \<Rightarrow> close_reason s2
       | e # _ \<Rightarrow> CloseError (tunnel_error_of_quinn e)))"
proof -
  have "quinn_tokens_ok T known below q (tokens s0)"
    using cancellation.from_quinn_connection_ok [OF assms(1,2)] by simp
  then have ok: "quinn_tokens_ok T known below q (tokens s1)"
    using cancellation.quinn_run_tokens_ok [OF assms(1), of q "(s0, 0, 0)" before] assms(3) by simp
  have "quinn_tokens_ok T known below q (tokens s2)"
    using cancellation.quinn_apply_tokens_ok [OF assms(1), of q "(s1, n1, m1)" "DoClose reason"] ok assms(4) by simp
  moreover have "is_closed T q s2"
    using cancellation.quinn_close_closes [OF assms(1) ok assms(4)] by simp
  ultimately have run: "is_closed T q s" "quinn_tokens_ok T known below q (tokens s)" "n + m \<le> n1 + m1"
      "connection_closed s2 \<longrightarrow> connection_closed s"
      "close_reason s2 \<noteq> Unspecified \<longrightarrow> close_reason s = late_reason (failed_opens n1 later) (close_reason s2)"
    using cancellation.closed_run [OF assms(1) _ _ assms(5)] by blast+
  have close: "connection_closed s2" "if close_reason s1 = Unspecified then r = Ok Unspecified \<and> close_reason s2 = reason
     else r = Err (close_reason s1) \<and> close_reason s2 = close_reason s1"
    using assms(4) by (auto simp: quinn_close_def is_unspecified_iff Let_def)
  note both = cancellation.closed_both_ways [OF assms(1) run(2,1)]
  show ?thesis
    using run close both
    by (auto simp: open_link_call_def downlink_available_def report_authentication_success_def incoming_poll_next_def
        on_closed_poll_def listener_is_cancelled_def listener_of_def is_closed_def is_closed_downlink_def
        late_reason_def)
qed

theorem quinn_close_effect_witness:
  "let (q, s0) = from_quinn_connection forest_ops 7 Listen (0, []);
       (s1, n1, m1) = quinn_run forest_ops q [DoOpen, DoReport (lit ''a'')] (s0, 0, 0);
       (r, s2) = quinn_close forest_ops q (GracefulExit False) s1;
       (s, n, m) = quinn_run forest_ops q [DoClose (ApplicationErrorMessage (lit ''b'')), DoOpened (Err QuinnTimedOut)] (s2, n1, m1)
   in r = Ok Unspecified \<and> close_reason s2 = GracefulExit False \<and>
      open_link_call forest_ops q s = Some ConnectionClosed \<and> close_reason s = CloseError TimedOut"
proof -
  obtain q s0 where q: "from_quinn_connection forest_ops 7 Listen (0, []) = (q, s0)" by fastforce
  have u: "\<not> is_closed_uplink forest_ops q s0" "close_reason s0 = Unspecified"
    using token_forest.from_quinn_connection_ok [OF q] by simp_all
  obtain s1 n1 m1 where s1: "quinn_run forest_ops q [DoOpen, DoReport (lit ''a'')] (s0, 0, 0) = (s1, n1, m1)"
    by (metis prod_cases3)
  then have c: "close_reason s1 = Unspecified" "n1 = 1"
    using u by (auto simp: quinn_defs split: quinn_splits)
  obtain r s2 where r: "quinn_close forest_ops q (GracefulExit False) s1 = (r, s2)" by fastforce
  obtain s n m where s: "quinn_run forest_ops q [DoClose (ApplicationErrorMessage (lit ''b'')), DoOpened (Err QuinnTimedOut)]
      (s2, n1, m1) = (s, n, m)" by (metis prod_cases3)
  show ?thesis
    unfolding Let_def q prod.case s1 r s
    using quinn_close_effect [OF token_forest.cancellation_axioms q s1 r s,
        where accepted = "Pending :: (quinn_connection_error, unit) result poll" and name = "lit ''b''"] c
    by simp
qed

text \<open>
  C17: in every run of a QUIC tunnel the active-stream counter is the number of streams handed
  out and not yet dropped (modulo the counter's width), the watchers of the authentication see
  the stored name, and once a tunnel is authenticated its name never changes.
\<close>

theorem quinn_run_consistent:
  assumes "from_quinn_connection T i side t0 = (q, s0)"
    and "quinn_run T q ops1 (s0, 0, 0) = (s1, n1, m1)"
    and "quinn_run T q ops2 (s1, n1, m1) = (s2, n2, m2)"
  shows "active_streams s2 = of_nat m2 \<and> notified s2 = authenticated s2 \<and>
    (authenticated s1 = None \<or> authenticated s2 = authenticated s1)"
proof -
  have "quinn_counts (s0, 0, 0)"
    using assms(1) by (auto simp: from_quinn_connection_def quinn_counts_def split: prod.splits)
  then have "quinn_counts (s2, n2, m2)"
    using quinn_run_counts assms(2,3) by metis
  moreover have "authenticated s1 = Some name \<Longrightarrow> authenticated s2 = Some name" for name
    using quinn_run_authenticated [of "(s1, n1, m1)" name T q ops2] assms(3) by simp
  ultimately show ?thesis by (cases "authenticated s1") (auto simp: quinn_counts_def)
qed

theorem quinn_run_consistent_witness:
  "let (q, s0) = from_quinn_connection forest_ops 7 Listen (0, []);
       c = quinn_run forest_ops q [DoReport (lit ''a''), DoOpen] (s0, 0, 0);
       (s2, n2, m2) = quinn_run forest_ops q [DoOpened (Ok ()), DoAccept (Ready (Ok ())), DoDropStream] c
   in active_streams s2 = of_nat m2 \<and> notified s2 = authenticated s2"
proof -
  obtain q s0 where q: "from_quinn_connection forest_ops 7 Listen (0, []) = (q, s0)" by fastforce
  obtain s1 n1 m1 where s: "quinn_run forest_ops q [DoReport (lit ''a''), DoOpen] (s0, 0, 0) = (s1, n1, m1)"
    by (metis prod_cases3)
  obtain s2 n2 m2 where r:
    "quinn_run forest_ops q [DoOpened (Ok ()), DoAccept (Ready (Ok ())), DoDropStream] (s1, n1, m1) = (s2, n2, m2)"
    by (metis prod_cases3)
  show ?thesis
    unfolding Let_def q s using quinn_run_consistent [OF q s r] s r by simp
qed

text \<open>
  C19: a failing \<open>accept_bi\<close> closes the whole tunnel, not only its downlink: the token that
  stands for the uplink in the task joining both directions is not the token the tunnel keeps,
  and it is cancelled from the start, so after that task ran links are refused although no
  uplink operation failed.
\<close>

theorem quinn_incoming_failure_closes_uplink:
  assumes "cancellation T known below"
    and "from_quinn_connection T i side t0 = (q, s0)"
    and "quinn_run T q ops (s0, 0, 0) = (s, n, m)"
    and "incoming_poll_next T q (Ready (Err e)) s = (Ready (Some (Err te)), s')"
  shows "is_closed T q (join_task T q s') \<and> open_link_call T q (join_task T q s') = Some ConnectionClosed"
proof -
  have "quinn_tokens_ok T known below q (tokens s0)"
    using cancellation.from_quinn_connection_ok [OF assms(1,2)] by simp
  then have "quinn_tokens_ok T known below q (tokens s)"
    using cancellation.quinn_run_tokens_ok [OF assms(1), of q "(s0, 0, 0)" ops] assms(3) by simp
  from cancellation.incoming_failure_closes [OF assms(1) this assms(4)] show ?thesis
    by (simp add: open_link_call_def)
qed

theorem quinn_incoming_failure_closes_uplink_witness:
  "let (q, s) = from_quinn_connection forest_ops 7 Listen (0, []);
       (a, s') = incoming_poll_next forest_ops q (Ready (Err QuinnTimedOut) ::
         (quinn_connection_error, unit) result poll) s
   in open_link_call forest_ops q s = None \<and>
      open_link_call forest_ops q (join_task forest_ops q s') = Some ConnectionClosed"
proof -
  obtain q s where q: "from_quinn_connection forest_ops 7 Listen (0, []) = (q, s)" by fastforce
  have o: "\<not> is_closed_uplink forest_ops q s" "\<not> is_closed_downlink forest_ops q s"
    using token_forest.from_quinn_connection_ok [OF q] by simp_all
  obtain s' where a: "incoming_poll_next forest_ops q (Ready (Err QuinnTimedOut) ::
         (quinn_connection_error, unit) result poll) s = (Ready (Some (Err TimedOut)), s')"
    using o(2) q by (auto simp: incoming_poll_next_def is_closed_downlink_def from_quinn_connection_def
        split: prod.splits)
  show ?thesis
    using quinn_incoming_failure_closes_uplink [OF token_forest.cancellation_axioms q _ a, of "[]" 0 0]
      q a o(1) by (simp add: open_link_call_def)
qed

end
