(* ===== verification/Authentication.thy ===== *)
theory Authentication
  imports Byte_IO Quinn_Tunnel
begin

text \<open>
  Tunnel authentication (\<open>common/authentication/\<close>): the error types and their nesting, the
  handler adaptors, establishing the authentication channel, and the two handlers of the library.
  A handler works on the authentication channel and so is an \<open>io\<close> program; a panic of a handler
  is the error \<open>Panic\<close>. The acknowledgement handler is run against itself over a stream in
  every interleaving.
\<close>

section \<open>Errors\<close>

datatype 'e authentication_handling_error = DependencyFailure rstr 'e | ApplicationError 'e | JoinError

fun handling_map_err ::
  "('e \<Rightarrow> 'f) \<Rightarrow> 'e authentication_handling_error \<Rightarrow> 'f authentication_handling_error" where
  "handling_map_err f (DependencyFailure message e) = DependencyFailure message (f e)"
| "handling_map_err f (ApplicationError e) = ApplicationError (f e)"
| "handling_map_err f JoinError = JoinError"

datatype remote_authentication_error =
    Refused | LinkClosedLocally | LinkClosedRemotely | IncomingStreamsClosed | RemoteTimedOut
  | RemoteTransportError | ProtocolViolation rstr

datatype 'e authentication_error =
    Handling "'e authentication_handling_error" | Remote remote_authentication_error

fun to_nested_result ::
  "('e authentication_error, 'a) result \<Rightarrow>
   ('e authentication_handling_error, (remote_authentication_error, 'a) result) result" where
  "to_nested_result (Inr res) = Ok (Ok res)"
| "to_nested_result (Inl (Handling e)) = Err e"
| "to_nested_result (Inl (Remote e)) = Ok (Err e)"

fun from_nested_result ::
  "('e authentication_handling_error, (remote_authentication_error, 'a) result) result \<Rightarrow>
   ('e authentication_error, 'a) result" where
  "from_nested_result (Inr (Inr res)) = Ok res"
| "from_nested_result (Inl e) = Err (Handling e)"
| "from_nested_result (Inr (Inl e)) = Err (Remote e)"

fun auth_map_err :: "('e \<Rightarrow> 'f) \<Rightarrow> 'e authentication_error \<Rightarrow> 'f authentication_error" where
  "auth_map_err f (Handling e) = Handling (handling_map_err f e)"
| "auth_map_err f (Remote e) = Remote e"

lemma nested_result_inverse:
  "from_nested_result (to_nested_result r) = r" "to_nested_result (from_nested_result n) = n"
  by (cases r rule: to_nested_result.cases; simp) (cases n rule: from_nested_result.cases; simp)

lemma nested_result_map:
  "to_nested_result (map_err (auth_map_err f) r) = map_err (handling_map_err f) (to_nested_result r)"
  by (cases r rule: to_nested_result.cases) simp_all

section \<open>Handlers\<close>

record tunnel_info =
  info_id :: tunnel_id
  info_side :: tunnel_side
  info_addr :: tunnel_address_info

type_synonym authentication_attributes = "rstr \<rightharpoonup> byte list"

datatype 'e may_panic = Panic | Fail 'e

type_synonym 'e authentication_handler =
  "tunnel_info \<Rightarrow> ('e authentication_error may_panic, tunnel_name \<times> authentication_attributes) result io"

fun may_panic_map :: "('e \<Rightarrow> 'f) \<Rightarrow> 'e may_panic \<Rightarrow> 'f may_panic" where
  "may_panic_map f Panic = Panic"
| "may_panic_map f (Fail e) = Fail (f e)"

definition mapped_authentication_handler ::
  "('e \<Rightarrow> 'f) \<Rightarrow> 'e authentication_handler \<Rightarrow> 'f authentication_handler" where
  "mapped_authentication_handler f h info =
    io_map_err (may_panic_map (auth_map_err f)) (h info)"

definition mapped_err_into_authentication_handler ::
  "('e \<Rightarrow> 'f) \<Rightarrow> 'e authentication_handler \<Rightarrow> 'f authentication_handler" where
  "mapped_err_into_authentication_handler into h info =
    io_map_err (may_panic_map (auth_map_err into)) (h info)"

text \<open>The methods that make these adaptors, and a box or counted pointer to a handler.\<close>

definition handler_map_err :: "'e authentication_handler \<Rightarrow> ('e \<Rightarrow> 'f) \<Rightarrow> 'f authentication_handler" where
  "handler_map_err self f = mapped_authentication_handler f self"

definition handler_err_into :: "('e \<Rightarrow> 'f) \<Rightarrow> 'e authentication_handler \<Rightarrow> 'f authentication_handler" where
  "handler_err_into into self = mapped_err_into_authentication_handler into self"

definition handler_ref :: "('p \<Rightarrow> 'e authentication_handler) \<Rightarrow> 'p \<Rightarrow> 'e authentication_handler" where
  "handler_ref as_ref this info = as_ref this info"

lemma may_panic_map_comp: "may_panic_map f (may_panic_map g e) = may_panic_map (f \<circ> g) e"
  by (cases e) auto

lemma auth_map_err_comp: "auth_map_err f (auth_map_err g e) = auth_map_err (f \<circ> g) e"
proof (cases e)
  case (Handling h)
  then show ?thesis by (cases h) auto
qed auto

text \<open>Mapping errors twice maps them once; pointers do not matter, and no adaptor touches the stream.\<close>

lemma handler_adaptors:
  "handler_map_err (handler_map_err h f) g = handler_map_err h (g \<circ> f)"
  "handler_err_into g h = handler_map_err h g"
  "handler_ref as_ref p = as_ref p"
  "snd (run_io (handler_map_err h f info) l) = snd (run_io (h info) l)"
  by (auto simp: handler_map_err_def handler_err_into_def handler_ref_def mapped_authentication_handler_def
      mapped_err_into_authentication_handler_def io_map_err_def io_map_def may_panic_map_comp auth_map_err_comp
      comp_def fun_eq_iff io_simps split: prod.splits)

definition no_op_authenticate :: "'e authentication_handler" where
  "no_op_authenticate info = Done (Ok (show_address_info (info_addr info), Map.empty))"

section \<open>The acknowledgement handler\<close>

text \<open>\<open>write!\<close> into a zeroed buffer of 64 bytes, \<open>None\<close> when the text does not fit.\<close>

definition write_padded :: "rstr \<Rightarrow> byte list option" where
  "write_padded s =
    (let bs = into_bytes s in if length bs \<le> 64 then Some (bs @ replicate (64 - length bs) 0) else None)"

definition violation :: "string \<Rightarrow> 'e authentication_error may_panic" where
  "violation m = Fail (Remote (ProtocolViolation (lit m)))"

definition authenticate_listen_side :: "'e authentication_handler" where
  "authenticate_listen_side info =
    io_then (Done (ok_or Panic (write_padded (lit ''HELO'')))) (\<lambda>buffer.
    io_then (or_fail (violation ''Write refused'') (write_all buffer)) (\<lambda>_.
    io_then (or_err (violation ''Read unavailable'') (read_exact 64)) (\<lambda>buffer.
    io_then (Done (ok_or (violation ''Received string was not valid UTF8'') (from_utf8 buffer))) (\<lambda>decoded.
    if take 10 decoded \<noteq> lit ''HELO/HELO'' @ [0] then Done (Err (violation ''Invalid client ack''))
    else Done (Ok (show_address_info (info_addr info), Map.empty))))))"

definition first_zero :: "byte list \<Rightarrow> nat" where
  "first_zero header = (if 0 \<in> set header then length (takeWhile (\<lambda>x. x \<noteq> 0) header) else 32)"

definition authenticate_connecting_side :: "'e authentication_handler" where
  "authenticate_connecting_side info =
    io_then (or_err (violation ''Read unavailable'') (read_exact 64)) (\<lambda>header.
    io_then (Done (ok_or (violation ''Received string was not valid UTF8'')
        (from_utf8 (take (first_zero header) header)))) (\<lambda>read_string.
    io_then (Done (ok_or Panic (write_padded (read_string @ lit ''/'' @ read_string)))) (\<lambda>header.
    io_then (or_fail (violation ''Write refused'') (write_all header)) (\<lambda>_.
    Done (Ok (show_address_info (info_addr info), Map.empty))))))"

definition simple_ack_authenticate :: "'e authentication_handler" where
  "simple_ack_authenticate info =
    (case info_side info of
       Listen \<Rightarrow> authenticate_listen_side info
     | Connect \<Rightarrow> authenticate_connecting_side info)"

section \<open>Performing authentication\<close>

fun tunnel_error_to_remote_auth_error :: "tunnel_error \<Rightarrow> remote_authentication_error" where
  "tunnel_error_to_remote_auth_error ApplicationClosed = LinkClosedLocally"
| "tunnel_error_to_remote_auth_error LocallyClosed = LinkClosedLocally"
| "tunnel_error_to_remote_auth_error ConnectionClosed = LinkClosedRemotely"
| "tunnel_error_to_remote_auth_error TimedOut = RemoteTimedOut"
| "tunnel_error_to_remote_auth_error TransportError = RemoteTransportError"

text \<open>
  How a future that runs \<open>try_poll_until_or_else\<close> the shutdown notifier ended: with its own
  outcome, or with the notifier.
\<close>

datatype 'a until_shutdown = Completed 'a | ShutDown

fun or_else_shutdown :: "('e, 'a) result until_shutdown \<Rightarrow> ('e, 'a) result \<Rightarrow> ('e, 'a) result" where
  "or_else_shutdown (Completed r) alt = r"
| "or_else_shutdown ShutDown alt = alt"

text \<open>
  What the tunnel gives: the outcome of opening a link, and the downlink, if there is one, with
  the outcome of its next stream (\<open>None\<close> at its end).
\<close>

record 's auth_tunnel =
  opened_link :: "(tunnel_error, 's) result until_shutdown"
  next_incoming :: "(tunnel_error, 's option) result until_shutdown option"

definition establish_listen :: "'s auth_tunnel \<Rightarrow> ('e authentication_error, 's) result" where
  "establish_listen t =
    map_err Remote (map_err tunnel_error_to_remote_auth_error
      (or_else_shutdown (opened_link t) (Err TimedOut)))"

definition map_until :: "('a \<Rightarrow> 'b) \<Rightarrow> 'a until_shutdown \<Rightarrow> 'b until_shutdown" where
  "map_until f u = (case u of Completed a \<Rightarrow> Completed (f a) | ShutDown \<Rightarrow> ShutDown)"

definition establish_connect :: "'s auth_tunnel \<Rightarrow> ('e authentication_error, 's) result" where
  "establish_connect t =
    (case next_incoming t of
       None \<Rightarrow> Err (Remote IncomingStreamsClosed)
     | Some incoming \<Rightarrow>
         map_err Remote (and_then
           (or_else_shutdown (map_until (map_err tunnel_error_to_remote_auth_error) incoming) (Err RemoteTimedOut))
           (\<lambda>s. case s of Some stream \<Rightarrow> Ok stream | None \<Rightarrow> Err IncomingStreamsClosed)))"

definition perform_authentication ::
  "'e authentication_handler \<Rightarrow> tunnel_info \<Rightarrow> 's auth_tunnel \<Rightarrow>
   ('e authentication_error may_panic, tunnel_name \<times> authentication_attributes) result io" where
  "perform_authentication handler info t =
    (case (case info_side info of Listen \<Rightarrow> establish_listen t | Connect \<Rightarrow> establish_connect t) of
       Inl e \<Rightarrow> Done (Err (Fail e))
     | Inr auth_channel \<Rightarrow> handler info)"

section \<open>Buffers\<close>

lemma into_bytes_append: "into_bytes (s @ t) = into_bytes s @ into_bytes t"
  by (simp add: into_bytes_def)

lemma into_bytes_zeros: "into_bytes (replicate n 0) = replicate n 0"
  by (induction n) (simp_all add: into_bytes_def utf8_char_def)

lemma valid_zeros: "valid_str (replicate n 0)"
  by (simp add: valid_str_def scalar_def list_all_iff)

lemma padded_text:
  "length (into_bytes s) \<le> 64 \<Longrightarrow> write_padded s = Some (into_bytes (s @ replicate (64 - length (into_bytes s)) 0))"
  by (simp add: write_padded_def into_bytes_append into_bytes_zeros Let_def)

lemma length_padded: "write_padded s = Some bs \<Longrightarrow> length bs = 64"
  by (auto simp: write_padded_def Let_def split: if_splits)

lemma first_zero_padded: "0 \<notin> set bs \<Longrightarrow> 0 < n \<Longrightarrow> first_zero (bs @ replicate n 0) = length bs"
  by (auto simp: first_zero_def takeWhile_append takeWhile_eq_Nil_iff hd_replicate)

lemma helo_bytes:
  "into_bytes (lit ''HELO'') = [72, 69, 76, 79]"
  "into_bytes (lit ''HELO/HELO'') = [72, 69, 76, 79, 47, 72, 69, 76, 79]"
  by (simp_all add: into_bytes_def lit_def utf8_char_def)

lemma helo_header: "write_padded (lit ''HELO'') = Some ([72, 69, 76, 79] @ replicate 60 0)"
  by (simp add: write_padded_def helo_bytes)

lemma helo_reply:
  "write_padded (lit ''HELO'' @ lit ''/'' @ lit ''HELO'') = Some (into_bytes (lit ''HELO/HELO'' @ replicate 55 0))"
proof -
  have "lit ''HELO'' @ lit ''/'' @ lit ''HELO'' = lit ''HELO/HELO''" by (simp add: lit_def)
  then show ?thesis by (simp add: padded_text helo_bytes)
qed

section \<open>Agreement of the two sides\<close>

definition ack_start ::
  "tunnel_info \<Rightarrow> tunnel_info \<Rightarrow>
   (('e authentication_error may_panic, tunnel_name \<times> authentication_attributes) result,
    ('f authentication_error may_panic, tunnel_name \<times> authentication_attributes) result) net" where
  "ack_start linfo cinfo = net_start (simple_ack_authenticate linfo) (simple_ack_authenticate cinfo)"

lemma ack_run:
  assumes "info_side linfo = Listen" "info_side cinfo = Connect"
  shows "net_run (ack_start linfo cinfo) =
    \<lparr>lhs = Done (Ok (show_address_info (info_addr linfo), Map.empty)),
     rhs = Done (Ok (show_address_info (info_addr cinfo), Map.empty)), to_rhs = [], to_lhs = []\<rparr>"
proof -
  define h :: "byte list" where "h = [72, 69, 76, 79] @ replicate 60 0"
  define d where "d = lit ''HELO/HELO'' @ replicate 55 0"
  define r where "r = into_bytes d"
  have w: "write_padded (lit ''HELO'') = Some h" "write_padded (lit ''HELO'' @ lit ''/'' @ lit ''HELO'') = Some r"
    using helo_header helo_reply by (simp_all add: h_def r_def d_def)
  have l: "length h = 64" "length r = 64" using w by (simp_all add: length_padded)
  have v: "valid_str (lit ''HELO'')" "valid_str d"
    using valid_zeros [of 55] by (simp_all add: d_def lit_def scalar_def valid_str_def)
  have "take (first_zero h) h = into_bytes (lit ''HELO'')"
    using first_zero_padded [of "[72, 69, 76, 79]" 60] by (simp add: h_def helo_bytes)
  then have f: "from_utf8 (take (first_zero h) h) = Some (lit ''HELO'')" "from_utf8 r = Some d"
    using v by (simp_all add: r_def)
  have t: "take 10 d = lit ''HELO/HELO'' @ [0]" by (simp add: d_def lit_def)
  show ?thesis
    using assms by (simp add: ack_start_def net_start_def simple_ack_authenticate_def w f t l
        authenticate_listen_side_def authenticate_connecting_side_def io_prim_defs net_simps)
qed

text \<open>
  C21: the two sides of the acknowledgement handler authenticate each other: over a reliable
  stream, every run of the listening and the connecting side can be continued to, and can only
  stop at, the configuration in which both succeed with the name made of their peer's address,
  with no byte left on the stream.
\<close>

theorem simple_ack_agreement:
  assumes "info_side linfo = Listen" "info_side cinfo = Connect"
    and "net_step\<^sup>*\<^sup>* (ack_start linfo cinfo) e"
  defines "outcome \<equiv> \<lparr>lhs = Done (Ok (show_address_info (info_addr linfo), Map.empty)),
     rhs = Done (Ok (show_address_info (info_addr cinfo), Map.empty)), to_rhs = [], to_lhs = []\<rparr>"
  shows "net_step\<^sup>*\<^sup>* e outcome \<and> (settled e \<longrightarrow> e = outcome)"
proof -
  have "net_run (ack_start linfo cinfo) = outcome"
    unfolding outcome_def using assms(1,2) by (rule ack_run)
  then show ?thesis using net_run_only_end [OF assms(3)] by simp
qed

theorem simple_ack_agreement_witness:
  "net_step\<^sup>*\<^sup>* (ack_start \<lparr>info_id = 0, info_side = Listen, info_addr = AddrPort 80\<rparr>
      \<lparr>info_id = 1, info_side = Connect, info_addr = Unidentified\<rparr>)
    \<lparr>lhs = Done (Ok (lit ''80'', Map.empty) :: (unit authentication_error may_panic, _) result),
     rhs = Done (Ok (lit ''Unidentified'', Map.empty) :: (unit authentication_error may_panic, _) result),
     to_rhs = [], to_lhs = []\<rparr>"
proof -
  let ?l = "\<lparr>info_id = 0, info_side = Listen, info_addr = AddrPort 80\<rparr>"
  let ?c = "\<lparr>info_id = 1, info_side = Connect, info_addr = Unidentified\<rparr>"
  have "show_u16 80 = lit ''80''" by (simp add: show_u16_def show_nat.simps lit_def)
  moreover have *: "net_step\<^sup>*\<^sup>* (ack_start ?l ?c) (ack_start ?l ?c ::
    ((unit authentication_error may_panic, _) result, (unit authentication_error may_panic, _) result) net)"
    by simp
  ultimately show ?thesis using simple_ack_agreement [of ?l ?c, OF _ _ *] by simp
qed

text \<open>
  C22: the connecting side of the acknowledgement handler for any bytes the listener sends: it
  fails on a short stream and on text that is not UTF-8, it panics exactly when the text up to
  the first zero byte is valid and has 32 or more bytes (a header without a zero byte counts as
  32), and otherwise it answers the text twice, separated by a slash and padded to 64 bytes.
\<close>

theorem simple_ack_connecting_outcome:
  "run_io (authenticate_connecting_side info) \<lparr>rx = bs, tx = out, wcap = None, read_first = b\<rparr> =
    (let header = take 64 bs; text = take (first_zero header) header; l = \<lparr>rx = drop 64 bs, tx = out, wcap = None, read_first = b\<rparr> in
     if length bs < 64 then (Err (violation ''Read unavailable''), l)
     else if from_utf8 text = None then (Err (violation ''Received string was not valid UTF8''), l)
     else if 32 \<le> length text then (Err Panic, l)
     else (Ok (show_address_info (info_addr info), Map.empty),
           l\<lparr>tx := out @ text @ [47] @ text @ replicate (63 - 2 * length text) 0\<rparr>))"
proof (cases "length bs < 64")
  case True
  then show ?thesis
    by (simp add: authenticate_connecting_side_def io_simps link_recv_def Let_def)
next
  case False
  define header where "header = take 64 bs"
  define text' where "text' = take (first_zero header) header"
  have r: "link_recv 64 \<lparr>rx = bs, tx = out, wcap = None, read_first = b\<rparr> =
      (Some header, \<lparr>rx = drop 64 bs, tx = out, wcap = None, read_first = b\<rparr>)"
    using False by (simp add: link_recv_def header_def)
  show ?thesis
  proof (cases "from_utf8 text'")
    case None
    then show ?thesis
      using False r by (simp add: authenticate_connecting_side_def io_simps Let_def
          flip: header_def text'_def)
  next
    case (Some s)
    then have "into_bytes (s @ lit ''/'' @ s) = text' @ [47] @ text'"
      using into_bytes_from_utf8 [OF Some] by (simp add: into_bytes_append into_bytes_def lit_def utf8_char_def)
    then have "write_padded (s @ lit ''/'' @ s) =
        (if 32 \<le> length text' then None else Some (text' @ [47] @ text' @ replicate (63 - 2 * length text') 0))"
      by (auto simp: write_padded_def)
    then show ?thesis
      using False r Some by (simp add: authenticate_connecting_side_def io_simps Let_def link_send_def
          flip: header_def text'_def)
  qed
qed

end
