(* ===== verification/Peers.thy ===== *)
theory Peers
  imports Authentication
begin

text \<open>
  The peer tables of the daemon (\<open>PeerRecord\<close>, \<open>PeersView\<close> and \<open>PeerTracker\<close> of
  \<open>common/daemon/mod.rs\<close>): peers by id and by name and id. The tables hold weak references, so
  a view is given the predicate \<open>alive\<close> of the records that can still be upgraded. The order in
  which a concurrent map is iterated is not specified and is the parameter \<open>iter\<close>.
\<close>

section \<open>Tables\<close>

record peer_record =
  peer_id :: tunnel_id
  peer_name :: tunnel_name
  peer_attributes :: authentication_attributes

definition peer_eq :: "peer_record \<Rightarrow> peer_record \<Rightarrow> bool" where
  "peer_eq a b \<longleftrightarrow> peer_id a = peer_id b \<and> peer_name a = peer_name b"

type_synonym by_id_table = "tunnel_id \<rightharpoonup> peer_record"

record peer_tracker =
  by_name :: "tunnel_name \<rightharpoonup> by_id_table"
  by_id :: by_id_table

definition tracker_new :: peer_tracker where
  "tracker_new = \<lparr>by_name = Map.empty, by_id = Map.empty\<rparr>"

text \<open>
  An insertion writes two concurrent tables one after the other and a removal goes through them
  three times, each time locking only what it touches. The definitions are those actions in their
  order; a sequence of them has no other caller between the tables of one operation.
\<close>

definition tracker_insert :: "peer_record \<Rightarrow> peer_tracker \<Rightarrow> peer_tracker" where
  "tracker_insert r p =
    (let p = p\<lparr>by_id := (by_id p)(peer_id r \<mapsto> r)\<rparr>;
         sub = (case by_name p (peer_name r) of None \<Rightarrow> Map.empty | Some s \<Rightarrow> s)
     in p\<lparr>by_name := (by_name p)(peer_name r \<mapsto> sub(peer_id r \<mapsto> r))\<rparr>)"

text \<open>
  The removal of a deregistering tunnel: from the table by id, from the table of its name, and
  then every name without peers is dropped.
\<close>

definition tracker_remove :: "peer_record \<Rightarrow> peer_tracker \<Rightarrow> peer_tracker" where
  "tracker_remove r p =
    (let p = p\<lparr>by_id := (by_id p)(peer_id r := None)\<rparr>;
         p = (case by_name p (peer_name r) of
                None \<Rightarrow> p
              | Some sub \<Rightarrow> p\<lparr>by_name := (by_name p)(peer_name r \<mapsto> sub(peer_id r := None))\<rparr>)
     in p\<lparr>by_name := (\<lambda>n. case by_name p n of
            None \<Rightarrow> None
          | Some sub \<Rightarrow> if sub = Map.empty then None else Some sub)\<rparr>)"

section \<open>Views\<close>

text \<open>\<open>iter\<close> lists the values of a table; \<open>alive\<close> is \<open>Weak::upgrade\<close>.\<close>

definition get_by_id :: "(peer_record \<Rightarrow> bool) \<Rightarrow> peer_tracker \<Rightarrow> tunnel_id \<Rightarrow> peer_record option" where
  "get_by_id alive p i = Option.bind (by_id p i) (\<lambda>r. if alive r then Some r else None)"

definition get_by_name ::
  "(by_id_table \<Rightarrow> peer_record list) \<Rightarrow> (peer_record \<Rightarrow> bool) \<Rightarrow> peer_tracker \<Rightarrow> tunnel_name \<Rightarrow> peer_record list" where
  "get_by_name iter alive p n =
    (case by_name p n of Some subtable \<Rightarrow> filter alive (iter subtable) | None \<Rightarrow> [])"

definition find_by_name_and_predicate ::
  "(by_id_table \<Rightarrow> peer_record list) \<Rightarrow> (peer_record \<Rightarrow> bool) \<Rightarrow> peer_tracker \<Rightarrow> tunnel_name \<Rightarrow>
   (peer_record \<Rightarrow> bool) \<Rightarrow> peer_record option" where
  "find_by_name_and_predicate iter alive p n predicate =
    (case by_name p n of
       Some subtable \<Rightarrow> find (\<lambda>r. alive r \<and> predicate r) (iter subtable)
     | None \<Rightarrow> None)"

text \<open>\<open>Iterator::max_by_key\<close>: the last of the largest elements.\<close>

fun max_by_key :: "('a \<Rightarrow> 'o :: linorder) \<Rightarrow> 'a list \<Rightarrow> 'a option" where
  "max_by_key key [] = None"
| "max_by_key key (x # xs) =
    (case max_by_key key xs of None \<Rightarrow> Some x | Some y \<Rightarrow> if key x > key y then Some x else Some y)"

definition find_by_comparator ::
  "(by_id_table \<Rightarrow> peer_record list) \<Rightarrow> (peer_record \<Rightarrow> bool) \<Rightarrow> peer_tracker \<Rightarrow>
   (peer_record \<Rightarrow> 'o :: linorder) \<Rightarrow> peer_record option" where
  "find_by_comparator iter alive p key = max_by_key key (filter alive (iter (by_id p)))"

definition find_by_name_and_comparator ::
  "(by_id_table \<Rightarrow> peer_record list) \<Rightarrow> (peer_record \<Rightarrow> bool) \<Rightarrow> peer_tracker \<Rightarrow> tunnel_name \<Rightarrow>
   (peer_record \<Rightarrow> 'o :: linorder) \<Rightarrow> peer_record option" where
  "find_by_name_and_comparator iter alive p n key =
    (case by_name p n of
       Some subtable \<Rightarrow> max_by_key key (filter alive (iter subtable))
     | None \<Rightarrow> None)"

definition all_peers ::
  "(by_id_table \<Rightarrow> peer_record list) \<Rightarrow> (peer_record \<Rightarrow> bool) \<Rightarrow> peer_tracker \<Rightarrow> peer_record list" where
  "all_peers iter alive p = filter alive (iter (by_id p))"

section \<open>The tables agree\<close>

text \<open>
  \<open>peers_inv S p\<close>: the tables hold exactly the records of \<open>S\<close>, each under its id and its
  name, and no name is kept without peers.
\<close>

definition peers_inv :: "peer_record set \<Rightarrow> peer_tracker \<Rightarrow> bool" where
  "peers_inv S p \<longleftrightarrow> inj_on peer_id S \<and>
     (\<forall>i r. by_id p i = Some r \<longleftrightarrow> r \<in> S \<and> peer_id r = i) \<and>
     (\<forall>n sub. by_name p n = Some sub \<longrightarrow> sub \<noteq> Map.empty) \<and>
     (\<forall>n i r. (\<exists>sub. by_name p n = Some sub \<and> sub i = Some r) \<longleftrightarrow> r \<in> S \<and> peer_id r = i \<and> peer_name r = n)"

lemma tracker_new_inv: "peers_inv {} tracker_new"
  by (simp add: peers_inv_def tracker_new_def)

lemma by_id_insert: "by_id (tracker_insert r p) = (by_id p)(peer_id r \<mapsto> r)"
  by (simp add: tracker_insert_def Let_def)

lemma by_name_insert:
  "by_name (tracker_insert r p) n = Some sub \<longleftrightarrow>
    (if n = peer_name r then sub = (case by_name p n of None \<Rightarrow> Map.empty | Some s \<Rightarrow> s)(peer_id r \<mapsto> r)
     else by_name p n = Some sub)"
  by (auto simp: tracker_insert_def Let_def)

lemma tracker_insert_inv:
  assumes inv: "peers_inv S p" and fresh: "peer_id r \<notin> peer_id ` S"
  shows "peers_inv (insert r S) (tracker_insert r p)"
  unfolding peers_inv_def
proof (intro conjI allI)
  show "inj_on peer_id (insert r S)" using inv fresh by (auto simp: peers_inv_def)
  show "by_id (tracker_insert r p) i = Some q \<longleftrightarrow> q \<in> insert r S \<and> peer_id q = i" for i q
    using inv fresh by (auto simp: peers_inv_def by_id_insert dest: image_eqI [where f = peer_id, OF sym])
  show "by_name (tracker_insert r p) n = Some sub \<longrightarrow> sub \<noteq> Map.empty" for n sub
    using inv by (auto simp: peers_inv_def by_name_insert split: if_splits)
  show "(\<exists>sub. by_name (tracker_insert r p) n = Some sub \<and> sub i = Some q) \<longleftrightarrow>
      q \<in> insert r S \<and> peer_id q = i \<and> peer_name q = n" for n i q
  proof -
    have old: "(\<exists>sub. by_name p n = Some sub \<and> sub i = Some q) \<longleftrightarrow> q \<in> S \<and> peer_id q = i \<and> peer_name q = n"
      using inv by (simp add: peers_inv_def)
    have r: "q \<in> S \<Longrightarrow> peer_id q \<noteq> peer_id r" using fresh by (metis imageI)
    show ?thesis
    proof (cases "n = peer_name r")
      case True
      have "(\<exists>sub. by_name (tracker_insert r p) n = Some sub \<and> sub i = Some q) \<longleftrightarrow>
          i = peer_id r \<and> q = r \<or> i \<noteq> peer_id r \<and> (\<exists>s. by_name p n = Some s \<and> s i = Some q)"
        using True by (cases "by_name p n") (auto simp: by_name_insert)
      then show ?thesis using old r True by auto
    next
      case False
      then show ?thesis using old r by (auto simp: by_name_insert)
    qed
  qed
qed

lemma by_id_remove: "by_id (tracker_remove r p) = (by_id p)(peer_id r := None)"
  by (auto simp: tracker_remove_def Let_def split: option.splits)

lemma by_name_remove:
  "by_name (tracker_remove r p) n = Some sub \<longleftrightarrow> sub \<noteq> Map.empty \<and>
    (if n = peer_name r then \<exists>s. by_name p n = Some s \<and> sub = s(peer_id r := None) else by_name p n = Some sub)"
  by (auto simp: tracker_remove_def Let_def split: option.splits if_splits)

lemma tracker_remove_inv:
  assumes inv: "peers_inv S p" and r: "r \<in> S"
  shows "peers_inv (S - {r}) (tracker_remove r p)"
  unfolding peers_inv_def
proof (intro conjI allI)
  have inj: "inj_on peer_id S" using inv by (simp add: peers_inv_def)
  then show "inj_on peer_id (S - {r})" by (rule inj_on_diff)
  have same: "q = r" if "q \<in> S" "peer_id q = peer_id r" for q
    using inj r that by (auto dest: inj_onD)
  show "by_id (tracker_remove r p) i = Some q \<longleftrightarrow> q \<in> S - {r} \<and> peer_id q = i" for i q
    using inv same by (auto simp: peers_inv_def by_id_remove)
  show "by_name (tracker_remove r p) n = Some sub \<longrightarrow> sub \<noteq> Map.empty" for n sub
    by (simp add: by_name_remove)
  show "(\<exists>sub. by_name (tracker_remove r p) n = Some sub \<and> sub i = Some q) \<longleftrightarrow>
      q \<in> S - {r} \<and> peer_id q = i \<and> peer_name q = n" for n i q
  proof -
    have old: "(\<exists>sub. by_name p n = Some sub \<and> sub i = Some q) \<longleftrightarrow> q \<in> S \<and> peer_id q = i \<and> peer_name q = n"
      using inv by (simp add: peers_inv_def)
    show ?thesis
    proof (cases "n = peer_name r")
      case True
      have "(\<exists>sub. by_name (tracker_remove r p) n = Some sub \<and> sub i = Some q) \<longleftrightarrow>
          (\<exists>s. by_name p n = Some s \<and> s i = Some q) \<and> i \<noteq> peer_id r"
        using True by (auto simp: by_name_remove split: if_splits) (metis fun_upd_other option.simps(3))
      then show ?thesis using old same True by auto
    next
      case False
      then show ?thesis using old by (auto simp: by_name_remove)
    qed
  qed
qed

section \<open>Views of agreeing tables\<close>

lemma max_by_key_max: "max_by_key key xs = Some m \<Longrightarrow> m \<in> set xs \<and> (\<forall>x \<in> set xs. key x \<le> key m)"
proof (induction xs arbitrary: m)
  case (Cons x xs)
  show ?case
  proof (cases "max_by_key key xs")
    case None
    then have "xs = []" by (cases xs) (auto split: option.splits if_splits)
    then show ?thesis using Cons.prems by simp
  next
    case (Some y)
    then show ?thesis using Cons.prems Cons.IH [OF Some] by (auto split: if_splits)
  qed
qed simp

locale table_iteration =
  fixes iter :: "by_id_table \<Rightarrow> peer_record list"
  assumes iter_set: "finite (dom t) \<Longrightarrow> set (iter t) = ran t"
    and iter_distinct: "finite (dom t) \<Longrightarrow> inj_on t (dom t) \<Longrightarrow> distinct (iter t)"
begin

lemma all_peers_set:
  assumes "peers_inv S p" "finite S"
  shows "set (all_peers iter alive p) = {r \<in> S. alive r}"
proof -
  have "dom (by_id p) \<subseteq> peer_id ` S" "ran (by_id p) = S"
    using assms(1) by (auto simp: peers_inv_def ran_def)
  then show ?thesis
    using assms(2) by (auto simp: all_peers_def iter_set finite_subset)
qed

lemma get_by_name_set:
  assumes "peers_inv S p" "finite S"
  shows "set (get_by_name iter alive p n) = {r \<in> S. peer_name r = n \<and> alive r}"
proof (cases "by_name p n")
  case None
  then have "\<not> (r \<in> S \<and> peer_name r = n)" for r
    using assms(1) unfolding peers_inv_def by (metis option.distinct(1))
  then show ?thesis using None by (auto simp: get_by_name_def)
next
  case (Some sub)
  then have "sub i = Some r \<longleftrightarrow> r \<in> S \<and> peer_id r = i \<and> peer_name r = n" for i r
    using assms(1) unfolding peers_inv_def by (metis option.inject)
  then have "dom sub \<subseteq> peer_id ` S" "ran sub = {r \<in> S. peer_name r = n}"
    by (auto simp: ran_def)
  then show ?thesis
    using assms(2) Some by (auto simp: get_by_name_def iter_set finite_subset)
qed

end

definition sorted_iter :: "by_id_table \<Rightarrow> peer_record list" where
  "sorted_iter t = map (\<lambda>i. the (t i)) (sorted_list_of_set (dom t))"

interpretation sorted_table: table_iteration sorted_iter
proof
  show "set (sorted_iter t) = ran t" if "finite (dom t)" for t
    using that by (force simp: sorted_iter_def ran_def image_def)
  show "distinct (sorted_iter t)" if "finite (dom t)" "inj_on t (dom t)" for t
    using that by (auto simp: sorted_iter_def distinct_map inj_on_def) (metis domI option.expand option.distinct(1) option.sel)
qed

text \<open>
  Insertions and removals in any order, each one whole, with the set of records they leave. An
  insertion under an id that is present is left out of the sequence: the daemon gives each tunnel
  an id of its own, and the table would replace the record.
\<close>

fun track :: "(bool \<times> peer_record) list \<Rightarrow> peer_record set \<times> peer_tracker \<Rightarrow> peer_record set \<times> peer_tracker" where
  "track [] c = c"
| "track ((ins, r) # ops) (S, p) =
    (if ins \<and> peer_id r \<notin> peer_id ` S then track ops (insert r S, tracker_insert r p)
     else if \<not> ins \<and> r \<in> S then track ops (S - {r}, tracker_remove r p)
     else track ops (S, p))"

lemma track_inv: "peers_inv S p \<Longrightarrow> finite S \<Longrightarrow> track ops (S, p) = (S', p') \<Longrightarrow> peers_inv S' p' \<and> finite S'"
proof (induction ops "(S, p)" arbitrary: S p rule: track.induct)
  case (2 ins r ops S p)
  then show ?case
    using tracker_insert_inv [OF 2(4), of r] tracker_remove_inv [OF 2(4), of r] by (auto split: if_splits)
qed auto

text \<open>
  C23: the two peer tables always agree. Starting from an empty tracker and inserting records
  with fresh ids and removing present ones in any order, a lookup by id gives the live record
  with that id, and the lookup by name gives exactly the live records of that name.
\<close>

theorem peer_views_agree:
  assumes "table_iteration iter" and "track ops ({}, tracker_new) = (S, p)"
  shows "(get_by_id alive p i = Some r \<longleftrightarrow> r \<in> S \<and> peer_id r = i \<and> alive r) \<and>
    set (get_by_name iter alive p n) = {r \<in> S. peer_name r = n \<and> alive r} \<and>
    set (all_peers iter alive p) = {r \<in> S. alive r}"
proof -
  have inv: "peers_inv S p" "finite S"
    using track_inv [OF tracker_new_inv _ assms(2)] by simp_all
  then have "by_id p i = Some q \<longleftrightarrow> q \<in> S \<and> peer_id q = i" for q
    by (simp add: peers_inv_def)
  moreover have "get_by_id alive p i = Some r \<longleftrightarrow> by_id p i = Some r \<and> alive r"
    by (cases "by_id p i") (auto simp: get_by_id_def)
  ultimately have "get_by_id alive p i = Some r \<longleftrightarrow> r \<in> S \<and> peer_id r = i \<and> alive r"
    by simp
  then show ?thesis
    using table_iteration.get_by_name_set [OF assms(1) inv] table_iteration.all_peers_set [OF assms(1) inv]
    by simp
qed

theorem peer_views_agree_witness:
  "let a = \<lparr>peer_id = 1, peer_name = lit ''x'', peer_attributes = Map.empty\<rparr>;
       b = \<lparr>peer_id = 2, peer_name = lit ''x'', peer_attributes = Map.empty\<rparr>;
       p = snd (track [(True, a), (True, b), (False, a)] ({}, tracker_new))
   in table_iteration sorted_iter \<and> set (get_by_name sorted_iter (\<lambda>_. True) p (lit ''x'')) = {b} \<and>
      get_by_id (\<lambda>_. True) p 2 = Some b"
proof -
  define a :: peer_record where "a = \<lparr>peer_id = 1, peer_name = lit ''x'', peer_attributes = Map.empty\<rparr>"
  define b :: peer_record where "b = \<lparr>peer_id = 2, peer_name = lit ''x'', peer_attributes = Map.empty\<rparr>"
  have ab: "peer_id a = 1" "peer_id b = 2" "peer_name b = lit ''x''" by (simp_all add: a_def b_def)
  then have "a \<noteq> b" by auto
  obtain S p where c: "track [(True, a), (True, b), (False, a)] ({}, tracker_new) = (S, p)" by fastforce
  then have S: "S = {b}" using ab \<open>a \<noteq> b\<close> by (auto simp: insert_Diff_if)
  have "set (get_by_name sorted_iter (\<lambda>_. True) p (lit ''x'')) = {r \<in> S. peer_name r = lit ''x''} \<and>
      get_by_id (\<lambda>_. True) p 2 = Some b"
    using peer_views_agree [OF sorted_table.table_iteration_axioms c, of "\<lambda>_. True" 2 b "lit ''x''"] ab S
    by simp
  moreover have "{r \<in> S. peer_name r = lit ''x''} = {b}" using ab(3) by (auto simp: S)
  ultimately show ?thesis
    using sorted_table.table_iteration_axioms unfolding Let_def a_def [symmetric] b_def [symmetric] c
    by simp
qed

end
