(* ===== verification/Daemon.thy ===== *)
theory Daemon
  imports Peers Negotiation Futures
begin

text \<open>
  The modular daemon (\<open>common/daemon/mod.rs\<close>). One definition per stage of a tunnel's
  lifecycle: connection, authentication, naming with registration, request handling, and the
  deregistration that a dropped registered tunnel starts. The daemon serves any number of
  tunnels at once; \<open>daemon_step\<close> interleaves their stages. The registry is a parameter with
  the operations of \<open>TunnelRegistry\<close>, the outcomes of the authenticator, of the record
  constructor and of the tunnel's own operations are arguments of the stages that await them.
\<close>

section \<open>Errors\<close>

datatype 'a request_processing_error =
    ReqUnsupportedProtocolVersion | ReqTunnelError tunnel_error | ReqApplicationError 'a

datatype ('a, 'e, 'x) tunnel_lifecycle_error =
    RegistrationError 'x
  | RequestProcessingError "'a request_processing_error"
  | AuthenticationRefused
  | AuthenticationHandlingError "'e authentication_handling_error"
  | LifecycleApplicationError 'a

fun lifecycle_error_of_request :: "'a request_processing_error \<Rightarrow> ('a, 'e, 'x) tunnel_lifecycle_error" where
  "lifecycle_error_of_request (ReqApplicationError fatal_error) = LifecycleApplicationError fatal_error"
| "lifecycle_error_of_request non_fatal = RequestProcessingError non_fatal"

section \<open>Handling a request\<close>

text \<open>
  A link of the downlink is negotiated and then handed to the service. \<open>shutting_down\<close> is the
  state of the shutdown listener after the negotiation, \<open>anyhow_of\<close> the conversion of a
  negotiation error into the opaque error.
\<close>

definition handle_incoming_request_bistream ::
  "(anyhow negotiation_error \<Rightarrow> anyhow) \<Rightarrow> (route_address \<Rightarrow> 't \<Rightarrow> ('t, 'e) service option) \<Rightarrow> bool \<Rightarrow> 't \<Rightarrow>
   (anyhow request_processing_error, unit) result io" where
  "handle_incoming_request_bistream anyhow_of find_service shutting_down tunnel =
    io_bind (service_negotiate find_service tunnel) (\<lambda>negotiated.
      case negotiated of
        Inl UnsupportedProtocolVersion \<Rightarrow> Done (Err ReqUnsupportedProtocolVersion)
      | Inl negotiation_error.ProtocolViolation \<Rightarrow> Done (Ok ())
      | Inl negotiation_error.ReadError \<Rightarrow> Done (Ok ())
      | Inl negotiation_error.WriteError \<Rightarrow> Done (Ok ())
      | Inl negotiation_error.Refused \<Rightarrow> Done (Ok ())
      | Inl UnsupportedServiceVersion \<Rightarrow> Done (Ok ())
      | Inl (negotiation_error.ApplicationError e) \<Rightarrow> Done (Ok ())
      | Inl (FatalError e) \<Rightarrow> Done (Err (ReqApplicationError (anyhow_of (FatalError e))))
      | Inr (route_addr, service) \<Rightarrow>
          if shutting_down then Done (Ok ())
          else io_bind (handle service route_addr tunnel) (\<lambda>res.
            case res of Inl e \<Rightarrow> Done (Ok ()) | Inr _ \<Rightarrow> Done (Ok ())))"

text \<open>
  \<open>handle_incoming_requests\<close> handles the links of the downlink concurrently until one handler or
  the downlink fails, or the downlink has ended, also by a shutdown request, and no handler is
  left. The combinator that does so is the parameter \<open>loop\<close>.
\<close>

datatype 'a link_event =
    LinkArrived | DownlinkFailed tunnel_error | DownlinkEnded
  | LinkFinished "('a request_processing_error, unit) result"

fun loop_event_of :: "'a link_event \<Rightarrow> 'a request_processing_error loop_event" where
  "loop_event_of LinkArrived = ItemArrived"
| "loop_event_of (DownlinkFailed e) = SourceFailed (ReqTunnelError e)"
| "loop_event_of DownlinkEnded = SourceEnded"
| "loop_event_of (LinkFinished res) = ItemFinished res"

definition handle_incoming_requests ::
  "'a request_processing_error concurrent_loop \<Rightarrow> 'a link_event list \<Rightarrow>
   ('a request_processing_error, unit) result option" where
  "handle_incoming_requests loop evs = loop (map loop_event_of evs)"

text \<open>A tunnel without a downlink is closed already.\<close>

definition registered_tunnel_lifecycle ::
  "'a request_processing_error concurrent_loop \<Rightarrow> bool \<Rightarrow> 'a link_event list \<Rightarrow> (('a, 'e, 'x) tunnel_lifecycle_error, unit) result option" where
  "registered_tunnel_lifecycle loop has_downlink evs =
    (if \<not> has_downlink then Some (Err (RequestProcessingError (ReqTunnelError ConnectionClosed)))
     else map_option (map_err lifecycle_error_of_request) (handle_incoming_requests loop evs))"

section \<open>Authentication\<close>

text \<open>The authenticator runs in a task of its own, so its panic is a join error.\<close>

fun join_auth ::
  "('e authentication_error may_panic, 'a) result \<Rightarrow> ('e authentication_error, 'a) result" where
  "join_auth (Inl Panic) = Err (Handling authentication_handling_error.JoinError)"
| "join_auth (Inl (Fail e)) = Err e"
| "join_auth (Inr a) = Ok a"

definition authenticate_tunnel ::
  "('e authentication_error may_panic, 'n) result \<Rightarrow> (('a, 'e, 'x) tunnel_lifecycle_error, 'n) result" where
  "authenticate_tunnel performed =
    (case join_auth performed of
       Inl (Handling handling_error) \<Rightarrow> Err (AuthenticationHandlingError handling_error)
     | Inl (Remote remote_error) \<Rightarrow> Err AuthenticationRefused
     | Inr named \<Rightarrow> Ok named)"

section \<open>The daemon\<close>

datatype daemon_event =
    Connected tunnel_id
  | Authenticated tunnel_id tunnel_name
  | Disconnected tunnel_id

fun event_id :: "daemon_event \<Rightarrow> tunnel_id" where
  "event_id (Connected t) = t"
| "event_id (Authenticated t n) = t"
| "event_id (Disconnected t) = t"

text \<open>
  Where a tunnel is in its lifecycle. \<open>Registered\<close> is a tunnel known to the registry and not
  yet listed as a peer, \<open>Reporting\<close> a listed one whose answer to its name is awaited,
  \<open>Leaving\<close> a dropped tunnel whose deregistration has not started, \<open>Departing\<close> one whose
  disconnection was announced, and \<open>Unlisted\<close> one that is no longer listed as a peer but still
  in the registry. Between two phases lies a point where the code awaits, so that the stages of
  other tunnels can come in between; an operation on the concurrent tables is one action.
\<close>

datatype 'i tunnel_phase =
    Authenticating
  | Naming tunnel_name authentication_attributes
  | Registered peer_record 'i
  | Reporting peer_record 'i
  | Serving peer_record 'i
  | Leaving peer_record 'i
  | Departing peer_record 'i
  | Unlisted 'i
  | Over

record ('s, 'i) daemon =
  peers :: peer_tracker
  registry :: 's
  events :: "daemon_event list"
  closes :: "(tunnel_id \<times> tunnel_close_reason) list"
  phases :: "tunnel_id \<rightharpoonup> 'i tunnel_phase"

definition daemon_new :: "'s \<Rightarrow> ('s, 'i) daemon" where
  "daemon_new reg =
    \<lparr>peers = tracker_new, registry = reg, events = [], closes = [], phases = Map.empty\<rparr>"

text \<open>The parts of the daemon that belong to its configuration.\<close>

record ('r, 's, 'i, 'x) daemon_config =
  construct_record :: "tunnel_id \<Rightarrow> tunnel_name \<Rightarrow> authentication_attributes \<Rightarrow> ('x, 'r \<times> authentication_attributes) result"
  registry_register :: "tunnel_name \<Rightarrow> 'r \<Rightarrow> 's \<Rightarrow> ('x, 'i) result \<times> 's"
  registry_deregister :: "'i \<Rightarrow> 's \<Rightarrow> ('x, 'r option) result \<times> 's"

definition fire :: "daemon_event \<Rightarrow> ('s, 'i) daemon \<Rightarrow> ('s, 'i) daemon" where
  "fire ev d = d\<lparr>events := events d @ [ev]\<rparr>"

definition set_phase :: "tunnel_id \<Rightarrow> 'i tunnel_phase \<Rightarrow> ('s, 'i) daemon \<Rightarrow> ('s, 'i) daemon" where
  "set_phase t ph d = d\<lparr>phases := (phases d)(t \<mapsto> ph)\<rparr>"

definition request_close :: "tunnel_id \<Rightarrow> tunnel_close_reason \<Rightarrow> ('s, 'i) daemon \<Rightarrow> ('s, 'i) daemon" where
  "request_close t reason d = d\<lparr>closes := closes d @ [(t, reason)]\<rparr>"

section \<open>Stages\<close>

text \<open>
  What \<open>run\<close> does with the outcome of a lifecycle: it closes the tunnel, if a reference to it
  is left (\<open>upgraded\<close>), with a reason made of the outcome.
\<close>

definition lifecycle_close_reason ::
  "(('a, 'e, 'x) tunnel_lifecycle_error \<Rightarrow> rstr) \<Rightarrow> (('a, 'e, 'x) tunnel_lifecycle_error, unit) result \<Rightarrow>
   tunnel_close_reason" where
  "lifecycle_close_reason show_error res =
    (case res of
       Inl AuthenticationRefused \<Rightarrow> AuthenticationFailure None
     | Inl e \<Rightarrow> ApplicationErrorMessage (show_error e)
     | Inr _ \<Rightarrow> GracefulExit False)"

definition run_finish ::
  "(('a, 'e, 'x) tunnel_lifecycle_error \<Rightarrow> rstr) \<Rightarrow> bool \<Rightarrow> tunnel_id \<Rightarrow>
   (('a, 'e, 'x) tunnel_lifecycle_error, unit) result \<Rightarrow> ('s, 'i) daemon \<Rightarrow> ('s, 'i) daemon" where
  "run_finish show_error upgraded t res d =
    (if upgraded then request_close t (lifecycle_close_reason show_error res) d else d)"

definition stage_connect :: "tunnel_id \<Rightarrow> ('s, 'i) daemon \<Rightarrow> ('s, 'i) daemon" where
  "stage_connect t d = set_phase t Authenticating (fire (Connected t) d)"

text \<open>
  A tunnel that is dropped before it was registered is closed by its wrapper with an
  authentication failure.
\<close>

definition stage_fail ::
  "(('a, 'e, 'x) tunnel_lifecycle_error \<Rightarrow> rstr) \<Rightarrow> bool \<Rightarrow> tunnel_id \<Rightarrow>
   ('a, 'e, 'x) tunnel_lifecycle_error \<Rightarrow> ('s, 'i) daemon \<Rightarrow> ('s, 'i) daemon" where
  "stage_fail show_error upgraded t e d =
    set_phase t Over (run_finish show_error upgraded t (Err e)
      (request_close t (AuthenticationFailure None) d))"

definition stage_authenticate ::
  "(('a, 'e, 'x) tunnel_lifecycle_error \<Rightarrow> rstr) \<Rightarrow> bool \<Rightarrow> tunnel_id \<Rightarrow>
   ('e authentication_error may_panic, tunnel_name \<times> authentication_attributes) result \<Rightarrow>
   ('s, 'i) daemon \<Rightarrow> ('s, 'i) daemon" where
  "stage_authenticate show_error upgraded t performed d =
    (case authenticate_tunnel performed of
       Inl e \<Rightarrow> stage_fail show_error upgraded t e d
     | Inr (name, attributes) \<Rightarrow> set_phase t (Naming name attributes) d)"

text \<open>Naming, up to the registry knowing the tunnel.\<close>

definition register_in_registry ::
  "('r, 's, 'i, 'x) daemon_config \<Rightarrow> tunnel_id \<Rightarrow> tunnel_name \<Rightarrow> authentication_attributes \<Rightarrow>
   ('s, 'i) daemon \<Rightarrow> ('x, peer_record \<times> 'i) result \<times> ('s, 'i) daemon" where
  "register_in_registry cfg t name attributes d =
    (case construct_record cfg t name attributes of
       Inl e \<Rightarrow> (Err e, d)
     | Inr (record, attributes) \<Rightarrow>
         (case registry_register cfg name record (registry d) of
            (Inl e, s) \<Rightarrow> (Err e, d\<lparr>registry := s\<rparr>)
          | (Inr identifier, s) \<Rightarrow>
              (Ok (\<lparr>peer_id = t, peer_name = name, peer_attributes = attributes\<rparr>, identifier),
               d\<lparr>registry := s\<rparr>)))"

text \<open>
  The rest of naming: the tunnel is listed as a peer and told of its name; the event is fired
  when the tunnel took the name. \<open>reported\<close> is the tunnel's answer.
\<close>

definition register_as_peer :: "peer_record \<Rightarrow> ('s, 'i) daemon \<Rightarrow> ('s, 'i) daemon" where
  "register_as_peer peer d = d\<lparr>peers := tracker_insert peer (peers d)\<rparr>"

definition report_registration ::
  "peer_record \<Rightarrow> (tunnel_close_reason option, unit) result \<Rightarrow> ('s, 'i) daemon \<Rightarrow> ('s, 'i) daemon" where
  "report_registration peer reported d =
    (if is_ok reported then fire (Authenticated (peer_id peer) (peer_name peer)) d else d)"

definition register_tunnel ::
  "('r, 's, 'i, 'x) daemon_config \<Rightarrow> tunnel_id \<Rightarrow> tunnel_name \<Rightarrow> authentication_attributes \<Rightarrow>
   (tunnel_close_reason option, unit) result \<Rightarrow> ('s, 'i) daemon \<Rightarrow>
   ('x, peer_record \<times> 'i) result \<times> ('s, 'i) daemon" where
  "register_tunnel cfg t name attributes reported d =
    (case register_in_registry cfg t name attributes d of
       (Inl e, d') \<Rightarrow> (Err e, d')
     | (Inr (peer, identifier), d') \<Rightarrow>
         (Ok (peer, identifier), report_registration peer reported (register_as_peer peer d')))"

definition stage_register ::
  "('r, 's, 'i, 'x) daemon_config \<Rightarrow> (('a, 'e, 'x) tunnel_lifecycle_error \<Rightarrow> rstr) \<Rightarrow> bool \<Rightarrow> tunnel_id \<Rightarrow>
   tunnel_name \<Rightarrow> authentication_attributes \<Rightarrow> ('s, 'i) daemon \<Rightarrow> ('s, 'i) daemon" where
  "stage_register cfg show_error upgraded t name attributes d =
    (case register_in_registry cfg t name attributes d of
       (Inl e, d') \<Rightarrow> stage_fail show_error upgraded t (RegistrationError e) d'
     | (Inr (peer, identifier), d') \<Rightarrow> set_phase t (Registered peer identifier) d')"

definition stage_list :: "tunnel_id \<Rightarrow> peer_record \<Rightarrow> 'i \<Rightarrow> ('s, 'i) daemon \<Rightarrow> ('s, 'i) daemon" where
  "stage_list t peer identifier d = set_phase t (Reporting peer identifier) (register_as_peer peer d)"

definition stage_report ::
  "tunnel_id \<Rightarrow> peer_record \<Rightarrow> 'i \<Rightarrow> (tunnel_close_reason option, unit) result \<Rightarrow>
   ('s, 'i) daemon \<Rightarrow> ('s, 'i) daemon" where
  "stage_report t peer identifier reported d =
    set_phase t (Serving peer identifier) (report_registration peer reported d)"

text \<open>The end of request handling drops the registered tunnel, which starts its deregistration.\<close>

definition stage_serve ::
  "(('a, 'e, 'x) tunnel_lifecycle_error \<Rightarrow> rstr) \<Rightarrow> bool \<Rightarrow> tunnel_id \<Rightarrow> peer_record \<Rightarrow> 'i \<Rightarrow>
   'a request_processing_error concurrent_loop \<Rightarrow> bool \<Rightarrow> 'a link_event list \<Rightarrow> ('s, 'i) daemon \<Rightarrow> ('s, 'i) daemon" where
  "stage_serve show_error upgraded t peer identifier loop has_downlink evs d =
    (case registered_tunnel_lifecycle loop has_downlink evs of
       None \<Rightarrow> d
     | Some res \<Rightarrow> run_finish show_error upgraded t res (set_phase t (Leaving peer identifier) d))"

text \<open>Deregistration: the event, the peer tables, and then the registry.\<close>

definition announce_disconnection :: "peer_record \<Rightarrow> ('s, 'i) daemon \<Rightarrow> ('s, 'i) daemon" where
  "announce_disconnection peer d = fire (Disconnected (peer_id peer)) d"

definition deregister_peer :: "peer_record \<Rightarrow> ('s, 'i) daemon \<Rightarrow> ('s, 'i) daemon" where
  "deregister_peer peer d = d\<lparr>peers := tracker_remove peer (peers d)\<rparr>"

definition deregister_registry ::
  "('r, 's, 'i, 'x) daemon_config \<Rightarrow> 'i \<Rightarrow> ('s, 'i) daemon \<Rightarrow> ('s, 'i) daemon" where
  "deregister_registry cfg identifier d =
    d\<lparr>registry := snd (registry_deregister cfg identifier (registry d))\<rparr>"

definition deregister_identifier ::
  "('r, 's, 'i, 'x) daemon_config \<Rightarrow> peer_record \<Rightarrow> 'i \<Rightarrow> ('s, 'i) daemon \<Rightarrow> ('s, 'i) daemon" where
  "deregister_identifier cfg peer identifier d = 
    deregister_registry cfg identifier (deregister_peer peer (announce_disconnection peer d))"

inductive daemon_step ::
  "('r, 's, 'i, 'x) daemon_config \<Rightarrow> (('a, 'e, 'x) tunnel_lifecycle_error \<Rightarrow> rstr) \<Rightarrow>
   ('s, 'i) daemon \<Rightarrow> ('s, 'i) daemon \<Rightarrow> bool" for cfg show_error where
  step_connect: "phases d t = None \<Longrightarrow> daemon_step cfg show_error d (stage_connect t d)"
| step_authenticate: "phases d t = Some Authenticating \<Longrightarrow>
    daemon_step cfg show_error d (stage_authenticate show_error upgraded t performed d)"
| step_register: "phases d t = Some (Naming name attributes) \<Longrightarrow>
    daemon_step cfg show_error d (stage_register cfg show_error upgraded t name attributes d)"
| step_list: "phases d t = Some (Registered peer identifier) \<Longrightarrow>
    daemon_step cfg show_error d (stage_list t peer identifier d)"
| step_report: "phases d t = Some (Reporting peer identifier) \<Longrightarrow>
    daemon_step cfg show_error d (stage_report t peer identifier reported d)"
| step_serve: "phases d t = Some (Serving peer identifier) \<Longrightarrow>
    daemon_step cfg show_error d (stage_serve show_error upgraded t peer identifier loop has_downlink evs d)"
| step_announce: "phases d t = Some (Leaving peer identifier) \<Longrightarrow>
    daemon_step cfg show_error d (set_phase t (Departing peer identifier) (announce_disconnection peer d))"
| step_unlist: "phases d t = Some (Departing peer identifier) \<Longrightarrow>
    daemon_step cfg show_error d (set_phase t (Unlisted identifier) (deregister_peer peer d))"
| step_deregister: "phases d t = Some (Unlisted identifier) \<Longrightarrow>
    daemon_step cfg show_error d (set_phase t Over (deregister_registry cfg identifier d))"

inductive_cases daemon_stepE: "daemon_step cfg show_error d d'"

section \<open>The listed peers\<close>

fun listed :: "'i tunnel_phase \<Rightarrow> peer_record option" where
  "listed (Reporting peer i) = Some peer"
| "listed (Serving peer i) = Some peer"
| "listed (Leaving peer i) = Some peer"
| "listed (Departing peer i) = Some peer"
| "listed _ = None"

fun phase_peer :: "'i tunnel_phase \<Rightarrow> peer_record option" where
  "phase_peer (Registered peer i) = Some peer"
| "phase_peer (Reporting peer i) = Some peer"
| "phase_peer (Serving peer i) = Some peer"
| "phase_peer (Leaving peer i) = Some peer"
| "phase_peer (Departing peer i) = Some peer"
| "phase_peer _ = None"

definition listed_peers :: "('s, 'i) daemon \<Rightarrow> peer_record set" where
  "listed_peers d = {r. \<exists>t ph. phases d t = Some ph \<and> listed ph = Some r}"

text \<open>What the event log says of one tunnel in each phase.\<close>

fun phase_events :: "tunnel_id \<Rightarrow> 'i tunnel_phase option \<Rightarrow> daemon_event list \<Rightarrow> bool" where
  "phase_events t None evs \<longleftrightarrow> evs = []"
| "phase_events t (Some Authenticating) evs \<longleftrightarrow> evs = [Connected t]"
| "phase_events t (Some (Naming n a)) evs \<longleftrightarrow> evs = [Connected t]"
| "phase_events t (Some (Registered p i)) evs \<longleftrightarrow> evs = [Connected t]"
| "phase_events t (Some (Reporting p i)) evs \<longleftrightarrow> evs = [Connected t]"
| "phase_events t (Some (Serving p i)) evs \<longleftrightarrow> evs = [Connected t] \<or> evs = [Connected t, Authenticated t (peer_name p)]"
| "phase_events t (Some (Leaving p i)) evs \<longleftrightarrow> evs = [Connected t] \<or> evs = [Connected t, Authenticated t (peer_name p)]"
| "phase_events t (Some (Departing p i)) evs \<longleftrightarrow>
     evs = [Connected t, Disconnected t] \<or> evs = [Connected t, Authenticated t (peer_name p), Disconnected t]"
| "phase_events t (Some (Unlisted i)) evs \<longleftrightarrow>
     evs = [Connected t, Disconnected t] \<or> (\<exists>n. evs = [Connected t, Authenticated t n, Disconnected t])"
| "phase_events t (Some Over) evs \<longleftrightarrow> evs = [Connected t] \<or>
     evs = [Connected t, Disconnected t] \<or> (\<exists>n. evs = [Connected t, Authenticated t n, Disconnected t])"

definition events_of :: "tunnel_id \<Rightarrow> ('s, 'i) daemon \<Rightarrow> daemon_event list" where
  "events_of t d = filter (\<lambda>e. event_id e = t) (events d)"

definition daemon_inv :: "('s, 'i) daemon \<Rightarrow> bool" where
  "daemon_inv d \<longleftrightarrow> peers_inv (listed_peers d) (peers d) \<and>
     (\<forall>t ph r. phases d t = Some ph \<and> phase_peer ph = Some r \<longrightarrow> peer_id r = t) \<and>
     (\<forall>t. phase_events t (phases d t) (events_of t d))"

lemmas daemon_simps = fire_def set_phase_def request_close_def run_finish_def

text \<open>Changing the phase of one tunnel changes the listed peers by at most its own record.\<close>

lemma listed_phase_peer: "listed ph = Some r \<Longrightarrow> phase_peer ph = Some r"
  by (cases ph) auto

lemma listed_peers_update:
  assumes "\<And>u ph r. phases d u = Some ph \<Longrightarrow> phase_peer ph = Some r \<Longrightarrow> peer_id r = u"
  shows "listed_peers (d\<lparr>phases := (phases d)(t \<mapsto> ph)\<rparr>) =
    {r \<in> listed_peers d. peer_id r \<noteq> t} \<union> set_option (listed ph)"
  using assms by (auto simp: listed_peers_def split: if_splits)
     (metis listed_phase_peer)+

lemma events_of_simps [simp]:
  "events_of t (d\<lparr>phases := p\<rparr>) = events_of t d"
  "events_of t (d\<lparr>registry := r\<rparr>) = events_of t d"
  "events_of t (d\<lparr>peers := q\<rparr>) = events_of t d"
  "events_of t (d\<lparr>closes := c\<rparr>) = events_of t d"
  "events_of t (d\<lparr>events := events d @ [e]\<rparr>) = events_of t d @ (if event_id e = t then [e] else [])"
  by (simp_all add: events_of_def)

lemma listed_peers_simps [simp]:
  "listed_peers (d\<lparr>registry := r\<rparr>) = listed_peers d"
  "listed_peers (d\<lparr>peers := q\<rparr>) = listed_peers d"
  "listed_peers (d\<lparr>closes := c\<rparr>) = listed_peers d"
  "listed_peers (d\<lparr>events := es\<rparr>) = listed_peers d"
  by (simp_all add: listed_peers_def)

definition others :: "tunnel_id \<Rightarrow> ('s, 'i) daemon \<Rightarrow> peer_record set" where
  "others t d = {r \<in> listed_peers d. peer_id r \<noteq> t}"

lemma listed_split:
  assumes "daemon_inv d"
  shows "listed_peers d = others t d \<union> (case phases d t of None \<Rightarrow> {} | Some ph \<Rightarrow> set_option (listed ph))"
proof -
  have id: "peer_id r = u" if "phases d u = Some ph" "listed ph = Some r" for u ph r
    using assms that(1) listed_phase_peer [OF that(2)] by (auto simp: daemon_inv_def)
  show ?thesis
    by (auto simp: others_def listed_peers_def split: option.splits) (metis id option.distinct(1) option.sel)+
qed

text \<open>
  A step of one tunnel keeps the invariant when it appends events of that tunnel, moves it to a
  phase that fits them, and leaves the peer tables with the record of that phase.
\<close>

lemma daemon_inv_move:
  assumes inv: "daemon_inv d"
    and new: "events d' = events d @ es" "phases d' = (phases d)(t \<mapsto> ph)"
    and es: "\<forall>e \<in> set es. event_id e = t" "phase_events t (Some ph) (events_of t d @ es)"
    and id: "\<And>r. phase_peer ph = Some r \<Longrightarrow> peer_id r = t"
    and peers: "peers_inv (others t d \<union> set_option (listed ph)) (peers d')"
  shows "daemon_inv d'"
proof -
  have old: "peer_id r = u" if "phases d u = Some q" "phase_peer q = Some r" for u q r
    using inv that by (auto simp: daemon_inv_def)
  have "listed_peers d' = listed_peers (d\<lparr>phases := (phases d)(t \<mapsto> ph)\<rparr>)"
    using new(2) by (simp add: listed_peers_def)
  then have l: "listed_peers d' = others t d \<union> set_option (listed ph)"
    using listed_peers_update [of d t ph] old by (auto simp: others_def)
  have ev: "events_of u d' = events_of u d @ (if u = t then es else [])" for u
    using es(1) new(1) by (auto simp: events_of_def filter_id_conv filter_empty_conv)
  have "phase_events u (phases d' u) (events_of u d')" for u
    using inv es(2) by (cases "u = t") (auto simp: ev new(2) daemon_inv_def)
  then show ?thesis
    using l peers id old by (auto simp: daemon_inv_def new(2))
qed

lemma daemon_inv_events: "daemon_inv d \<Longrightarrow> phase_events t (phases d t) (events_of t d)"
  by (simp add: daemon_inv_def)

lemma daemon_inv_peers: "daemon_inv d \<Longrightarrow> peers_inv (listed_peers d) (peers d)"
  by (simp add: daemon_inv_def)

lemma unlisted_others:
  "daemon_inv d \<Longrightarrow> (case phases d t of None \<Rightarrow> True | Some ph \<Rightarrow> listed ph = None) \<Longrightarrow>
    others t d = listed_peers d"
  using listed_split [of d t] by (auto split: option.splits)

lemma stage_fail_inv:
  assumes "daemon_inv d" "phases d t = Some ph" "listed ph = None" "events_of t d = [Connected t]"
  shows "daemon_inv (stage_fail show_error upgraded t e (d\<lparr>registry := s\<rparr>))"
  using assms(1)
proof (rule daemon_inv_move [where es = "[]" and t = t and ph = Over])
  show "peers_inv (others t d \<union> set_option (listed Over)) (peers (stage_fail show_error upgraded t e (d\<lparr>registry := s\<rparr>)))"
    using assms unlisted_others [of d t] daemon_inv_peers [of d]
    by (simp add: stage_fail_def daemon_simps)
qed (use assms in \<open>simp_all add: stage_fail_def daemon_simps\<close>)

lemma stage_connect_inv:
  assumes "daemon_inv d" "phases d t = None"
  shows "daemon_inv (stage_connect t d)"
  using assms(1)
proof (rule daemon_inv_move [where es = "[Connected t]" and t = t and ph = Authenticating])
  show "peers_inv (others t d \<union> set_option (listed Authenticating)) (peers (stage_connect t d))"
    using assms unlisted_others [of d t] daemon_inv_peers [of d]
    by (simp add: stage_connect_def daemon_simps)
qed (use assms daemon_inv_events [OF assms(1), of t] in \<open>simp_all add: stage_connect_def daemon_simps\<close>)

lemma stage_authenticate_inv:
  fixes show_error :: "('a, 'e, 'x) tunnel_lifecycle_error \<Rightarrow> rstr"
  assumes "daemon_inv d" "phases d t = Some Authenticating"
  shows "daemon_inv (stage_authenticate show_error upgraded t performed d)"
proof (cases "authenticate_tunnel performed :: (('a, 'e, 'x) tunnel_lifecycle_error, _) result")
  case (Inl e)
  then show ?thesis
    using stage_fail_inv [OF assms, of show_error upgraded e "registry d"] daemon_inv_events [OF assms(1), of t] assms(2)
    by (simp add: stage_authenticate_def)
next
  case (Inr na)
  obtain n a where na: "na = (n, a)" by fastforce
  have "daemon_inv (set_phase t (Naming n a) d)"
    using assms(1)
  proof (rule daemon_inv_move [where es = "[]" and t = t and ph = "Naming n a"])
    show "peers_inv (others t d \<union> set_option (listed (Naming n a))) (peers (set_phase t (Naming n a) d))"
      using assms unlisted_others [of d t] daemon_inv_peers [of d] by (simp add: daemon_simps)
  qed (use assms daemon_inv_events [OF assms(1), of t] in \<open>simp_all add: daemon_simps\<close>)
  then show ?thesis using Inr na by (simp add: stage_authenticate_def)
qed

lemma stage_register_inv:
  assumes "daemon_inv d" "phases d t = Some (Naming n a)"
  shows "daemon_inv (stage_register cfg show_error upgraded t n a d)"
proof -
  have ev: "events_of t d = [Connected t]" using daemon_inv_events [OF assms(1), of t] assms(2) by simp
  note fail = stage_fail_inv [OF assms _ ev]
  have list: "daemon_inv (set_phase t (Registered r i) (d\<lparr>registry := s\<rparr>))" if "peer_id r = t" for r i s
    using assms(1)
  proof (rule daemon_inv_move [where es = "[]" and t = t and ph = "Registered r i"])
    show "peers_inv (others t d \<union> set_option (listed (Registered r i)))
        (peers (set_phase t (Registered r i) (d\<lparr>registry := s\<rparr>)))"
      using assms unlisted_others [of d t] daemon_inv_peers [of d] by (simp add: daemon_simps)
  qed (use that ev in \<open>simp_all add: daemon_simps\<close>)
  show ?thesis
    using fail [where s = "registry d"] fail list
    by (auto simp: stage_register_def register_in_registry_def split: sum.splits prod.splits)
qed

lemma phase_peer_id: "daemon_inv d \<Longrightarrow> phases d t = Some ph \<Longrightarrow> phase_peer ph = Some r \<Longrightarrow> peer_id r = t"
  by (auto simp: daemon_inv_def)

text \<open>Steps of a tunnel that is listed before and after with the same record.\<close>

lemma listed_move_inv:
  assumes "daemon_inv d" "phases d t = Some ph" "listed ph = Some r" "listed ph' = Some r"
    and "events d' = events d @ es" "phases d' = (phases d)(t \<mapsto> ph')" "peers d' = peers d"
    and "\<forall>e \<in> set es. event_id e = t" "phase_events t (Some ph') (events_of t d @ es)"
  shows "daemon_inv d'"
  using assms(1,5,6,8,9)
proof (rule daemon_inv_move)
  show "peer_id q = t" if "phase_peer ph' = Some q" for q
    using phase_peer_id [OF assms(1,2)] listed_phase_peer [OF assms(3)] listed_phase_peer [OF assms(4)] that
    by simp
  have "listed_peers d = others t d \<union> {r}"
    using listed_split [OF assms(1), of t] assms(2,3) by simp
  then show "peers_inv (others t d \<union> set_option (listed ph')) (peers d')"
    using daemon_inv_peers [OF assms(1)] assms(4,7) by simp
qed

lemma stage_list_inv:
  assumes "daemon_inv d" "phases d t = Some (Registered r i)"
  shows "daemon_inv (stage_list t r i d)"
proof -
  have ev: "events_of t d = [Connected t]" and id: "peer_id r = t"
    using daemon_inv_events [OF assms(1), of t] assms phase_peer_id [OF assms] by simp_all
  have old: "others t d = listed_peers d" using assms by (intro unlisted_others) simp_all
  have "peer_id r \<notin> peer_id ` listed_peers d" unfolding old [symmetric] using id by (auto simp: others_def)
  then have ins: "peers_inv (insert r (listed_peers d)) (tracker_insert r (peers d))"
    by (rule tracker_insert_inv [OF daemon_inv_peers [OF assms(1)]])
  show ?thesis
    using assms(1)
  proof (rule daemon_inv_move [where t = t and ph = "Reporting r i" and es = "[]"])
    show "peers_inv (others t d \<union> set_option (listed (Reporting r i))) (peers (stage_list t r i d))"
      using ins old by (simp add: stage_list_def register_as_peer_def daemon_simps)
  qed (use id ev in \<open>simp_all add: stage_list_def register_as_peer_def daemon_simps\<close>)
qed

lemma stage_report_inv:
  assumes "daemon_inv d" "phases d t = Some (Reporting r i)"
  shows "daemon_inv (stage_report t r i reported d)"
  using daemon_inv_events [OF assms(1), of t] phase_peer_id [OF assms] assms(2)
  by (intro listed_move_inv [OF assms, where ph' = "Serving r i" and r = r and
        es = "if is_ok reported then [Authenticated t (peer_name r)] else []"])
     (simp_all add: stage_report_def report_registration_def daemon_simps)

lemma stage_serve_inv:
  assumes "daemon_inv d" "phases d t = Some (Serving r i)"
  shows "daemon_inv (stage_serve show_error upgraded t r i loop has_downlink evs d)"
proof -
  have "daemon_inv (run_finish show_error upgraded t res (set_phase t (Leaving r i) d))" for res
    using daemon_inv_events [OF assms(1), of t] assms(2)
    by (intro listed_move_inv [OF assms, where ph' = "Leaving r i" and r = r and es = "[]"])
       (simp_all add: daemon_simps)
  then show ?thesis using assms(1) by (simp add: stage_serve_def split: option.splits)
qed

lemma announce_inv:
  assumes "daemon_inv d" "phases d t = Some (Leaving r i)"
  shows "daemon_inv (set_phase t (Departing r i) (announce_disconnection r d))"
  using daemon_inv_events [OF assms(1), of t] phase_peer_id [OF assms] assms(2)
  by (intro listed_move_inv [OF assms, where ph' = "Departing r i" and r = r and es = "[Disconnected t]"])
     (auto simp: announce_disconnection_def daemon_simps)

lemma unlist_inv:
  assumes "daemon_inv d" "phases d t = Some (Departing r i)"
  shows "daemon_inv (set_phase t (Unlisted i) (deregister_peer r d))"
proof -
  have l: "listed_peers d = others t d \<union> {r}" using listed_split [OF assms(1), of t] assms(2) by simp
  have "r \<notin> others t d" using phase_peer_id [OF assms] by (simp add: others_def)
  then have rem: "peers_inv (others t d) (tracker_remove r (peers d))"
    using tracker_remove_inv [OF daemon_inv_peers [OF assms(1)], of r] l by simp
  show ?thesis
    using assms(1)
  proof (rule daemon_inv_move [where t = t and ph = "Unlisted i" and es = "[]"])
    show "peers_inv (others t d \<union> set_option (listed (Unlisted i)))
        (peers (set_phase t (Unlisted i) (deregister_peer r d)))"
      using rem by (simp add: deregister_peer_def daemon_simps)
  qed (use daemon_inv_events [OF assms(1), of t] assms(2) in
      \<open>auto simp: deregister_peer_def daemon_simps\<close>)
qed

lemma deregister_inv:
  assumes "daemon_inv d" "phases d t = Some (Unlisted i)"
  shows "daemon_inv (set_phase t Over (deregister_registry cfg i d))"
  using assms(1)
proof (rule daemon_inv_move [where t = t and ph = Over and es = "[]"])
  show "peers_inv (others t d \<union> set_option (listed Over))
      (peers (set_phase t Over (deregister_registry cfg i d)))"
    using unlisted_others [of d t] daemon_inv_peers [of d] assms
    by (simp add: deregister_registry_def daemon_simps)
qed (use daemon_inv_events [OF assms(1), of t] assms(2) in
    \<open>auto simp: deregister_registry_def daemon_simps\<close>)

lemma daemon_step_inv: "daemon_step cfg show_error d d' \<Longrightarrow> daemon_inv d \<Longrightarrow> daemon_inv d'"
  by (erule daemon_stepE)
     (simp_all add: stage_connect_inv stage_authenticate_inv stage_register_inv stage_list_inv
        stage_report_inv announce_inv stage_serve_inv unlist_inv deregister_inv)

lemma daemon_new_inv: "daemon_inv (daemon_new s)"
  by (simp add: daemon_inv_def daemon_new_def listed_peers_def events_of_def tracker_new_inv)

lemma daemon_run_inv: "(daemon_step cfg show_error)\<^sup>*\<^sup>* (daemon_new s) d \<Longrightarrow> daemon_inv d"
  by (induction rule: rtranclp_induct) (auto intro: daemon_new_inv daemon_step_inv)

section \<open>Properties\<close>

definition in_order :: "tunnel_id \<Rightarrow> daemon_event list \<Rightarrow> bool" where
  "in_order t evs \<longleftrightarrow> (\<exists>n. evs \<in> {[], [Connected t], [Connected t, Authenticated t n], [Connected t, Disconnected t],
     [Connected t, Authenticated t n, Disconnected t]})"

definition all_alive :: "peer_record \<Rightarrow> bool" where
  "all_alive r = True"

lemma get_by_id_listed:
  assumes "daemon_inv d"
  shows "get_by_id all_alive (peers d) t = Some r \<longleftrightarrow> (\<exists>ph. phases d t = Some ph \<and> listed ph = Some r)"
proof -
  have "get_by_id all_alive (peers d) t = Some r \<longleftrightarrow> r \<in> listed_peers d \<and> peer_id r = t"
    using daemon_inv_peers [OF assms] by (auto simp: get_by_id_def all_alive_def peers_inv_def bind_eq_Some_conv)
  then show ?thesis
    using phase_peer_id [OF assms _ listed_phase_peer] by (auto simp: listed_peers_def)
qed

text \<open>
  C24: whatever the interleaving of any number of tunnels, the events of each tunnel come in the
  order connected, authenticated, disconnected, each at most once; a tunnel found in the peer
  tables was connected, any authenticated event it had carries the name it is listed under, and
  from the authenticated event to the disconnected one the tunnel is found there.
\<close>

theorem daemon_events_ordered:
  assumes "(daemon_step cfg show_error)\<^sup>*\<^sup>* (daemon_new s) d"
  shows "in_order t (events_of t d) \<and>
    (\<forall>r. get_by_id all_alive (peers d) t = Some r \<longrightarrow>
       Connected t \<in> set (events d) \<and> (\<forall>n. Authenticated t n \<in> set (events d) \<longrightarrow> n = peer_name r)) \<and>
    (\<forall>n. Authenticated t n \<in> set (events d) \<and> Disconnected t \<notin> set (events d) \<longrightarrow>
       (\<exists>r. get_by_id all_alive (peers d) t = Some r \<and> peer_name r = n))"
proof -
  have inv: "daemon_inv d" using assms by (rule daemon_run_inv)
  have ev: "phase_events t (phases d t) (events_of t d)" using inv by (rule daemon_inv_events)
  have get: "get_by_id all_alive (peers d) t = Some r \<longleftrightarrow> (\<exists>ph. phases d t = Some ph \<and> listed ph = Some r)" for r
    using inv by (rule get_by_id_listed)
  have mem: "e \<in> set (events d) \<longleftrightarrow> e \<in> set (events_of t d)" if "event_id e = t" for e
    using that by (simp add: events_of_def)
  have "in_order t (events_of t d)"
    using ev by (cases "(t, phases d t, events_of t d)" rule: phase_events.cases) (auto simp: in_order_def)
  moreover have "Connected t \<in> set (events_of t d) \<and>
      (\<forall>n. Authenticated t n \<in> set (events_of t d) \<longrightarrow> n = peer_name r)"
    if "phases d t = Some ph" "listed ph = Some r" for ph r
    using ev that by (cases ph) auto
  moreover have "\<exists>r. get_by_id all_alive (peers d) t = Some r \<and> peer_name r = n"
    if "Authenticated t n \<in> set (events_of t d)" "Disconnected t \<notin> set (events_of t d)" for n
    using ev that unfolding get
    by (cases "(t, phases d t, events_of t d)" rule: phase_events.cases) auto
  ultimately show ?thesis by (auto simp: mem get)
qed

text \<open>The daemon over a registry in memory that keeps the id of a tunnel under its name.\<close>

definition in_memory_config ::
  "('m, tunnel_name, tunnel_id) dashmap \<Rightarrow>
   (tunnel_id, 'm in_memory, tunnel_name, 'j in_memory_error) daemon_config" where
  "in_memory_config D =
    \<lparr>construct_record = (\<lambda>t name attributes. Ok (t, attributes)),
     registry_register = in_memory_register D None,
     registry_deregister = in_memory_deregister_identifier D None\<rparr>"

text \<open>A tunnel can be brought to serving whenever the registry takes it.\<close>

lemmas stage_simps = stage_connect_def stage_authenticate_def authenticate_tunnel_def stage_register_def
  register_in_registry_def stage_list_def register_as_peer_def stage_report_def report_registration_def
  daemon_simps

definition served ::
  "('m, tunnel_name, tunnel_id) dashmap \<Rightarrow> tunnel_id \<Rightarrow> tunnel_name \<Rightarrow>
   ('m in_memory, tunnel_name) daemon \<Rightarrow> ('m in_memory, tunnel_name) daemon" where
  "served D t name d =
    (let peer = \<lparr>peer_id = t, peer_name = name, peer_attributes = Map.empty\<rparr>
     in d\<lparr>peers := tracker_insert peer (peers d),
       registry := (registry d)\<lparr>tunnels := dm_insert D (tunnels (registry d)) name t\<rparr>,
       events := events d @ [Connected t, Authenticated t name],
       phases := (phases d)(t \<mapsto> Serving peer name)\<rparr>)"

lemma steps3: "R a b \<Longrightarrow> R b c \<Longrightarrow> R c e \<Longrightarrow> e = f \<Longrightarrow> R\<^sup>*\<^sup>* a f"
  by (blast intro: converse_rtranclp_into_rtranclp)

lemma steps4: "R a b \<Longrightarrow> R b c \<Longrightarrow> R c e \<Longrightarrow> R e f \<Longrightarrow> f = g \<Longrightarrow> R\<^sup>*\<^sup>* a g"
  by (blast intro: converse_rtranclp_into_rtranclp)

lemma steps5: "R a b \<Longrightarrow> R b c \<Longrightarrow> R c e \<Longrightarrow> R e f \<Longrightarrow> R f g \<Longrightarrow> g = h \<Longrightarrow> R\<^sup>*\<^sup>* a h"
  by (blast intro: converse_rtranclp_into_rtranclp)

lemma served_run:
  fixes show_error :: "('a, 'e, 'j in_memory_error) tunnel_lifecycle_error \<Rightarrow> rstr"
  assumes "phases d t = None"
  shows "(daemon_step (in_memory_config D) show_error)\<^sup>*\<^sup>* d (served D t name d)"
proof -
  let ?step = "daemon_step (in_memory_config D) show_error"
  let ?peer = "\<lparr>peer_id = t, peer_name = name, peer_attributes = Map.empty\<rparr>"
  let ?d1 = "stage_connect t d"
  let ?d2 = "set_phase t (Naming name Map.empty) ?d1"
  let ?d3 = "set_phase t (Registered ?peer name)
    (?d2\<lparr>registry := (registry d)\<lparr>tunnels := dm_insert D (tunnels (registry d)) name t\<rparr>\<rparr>)"
  let ?d4 = "stage_list t ?peer name ?d3"
  have "?step d ?d1" using assms by (rule step_connect)
  moreover have "?step ?d1 ?d2"
    using step_authenticate [of ?d1 t "in_memory_config D" show_error True "Ok (name, Map.empty)"]
    by (simp add: stage_simps)
  moreover have "?step ?d2 ?d3"
    using step_register [of ?d2 t name Map.empty "in_memory_config D" show_error True]
    by (simp add: stage_simps in_memory_config_def in_memory_register_def)
  moreover have "?step ?d3 ?d4"
    by (rule step_list) (simp add: stage_simps)
  moreover have "?step ?d4 (stage_report t ?peer name (Ok ()) ?d4)"
    by (rule step_report) (simp add: stage_simps)
  moreover have "stage_report t ?peer name (Ok ()) ?d4 = served D t name d"
    by (cases d) (simp add: stage_simps served_def Let_def)
  ultimately show ?thesis by (rule steps5)
qed

theorem daemon_events_ordered_witness:
  "in_order 5 (events_of 5 (served assoc_dashmap 5 (lit ''a'') (daemon_new (in_memory_new assoc_dashmap)))) \<and>
   get_by_id all_alive (peers (served assoc_dashmap 5 (lit ''a'') (daemon_new (in_memory_new assoc_dashmap)))) 5
     = Some \<lparr>peer_id = 5, peer_name = lit ''a'', peer_attributes = Map.empty\<rparr>"
proof -
  let ?d = "served assoc_dashmap 5 (lit ''a'') (daemon_new (in_memory_new assoc_dashmap))"
  have "(daemon_step (in_memory_config assoc_dashmap)
      (\<lambda>_ :: (unit, unit, unit in_memory_error) tunnel_lifecycle_error. lit ''e''))\<^sup>*\<^sup>*
      (daemon_new (in_memory_new assoc_dashmap)) ?d"
    by (rule served_run) (simp add: daemon_new_def)
  from daemon_events_ordered [OF this, of 5] have "in_order 5 (events_of 5 ?d)" ..
  then show ?thesis
    by (simp add: served_def daemon_new_def get_by_id_def by_id_insert all_alive_def Let_def)
qed

text \<open>
  C27: handling a request fails, which ends the whole tunnel, exactly when the remote greets with
  the magic number and another version than 0. Every other input, also one that the negotiation
  refuses or that the service fails on, ends only its own link.
\<close>

theorem request_fatal_iff:
  assumes "wcap l = None"
  shows "fst (run_io (handle_incoming_request_bistream anyhow_of find_service shutting_down t) l) =
    (if take 4 (rx l) = SNOCAT_NEGOTIATION_MAGIC \<and> (\<exists>v rest. drop 4 (rx l) = v # rest \<and> v \<noteq> 0)
     then Err ReqUnsupportedProtocolVersion else Ok ())"
proof -
  let ?n = "run_io (service_negotiate find_service t) l"
  have handled: "fst (run_io (handle_incoming_request_bistream anyhow_of find_service shutting_down t) l) = Ok ()"
    if "fst ?n \<in> Inl ` {ProtocolViolation, ReadError, Refused} \<or> is_ok (fst ?n)"
    using that by (cases ?n) (auto simp: handle_incoming_request_bistream_def run_io_bind split: sum.splits prod.splits)
  show ?thesis
  proof (cases "rx l" rule: greeting_cases)
    case mismatch
    then have "fst ?n = Err ProtocolViolation"
      using assms by (simp add: service_negotiate_def run_then_Err run_protocol_magic_mismatch)
    then show ?thesis using handled mismatch by simp
  next
    case no_version
    then have "fst ?n = Err ReadError"
      using assms by (simp add: service_negotiate_def run_then_Err run_protocol_magic_no_version)
    then show ?thesis using handled no_version by simp
  next
    case (greeted v rest)
    show ?thesis
    proof (cases "v = 0")
      case True
      then have "fst ?n \<in> Inl ` {ProtocolViolation, ReadError, Refused} \<or> is_ok (fst ?n)"
        using run_service_negotiate [OF assms, of rest find_service t] greeted
        by (auto split: sum.splits option.splits)
      then show ?thesis using handled greeted True by (simp add: greeting_def)
    next
      case False
      then have "run_io (service_negotiate find_service t) l =
          (Err UnsupportedProtocolVersion, l\<lparr>rx := rest, tx := tx l @ greeting 0\<rparr>)"
        unfolding service_negotiate_def run_then_Ok [OF run_protocol_magic [OF assms greeted]]
        by (simp add: word_gt_0)
      then show ?thesis
        using greeted False by (simp add: handle_incoming_request_bistream_def run_io_bind greeting_def)
    qed
  qed
qed

theorem request_fatal_iff_witness:
  "fst (run_io (handle_incoming_request_bistream (\<lambda>_. undefined) (\<lambda>_ _. None :: (unit, unit) service option) False ())
     \<lparr>rx = [0x4e, 0x59, 0x41, 0x4e, 1], tx = [], wcap = None, read_first = True\<rparr>)
   = Err ReqUnsupportedProtocolVersion"
  using request_fatal_iff
    [of "\<lparr>rx = [0x4e, 0x59, 0x41, 0x4e, 1], tx = [], wcap = None, read_first = True\<rparr>"
      "\<lambda>_. undefined" "\<lambda>_ _. None :: (unit, unit) service option" False "()"]
  by (simp add: SNOCAT_NEGOTIATION_MAGIC_def)

text \<open>The departure of a served tunnel, up to the deregistration from the registry.\<close>

definition unlisted ::
  "tunnel_id \<Rightarrow> tunnel_name \<Rightarrow> ('m in_memory, tunnel_name) daemon \<Rightarrow> ('m in_memory, tunnel_name) daemon" where
  "unlisted t name d =
    (let peer = \<lparr>peer_id = t, peer_name = name, peer_attributes = Map.empty\<rparr>
     in d\<lparr>peers := tracker_remove peer (peers d), events := events d @ [Disconnected t],
       phases := (phases d)(t \<mapsto> Unlisted name)\<rparr>)"

lemma unlisted_run:
  fixes show_error :: "('a, 'e, 'j in_memory_error) tunnel_lifecycle_error \<Rightarrow> rstr"
  assumes "phases d t = Some (Serving \<lparr>peer_id = t, peer_name = name, peer_attributes = Map.empty\<rparr> name)"
  shows "(daemon_step (in_memory_config D) show_error)\<^sup>*\<^sup>* d (unlisted t name d)"
proof -
  let ?step = "daemon_step (in_memory_config D) show_error"
  let ?peer = "\<lparr>peer_id = t, peer_name = name, peer_attributes = Map.empty\<rparr>"
  let ?d1 = "set_phase t (Leaving ?peer name) d"
  let ?d2 = "set_phase t (Departing ?peer name) (announce_disconnection ?peer ?d1)"
  let ?d3 = "set_phase t (Unlisted name) (deregister_peer ?peer ?d2)"
  have "?step d ?d1"
    using step_serve [OF assms, of "in_memory_config D" show_error False "\<lambda>_. Some (Ok ())" True "[DownlinkEnded]"]
    by (simp add: stage_serve_def registered_tunnel_lifecycle_def handle_incoming_requests_def run_finish_def)
  moreover have "?step ?d1 ?d2" by (rule step_announce) (simp add: daemon_simps)
  moreover have "?step ?d2 ?d3" by (rule step_unlist) (simp add: daemon_simps)
  moreover have "?d3 = unlisted t name d"
    by (cases d) (simp add: unlisted_def daemon_simps announce_disconnection_def deregister_peer_def Let_def)
  ultimately show ?thesis by (rule steps3)
qed

text \<open>
  Two tunnels of one name: both come, and the first leaves the list of peers. The registry has
  the record of the second.
\<close>

lemma older_leaving_run:
  fixes show_error :: "('a, 'e, 'j in_memory_error) tunnel_lifecycle_error \<Rightarrow> rstr"
    and D :: "('m, tunnel_name, tunnel_id) dashmap"
  assumes "dashmap_laws D" "t \<noteq> u"
  shows "\<exists>d. (daemon_step (in_memory_config D) show_error)\<^sup>*\<^sup>* (daemon_new (in_memory_new D)) d \<and>
    phases d t = Some (Unlisted name) \<and> (\<exists>r. phases d u = Some (Serving r name)) \<and>
    fst (in_memory_lookup D (None :: 'j option) name (registry d)) = Ok (Some u)"
proof -
  let ?start = "daemon_new (in_memory_new D) :: ('m in_memory, tunnel_name) daemon"
  define d1 where "d1 = served D t name ?start"
  define d2 where "d2 = served D u name d1"
  have p: "phases ?start = Map.empty" by (simp add: daemon_new_def)
  have "(daemon_step (in_memory_config D) show_error)\<^sup>*\<^sup>* ?start d1"
    unfolding d1_def by (rule served_run) (simp add: p)
  also have "(daemon_step (in_memory_config D) show_error)\<^sup>*\<^sup>* d1 d2"
    unfolding d2_def by (rule served_run) (use assms(2) in \<open>simp add: d1_def served_def p Let_def\<close>)
  also have "(daemon_step (in_memory_config D) show_error)\<^sup>*\<^sup>* d2 (unlisted t name d2)"
    by (rule unlisted_run) (use assms(2) in \<open>simp add: d2_def d1_def served_def p Let_def\<close>)
  finally show ?thesis
    using assms(2) dashmap_laws.get_insert [OF assms(1)]
    by (intro exI [of _ "unlisted t name d2"])
      (simp add: unlisted_def d2_def served_def in_memory_lookup_def Let_def)
qed

text \<open>A stage of one tunnel leaves the phases of the others.\<close>

lemma same_phases [simp]:
  "phases (fire ev d) = phases d" "phases (request_close t reason d) = phases d"
  "phases (run_finish show_error upgraded t res d) = phases d"
  "phases (deregister_registry cfg i d) = phases d" "phases (deregister_peer peer d) = phases d"
  "phases (announce_disconnection peer d) = phases d"
  "phases (report_registration peer reported d) = phases d" "phases (register_as_peer peer d) = phases d"
  by (simp_all add: daemon_simps deregister_registry_def deregister_peer_def announce_disconnection_def
      report_registration_def register_as_peer_def)

lemma registered_phases: "register_in_registry cfg t name attributes d = (r, d') \<Longrightarrow> phases d' = phases d"
  by (auto simp: register_in_registry_def split: sum.splits prod.splits)

lemma other_phases:
  assumes "u \<noteq> t"
  shows "phases (set_phase t ph d) u = phases d u"
    "phases (stage_fail show_error upgraded t e d) u = phases d u"
    "phases (stage_connect t d) u = phases d u"
    "phases (stage_authenticate show_error upgraded t performed d) u = phases d u"
    "phases (stage_register cfg show_error upgraded t name attributes d) u = phases d u"
    "phases (stage_list t peer i d) u = phases d u" "phases (stage_report t peer i reported d) u = phases d u"
    "phases (stage_serve show_error upgraded t peer i loop has_downlink evs d) u = phases d u"
proof -
  have set_phase: "phases (set_phase t ph d) u = phases d u" for ph and d :: "('s, 'i) daemon"
    using assms by (simp add: set_phase_def)
  then show "phases (set_phase t ph d) u = phases d u" .
  show "phases (stage_fail show_error upgraded t e d) u = phases d u" "phases (stage_connect t d) u = phases d u"
    "phases (stage_authenticate show_error upgraded t performed d) u = phases d u"
    "phases (stage_register cfg show_error upgraded t name attributes d) u = phases d u"
    "phases (stage_list t peer i d) u = phases d u" "phases (stage_report t peer i reported d) u = phases d u"
    "phases (stage_serve show_error upgraded t peer i loop has_downlink evs d) u = phases d u"
    by (auto simp: stage_fail_def stage_connect_def stage_authenticate_def stage_register_def stage_list_def
        stage_report_def stage_serve_def set_phase registered_phases split: sum.splits prod.splits option.splits)
qed

lemma deregister_step_of:
  assumes "daemon_step cfg show_error d d'" "phases d t = Some (Unlisted i)" "phases d' t = Some Over"
  shows "d' = set_phase t Over (deregister_registry cfg i d)"
  using assms(1)
proof (cases rule: daemon_step.cases)
  case (step_connect v)
  then show ?thesis using assms(2,3) by (cases "v = t") (simp_all add: other_phases)
next
  case (step_authenticate v)
  then show ?thesis using assms(2,3) by (cases "v = t") (simp_all add: other_phases)
next
  case (step_register v)
  then show ?thesis using assms(2,3) by (cases "v = t") (simp_all add: other_phases)
next
  case (step_list v)
  then show ?thesis using assms(2,3) by (cases "v = t") (simp_all add: other_phases)
next
  case (step_report v)
  then show ?thesis using assms(2,3) by (cases "v = t") (simp_all add: other_phases)
next
  case (step_serve v)
  then show ?thesis using assms(2,3) by (cases "v = t") (simp_all add: other_phases)
next
  case (step_announce v)
  then show ?thesis using assms(2,3) by (cases "v = t") (simp_all add: other_phases)
next
  case (step_unlist v)
  then show ?thesis using assms(2,3) by (cases "v = t") (simp_all add: other_phases)
next
  case (step_deregister v)
  then show ?thesis using assms(2,3) by (cases "v = t") (simp_all add: other_phases)
qed

text \<open>
  C28: the registry in memory forgets a tunnel that is still served and listed as a peer when an
  older tunnel of the same name is deregistered. Two tunnels \<open>t\<close> and \<open>u\<close> of one name can come
  to a point where the registry answers the name with \<open>u\<close>, which is served, and \<open>t\<close> is about to
  be deregistered; and from every such point the deregistration of \<open>t\<close> leaves \<open>u\<close> served and
  listed while the registry has nothing under the name any more.
\<close>

theorem shared_name_forgotten:
  fixes show_error :: "('a, 'e, 'j in_memory_error) tunnel_lifecycle_error \<Rightarrow> rstr"
  assumes "dashmap_laws D" "t \<noteq> u"
  shows "let reachable = (daemon_step (in_memory_config D) show_error)\<^sup>*\<^sup>* (daemon_new (in_memory_new D));
             answer = (\<lambda>d. fst (in_memory_lookup D (None :: 'j option) name (registry d)));
             at_risk = (\<lambda>d r. phases d t = Some (Unlisted name) \<and> phases d u = Some (Serving r name) \<and>
               answer d = Ok (Some u))
    in (\<exists>d r. reachable d \<and> at_risk d r) \<and>
      (\<forall>d r d'. reachable d \<and> at_risk d r \<and> daemon_step (in_memory_config D) show_error d d' \<and>
         phases d' t = Some Over \<longrightarrow>
         phases d' u = Some (Serving r name) \<and> get_by_id all_alive (peers d') u = Some r \<and> answer d' = Ok None)"
  unfolding Let_def
proof (intro conjI allI impI; (elim conjE)?)
  show "\<exists>d r. (daemon_step (in_memory_config D) show_error)\<^sup>*\<^sup>* (daemon_new (in_memory_new D)) d \<and>
      phases d t = Some (Unlisted name) \<and> phases d u = Some (Serving r name) \<and>
      fst (in_memory_lookup D (None :: 'j option) name (registry d)) = Ok (Some u)"
    using older_leaving_run [OF assms, of show_error name] by blast
next
  fix d r d'
  assume reach: "(daemon_step (in_memory_config D) show_error)\<^sup>*\<^sup>* (daemon_new (in_memory_new D)) d"
    and t: "phases d t = Some (Unlisted name)" and u: "phases d u = Some (Serving r name)"
    and step: "daemon_step (in_memory_config D) show_error d d'" and over: "phases d' t = Some Over"
  have d': "d' = set_phase t Over (deregister_registry (in_memory_config D :: (_, _, _, 'j in_memory_error) daemon_config) name d)"
    using step t over by (rule deregister_step_of)
  have inv: "daemon_inv d'"
    by (rule daemon_run_inv [OF rtranclp.rtrancl_into_rtrancl [OF reach step]])
  show "phases d' u = Some (Serving r name)"
    using assms(2) u by (simp add: d' set_phase_def deregister_registry_def)
  then show "get_by_id all_alive (peers d') u = Some r"
    using get_by_id_listed [OF inv] by simp
  show "fst (in_memory_lookup D (None :: 'j option) name (registry d')) = Ok None"
    using dashmap_laws.get_remove [OF assms(1), of "tunnels (registry d)" name]
    by (cases "dm_remove D (tunnels (registry d)) name")
      (simp add: d' set_phase_def deregister_registry_def in_memory_config_def in_memory_defs)
qed

theorem shared_name_forgotten_witness:
  "\<exists>d d' r. (daemon_step (in_memory_config assoc_dashmap)
      (\<lambda>_ :: (unit, unit, unit in_memory_error) tunnel_lifecycle_error. lit ''e''))\<^sup>*\<^sup>*
      (daemon_new (in_memory_new assoc_dashmap)) d \<and>
    daemon_step (in_memory_config assoc_dashmap)
      (\<lambda>_ :: (unit, unit, unit in_memory_error) tunnel_lifecycle_error. lit ''e'') d d' \<and>
    fst (in_memory_lookup assoc_dashmap (None :: unit option) (lit ''a'') (registry d)) = Ok (Some 2) \<and>
    phases d' 2 = Some (Serving r (lit ''a'')) \<and>
    fst (in_memory_lookup assoc_dashmap (None :: unit option) (lit ''a'') (registry d')) = Ok None"
proof -
  let ?show = "\<lambda>_ :: (unit, unit, unit in_memory_error) tunnel_lifecycle_error. lit ''e''"
  note forgotten = shared_name_forgotten [where t = 1 and u = 2 and name = "lit ''a''" and show_error = ?show,
      OF assoc_map.dashmap_laws_axioms, unfolded Let_def, simplified]
  obtain d r where d: "(daemon_step (in_memory_config assoc_dashmap) ?show)\<^sup>*\<^sup>* (daemon_new (in_memory_new assoc_dashmap)) d"
      "phases d 1 = Some (Unlisted (lit ''a''))" "phases d 2 = Some (Serving r (lit ''a''))"
      "fst (in_memory_lookup assoc_dashmap (None :: unit option) (lit ''a'') (registry d)) = Ok (Some 2)"
    using conjunct1 [OF forgotten] by blast
  let ?d = "set_phase 1 Over (deregister_registry
    (in_memory_config assoc_dashmap :: (_, _, _, unit in_memory_error) daemon_config) (lit ''a'') d)"
  have step: "daemon_step (in_memory_config assoc_dashmap) ?show d ?d"
    using d(2) by (rule step_deregister)
  moreover have "phases ?d 1 = Some Over" by (simp add: set_phase_def)
  ultimately show ?thesis
    using conjunct2 [OF forgotten] d by blast
qed

end
