(* ===== verification/Redis_Registry.thy ===== *)
theory Redis_Registry
  imports Registry Dropkick
begin

text \<open>
  The registry kept in Redis (\<open>common/protocol/tunnel/registry/redis.rs\<close>). A name refers to a
  record id, the record id to the encoded record; both entries expire, and a background task
  per registration renews them. The Redis client is a parameter: a record of the commands the
  code issues, with the documented behaviour of the commands as a locale. Each command takes an
  environment value, which decides when the server executes it and whether an answer arrives.
\<close>

section \<open>The client\<close>

datatype redis_error_kind = InvalidCommand | UnknownKind | OtherKind

record redis_error =
  kind :: redis_error_kind
  details :: rstr

record ('v, 'q) redis_client =
  rd_get :: "rstr \<Rightarrow> 'v \<Rightarrow> 'q \<Rightarrow> (redis_error, byte list option) result \<times> 'q"
  rd_set :: "rstr \<Rightarrow> byte list \<Rightarrow> int \<Rightarrow> bool \<Rightarrow> 'v \<Rightarrow> 'q \<Rightarrow> (redis_error, unit) result \<times> 'q"
  rd_del :: "rstr \<Rightarrow> 'v \<Rightarrow> 'q \<Rightarrow> (redis_error, unit) result \<times> 'q"
  rd_getdel :: "rstr \<Rightarrow> 'v \<Rightarrow> 'q \<Rightarrow> (redis_error, byte list option) result \<times> 'q"
  rd_expire :: "rstr \<Rightarrow> int \<Rightarrow> 'v \<Rightarrow> 'q \<Rightarrow> (redis_error, bool) result \<times> 'q"
  rd_exists :: "rstr \<Rightarrow> 'v \<Rightarrow> 'q \<Rightarrow> (redis_error, bool) result \<times> 'q"
  rd_string :: "byte list \<Rightarrow> (redis_error, rstr) result"

text \<open>
  \<open>rd_string\<close> is the conversion of a value to a \<open>String\<close>.
  What the server stores: a value and the time in milliseconds at which it expires. The boolean
  of \<open>rd_set\<close> is the option \<open>NX\<close>, the integer the lifetime in seconds. A command without an
  answer may have been executed or not. Nothing is assumed on the answer of a \<open>SET\<close> with
  \<open>NX\<close> that finds the key taken.
\<close>

type_synonym redis_entries = "rstr \<rightharpoonup> byte list \<times> nat"

definition live :: "redis_entries \<Rightarrow> nat \<Rightarrow> rstr \<Rightarrow> byte list option" where
  "live es now k = (case es k of None \<Rightarrow> None | Some (v, deadline) \<Rightarrow> if now < deadline then Some v else None)"

definition until :: "nat \<Rightarrow> int \<Rightarrow> nat" where
  "until now seconds = now + 1000 * nat seconds"

locale redis_laws =
  fixes C :: "('v, 'q) redis_client"
    and time :: "'v \<Rightarrow> nat"
    and entry :: "'q \<Rightarrow> redis_entries"
  assumes get_entry: "rd_get C k v q = (r, q') \<Longrightarrow> entry q' = entry q"
    and get_answer: "rd_get C k v q = (Inr x, q') \<Longrightarrow> x = live (entry q) (time v) k"
    and set_answer: "rd_set C k b s False v q = (Inr u, q') \<Longrightarrow> 0 < s \<Longrightarrow>
      entry q' = (entry q)(k \<mapsto> (b, until (time v) s))"
    and set_entry: "rd_set C k b s nx v q = (ru, q') \<Longrightarrow> 0 < s \<Longrightarrow>
      entry q' = entry q \<or> entry q' = (entry q)(k \<mapsto> (b, until (time v) s))"
    and set_nx: "rd_set C k b s True v q = (Inr u, q') \<Longrightarrow> 0 < s \<Longrightarrow> live (entry q) (time v) k = None \<Longrightarrow>
      entry q' = (entry q)(k \<mapsto> (b, until (time v) s))"
    and del_answer: "rd_del C k v q = (Inr u, q') \<Longrightarrow> entry q' = (entry q)(k := None)"
    and del_entry: "rd_del C k v q = (ru, q') \<Longrightarrow> entry q' = entry q \<or> entry q' = (entry q)(k := None)"
    and getdel_answer: "rd_getdel C k v q = (Inr x, q') \<Longrightarrow>
      x = live (entry q) (time v) k \<and> entry q' = (entry q)(k := None)"
    and getdel_entry: "rd_getdel C k v q = (r, q') \<Longrightarrow> entry q' = entry q \<or> entry q' = (entry q)(k := None)"
    and expire_answer: "rd_expire C k s v q = (Inr y, q') \<Longrightarrow> 0 < s \<Longrightarrow>
      y = (live (entry q) (time v) k \<noteq> None) \<and>
      entry q' = (case live (entry q) (time v) k of
        None \<Rightarrow> entry q | Some b \<Rightarrow> (entry q)(k \<mapsto> (b, until (time v) s)))"
    and exists_entry: "rd_exists C k v q = (rb, q') \<Longrightarrow> entry q' = entry q"
    and exists_answer: "rd_exists C k v q = (Inr y, q') \<Longrightarrow> y = (live (entry q) (time v) k \<noteq> None)"
    and string_value: "valid_str str \<Longrightarrow> rd_string C (into_bytes str) = Ok str"

text \<open>A server that answers every command; the environment is the time.\<close>

definition answering_server :: "(nat, redis_entries) redis_client" where
  "answering_server =
    \<lparr>rd_get = (\<lambda>k now q. (Ok (live q now k), q)),
     rd_set = (\<lambda>k b s nx now q.
       if nx \<and> live q now k \<noteq> None then (Ok (), q) else (Ok (), q(k \<mapsto> (b, until now s)))),
     rd_del = (\<lambda>k now q. (Ok (), q(k := None))),
     rd_getdel = (\<lambda>k now q. (Ok (live q now k), q(k := None))),
     rd_expire = (\<lambda>k s now q. (case live q now k of
       None \<Rightarrow> (Ok False, q) | Some b \<Rightarrow> (Ok True, q(k \<mapsto> (b, until now s))))),
     rd_exists = (\<lambda>k now q. (Ok (live q now k \<noteq> None), q)),
     rd_string = (\<lambda>b. ok_or \<lparr>kind = OtherKind, details = []\<rparr> (from_utf8 b))\<rparr>"

interpretation answering: redis_laws answering_server "\<lambda>now. now" "\<lambda>q. q"
  by unfold_locales (auto simp: answering_server_def from_utf8_into_bytes split: if_splits option.splits)

section \<open>Configuration and state\<close>

text \<open>A \<open>Duration\<close> is a number of nanoseconds.\<close>

type_synonym duration = nat

definition as_secs :: "duration \<Rightarrow> nat" where
  "as_secs d = d div 1000000000"

definition from_secs :: "nat \<Rightarrow> duration" where
  "from_secs s = s * 1000000000"

definition secs_i64 :: "duration \<Rightarrow> int" where
  "secs_i64 d = (if as_secs d < 2 ^ 63 then int (as_secs d) else 2 ^ 63 - 1)"

record redis_registry_config =
  tunnel_id_ref_lifetime :: duration
  tunnel_entry_lifetime :: duration
  renewal_rate :: duration

definition config_default :: redis_registry_config where
  "config_default = \<lparr>tunnel_id_ref_lifetime = from_secs 600, tunnel_entry_lifetime = from_secs 60,
     renewal_rate = from_secs 20\<rparr>"

text \<open>What a spawned renewal task was given.\<close>

record 'k renewal =
  renewal_canceller :: "'k cancellation_listener"
  renewal_name :: tunnel_name
  renewal_rid :: rstr
  renewal_entry :: "byte list"
  renewal_config :: redis_registry_config

record 'k redis_registry =
  config :: redis_registry_config
  active_registration_map :: "rstr \<rightharpoonup> 'k"
  core_canceller :: 'k
  renewals :: "'k renewal list"

definition redis_registry_new ::
  "('k, 't) token_ops \<Rightarrow> redis_registry_config \<Rightarrow> 't \<Rightarrow> 'k redis_registry \<times> 't" where
  "redis_registry_new T cfg t =
    (case token_new T t of (core, t) \<Rightarrow>
      (\<lparr>config = cfg, active_registration_map = Map.empty, core_canceller = core, renewals = []\<rparr>, t))"

datatype 'j redis_registry_error = Redis redis_error | SerializationError 'j | RepeatKeyConflicts nat

record 'k redis_identifier =
  ident_name :: tunnel_name
  ident_rid :: rstr
  ident_registration :: "'k option"

definition redis_identifier_eq :: "'k redis_identifier \<Rightarrow> 'k redis_identifier \<Rightarrow> bool" where
  "redis_identifier_eq a b \<longleftrightarrow> ident_name a = ident_name b \<and> ident_rid a = ident_rid b"

definition tunnel_key_for :: "tunnel_name \<Rightarrow> rstr" where
  "tunnel_key_for tunnel_name = lit ''/tunnel/id/'' @ tunnel_name"

definition tunnel_rid_key :: "rstr \<Rightarrow> rstr" where
  "tunnel_rid_key rid = lit ''/tunnel/rid/'' @ rid"

lemma keys_apart [simp]:
  "tunnel_key_for n \<noteq> tunnel_rid_key r" "tunnel_rid_key r \<noteq> tunnel_key_for n"
  "tunnel_rid_key r = tunnel_rid_key s \<longleftrightarrow> r = s" "tunnel_key_for n = tunnel_key_for m \<longleftrightarrow> n = m"
  by (simp_all add: tunnel_key_for_def tunnel_rid_key_def lit_def)

section \<open>Reading and deleting\<close>

definition contains :: "rstr \<Rightarrow> rstr \<Rightarrow> bool" where
  "contains s pat \<longleftrightarrow> sublist pat s"

text \<open>The command \<open>v i\<close> of an operation runs in the environment \<open>v i\<close>.\<close>

definition getdel_unsupported :: "redis_error \<Rightarrow> bool" where
  "getdel_unsupported e \<longleftrightarrow> kind e = InvalidCommand \<or>
     (kind e = UnknownKind \<and> contains (details e) (lit ''GETDEL'') \<and> contains (details e) (lit ''unknown command''))"

fun read_value :: "(byte list \<Rightarrow> ('e, 'x) result) \<Rightarrow> byte list option \<Rightarrow> ('e, 'x option) result" where
  "read_value conv None = Ok None"
| "read_value conv (Some b) = map_ok Some (conv b)"

definition getdel_or_get_del ::
  "('v, 'q) redis_client \<Rightarrow> (byte list \<Rightarrow> (redis_error, 'x) result) \<Rightarrow> (nat \<Rightarrow> 'v) \<Rightarrow> rstr \<Rightarrow> 'q \<Rightarrow>
   (redis_error, 'x option) result \<times> 'q" where
  "getdel_or_get_del C conv v key q =
    (case rd_getdel C key (v 0) q of (r, q) \<Rightarrow>
      (case and_then r (read_value conv) of
         Inl e \<Rightarrow>
           if getdel_unsupported e then
             (case rd_get C key (v 1) q of (r, q) \<Rightarrow>
               (case and_then r (read_value conv) of
                  Inl e \<Rightarrow> (Err e, q)
                | Inr res \<Rightarrow>
                    (case rd_del C key (v 2) q of
                       (Inl e, q) \<Rightarrow> (Err e, q)
                     | (Inr _, q) \<Rightarrow> (Ok res, q))))
           else (Err e, q)
       | Inr res \<Rightarrow> (Ok res, q)))"

fun decode_entry :: "(byte list \<Rightarrow> ('j, 'r option) result) \<Rightarrow> byte list option \<Rightarrow> ('j redis_registry_error, 'r option) result" where
  "decode_entry from_slice (Some encoded_entry) = map_err SerializationError (from_slice encoded_entry)"
| "decode_entry from_slice None = Ok None"

definition redis_lookup ::
  "('v, 'q) redis_client \<Rightarrow> (byte list \<Rightarrow> ('j, 'r option) result) \<Rightarrow> (nat \<Rightarrow> 'v) \<Rightarrow> tunnel_name \<Rightarrow> 'q \<Rightarrow>
   ('j redis_registry_error, 'r option) result \<times> 'q" where
  "redis_lookup C from_slice v tunnel_name q =
    (case rd_get C (tunnel_key_for tunnel_name) (v 0) q of (r, q) \<Rightarrow>
      (case and_then r (read_value (rd_string C)) of
         Inl e \<Rightarrow> (Err (Redis e), q)
       | Inr None \<Rightarrow> (Ok None, q)
       | Inr (Some rid) \<Rightarrow>
           (case rd_get C (tunnel_rid_key rid) (v 1) q of
              (Inl e, q) \<Rightarrow> (Err (Redis e), q)
            | (Inr encoded_entry, q) \<Rightarrow> (decode_entry from_slice encoded_entry, q))))"

section \<open>Registering\<close>

definition MAX_ITERATIONS :: nat where
  "MAX_ITERATIONS = 10"

text \<open>The loop that looks for an unused record id; \<open>uuid i\<close> is the id generated in round \<open>i\<close>.\<close>

function allocate_rid ::
  "('v, 'q) redis_client \<Rightarrow> byte list \<Rightarrow> int \<Rightarrow> (nat \<Rightarrow> rstr) \<Rightarrow> (nat \<Rightarrow> 'v) \<Rightarrow> nat \<Rightarrow> 'q \<Rightarrow>
   ('j redis_registry_error, rstr) result \<times> 'q" where
  "allocate_rid C encoded expiration uuid v iteration q =
    (if iteration \<ge> MAX_ITERATIONS then (Err (RepeatKeyConflicts MAX_ITERATIONS), q)
     else
       (case rd_set C (tunnel_rid_key (uuid iteration)) encoded expiration True (v iteration) q of
          (Inr _, q) \<Rightarrow> (Ok (uuid iteration), q)
        | (Inl _, q) \<Rightarrow> allocate_rid C encoded expiration uuid v (iteration + 1) q))"
  by pat_completeness auto

termination
  by (relation "measure (\<lambda>(C, encoded, expiration, uuid, v, iteration, q). MAX_ITERATIONS - iteration)") auto

declare allocate_rid.simps [simp del]

definition register_for_renewals ::
  "('k, 't) token_ops \<Rightarrow> tunnel_name \<Rightarrow> rstr \<Rightarrow> byte list \<Rightarrow> 'k redis_registry \<Rightarrow> 't \<Rightarrow>
   'k \<times> 'k redis_registry \<times> 't" where
  "register_for_renewals T tunnel_name rid entry_encoded reg t =
    (case child_token T (core_canceller reg) t of (canceller, t) \<Rightarrow>
      let reg = reg\<lparr>renewals := renewals reg @
            [\<lparr>renewal_canceller = listener_of canceller, renewal_name = tunnel_name, renewal_rid = rid,
              renewal_entry = entry_encoded, renewal_config = config reg\<rparr>]\<rparr>;
          reg = reg\<lparr>active_registration_map := (active_registration_map reg)(rid \<mapsto> canceller)\<rparr>
      in (canceller, reg, t))"

definition redis_register ::
  "('k, 't) token_ops \<Rightarrow> ('v, 'q) redis_client \<Rightarrow> ('r \<Rightarrow> ('j, byte list) result) \<Rightarrow> (nat \<Rightarrow> rstr) \<Rightarrow>
   (nat \<Rightarrow> 'v) \<Rightarrow> tunnel_name \<Rightarrow> 'r \<Rightarrow> 'k redis_registry \<times> 't \<times> 'q \<Rightarrow>
   ('j redis_registry_error, 'k redis_identifier) result \<times> 'k redis_registry \<times> 't \<times> 'q" where
  "redis_register T C to_vec uuid v tunnel_name record w =
    (case w of (reg, t, q) \<Rightarrow>
      (case to_vec record of
         Inl e \<Rightarrow> (Err (SerializationError e), w)
       | Inr encoded \<Rightarrow>
           (case allocate_rid C encoded (secs_i64 (tunnel_entry_lifetime (config reg))) uuid v 0 q of
              (Inl e, q) \<Rightarrow> (Err e, reg, t, q)
            | (Inr rid, q) \<Rightarrow>
                (case rd_set C (tunnel_key_for tunnel_name) (into_bytes rid)
                    (secs_i64 (tunnel_id_ref_lifetime (config reg))) False (v MAX_ITERATIONS) q of
                   (Inl e, q) \<Rightarrow> (Err (Redis e), reg, t, q)
                 | (Inr _, q) \<Rightarrow>
                     (case register_for_renewals T tunnel_name rid encoded reg t of (registration, reg, t) \<Rightarrow>
                       (Ok \<lparr>ident_name = tunnel_name, ident_rid = rid, ident_registration = Some registration\<rparr>,
                        reg, t, q))))))"

section \<open>Deregistering\<close>

text \<open>\<open>held\<close> says which registrations are still held by an identifier.\<close>

definition deregister_by_rid ::
  "('k, 't) token_ops \<Rightarrow> ('v, 'q) redis_client \<Rightarrow> (byte list \<Rightarrow> ('j, 'r option) result) \<Rightarrow> ('k \<Rightarrow> bool) \<Rightarrow>
   (nat \<Rightarrow> 'v) \<Rightarrow> rstr \<Rightarrow> 'k redis_registry \<times> 't \<times> 'q \<Rightarrow>
   ('j redis_registry_error, 'r option) result \<times> 'k redis_registry \<times> 't \<times> 'q" where
  "deregister_by_rid T C from_slice held v rid w =
    (case w of (reg, t, q) \<Rightarrow>
      (case active_registration_map reg rid of
         Some owned_renewer \<Rightarrow>
           (let reg = reg\<lparr>active_registration_map := (active_registration_map reg)(rid := None)\<rparr>;
                t = (if held owned_renewer then cancel T owned_renewer t else t)
            in case getdel_or_get_del C Ok v (tunnel_rid_key rid) q of
                 (Inl e, q) \<Rightarrow> (Err (Redis e), reg, t, q)
               | (Inr encoded_entry, q) \<Rightarrow> (decode_entry from_slice encoded_entry, reg, t, q))
       | None \<Rightarrow>
           (case rd_get C (tunnel_rid_key rid) (v 0) q of
              (Inl e, q) \<Rightarrow> (Err (Redis e), reg, t, q)
            | (Inr encoded_entry, q) \<Rightarrow> (decode_entry from_slice encoded_entry, reg, t, q))))"

definition redis_deregister ::
  "('k, 't) token_ops \<Rightarrow> ('v, 'q) redis_client \<Rightarrow> (byte list \<Rightarrow> ('j, 'r option) result) \<Rightarrow> ('k \<Rightarrow> bool) \<Rightarrow>
   (nat \<Rightarrow> 'v) \<Rightarrow> tunnel_name \<Rightarrow> 'k redis_registry \<times> 't \<times> 'q \<Rightarrow>
   ('j redis_registry_error, 'r option) result \<times> 'k redis_registry \<times> 't \<times> 'q" where
  "redis_deregister T C from_slice held v tunnel_name w =
    (case w of (reg, t, q) \<Rightarrow>
      (case getdel_or_get_del C (rd_string C) v (tunnel_key_for tunnel_name) q of
         (Inl e, q) \<Rightarrow> (Err (Redis e), reg, t, q)
       | (Inr None, q) \<Rightarrow> (Ok None, reg, t, q)
       | (Inr (Some rid), q) \<Rightarrow> deregister_by_rid T C from_slice held (\<lambda>i. v (i + 3)) rid (reg, t, q)))"

text \<open>The identifier is dropped first; the last one cancels its registration.\<close>

definition drop_identifier ::
  "('k, 't) token_ops \<Rightarrow> ('k \<Rightarrow> bool) \<Rightarrow> 'k redis_identifier \<Rightarrow> 't \<Rightarrow> 't" where
  "drop_identifier T held identifier t =
    (case ident_registration identifier of
       None \<Rightarrow> t
     | Some k \<Rightarrow> if held k then t else dropkick_drop (kick_token T) (dropkick_new k) t)"

definition redis_deregister_identifier ::
  "('k, 't) token_ops \<Rightarrow> ('v, 'q) redis_client \<Rightarrow> (byte list \<Rightarrow> ('j, 'r option) result) \<Rightarrow> ('k \<Rightarrow> bool) \<Rightarrow>
   (nat \<Rightarrow> 'v) \<Rightarrow> 'k redis_identifier \<Rightarrow> 'k redis_registry \<times> 't \<times> 'q \<Rightarrow>
   ('j redis_registry_error, 'r option) result \<times> 'k redis_registry \<times> 't \<times> 'q" where
  "redis_deregister_identifier T C from_slice held v identifier w =
    (case w of (reg, t, q) \<Rightarrow>
      deregister_by_rid T C from_slice held v (ident_rid identifier)
        (reg, drop_identifier T held identifier t, q))"

section \<open>Renewing\<close>

text \<open>
  One round of the renewal task, and the loop over the rounds. A round says whether the task was
  cancelled before and after its sleep and in which environments its commands run; the list of
  rounds is what has happened so far, so the loop has returned exactly when the result says so.
\<close>

definition renewal_round ::
  "('v, 'q) redis_client \<Rightarrow> 'k renewal \<Rightarrow> (nat \<Rightarrow> 'v) \<Rightarrow> 'q \<Rightarrow> 'q" where
  "renewal_round C task v q =
    (let tunnel_key = tunnel_rid_key (renewal_rid task);
         tunnel_ref_key = tunnel_key_for (renewal_name task);
         lifetime = secs_i64 (tunnel_entry_lifetime (renewal_config task));
         q = snd (rd_expire C tunnel_ref_key (secs_i64 (tunnel_id_ref_lifetime (renewal_config task))) (v 0) q)
     in case rd_expire C tunnel_key lifetime (v 1) q of (r, q) \<Rightarrow>
          if r = Ok False then
            (case rd_exists C tunnel_key (v 2) q of (r, q) \<Rightarrow>
              if r = Ok False then snd (rd_set C tunnel_key (renewal_entry task) lifetime True (v 3) q)
              else q)
          else q)"

definition effective_renewal_rate :: "redis_registry_config \<Rightarrow> duration" where
  "effective_renewal_rate cfg = max (renewal_rate cfg) (from_secs 1)"

record 'v renewal_env =
  cancelled_before :: bool
  cancelled_after :: bool
  commands :: "nat \<Rightarrow> 'v"

fun run_renewal ::
  "('v, 'q) redis_client \<Rightarrow> 'k renewal \<Rightarrow> 'v renewal_env list \<Rightarrow> 'q \<Rightarrow> bool \<times> 'q" where
  "run_renewal C task [] q = (False, q)"
| "run_renewal C task (e # es) q =
    (if cancelled_before e then (True, q)
     else if cancelled_after e then (True, q)
     else run_renewal C task es (renewal_round C task (commands e) q))"

section \<open>Entries under the commands\<close>

lemma live_upd [simp]: "live (es(k \<mapsto> (b, d))) now j = (if j = k then if now < d then Some b else None else live es now j)"
  by (simp add: live_def)

lemma live_del [simp]: "live (es(k := None)) now j = (if j = k then None else live es now j)"
  by (simp add: live_def)

definition answered :: "('v, 'q) redis_client \<Rightarrow> (nat \<Rightarrow> 'v) \<Rightarrow> bool" where
  "answered C v \<longleftrightarrow> (\<forall>i k s b nx q. is_ok (fst (rd_expire C k s (v i) q)) \<and>
     is_ok (fst (rd_exists C k (v i) q)) \<and> is_ok (fst (rd_set C k b s nx (v i) q)))"

context redis_laws
begin

lemma getdel_frame:
  assumes "getdel_or_get_del C conv v k q = (r, q')"
  shows "entry q' = entry q \<or> entry q' = (entry q)(k := None)"
proof -
  obtain r1 q1 where 1: "rd_getdel C k (v 0) q = (r1, q1)" by fastforce
  obtain r2 q2 where 2: "rd_get C k (v 1) q1 = (r2, q2)" by fastforce
  obtain r3 q3 where 3: "rd_del C k (v 2) q2 = (r3, q3)" by fastforce
  have "q' \<in> {q1, q2, q3}"
    using assms 1 2 3 by (auto simp: getdel_or_get_del_def split: sum.splits if_splits)
  then show ?thesis
    using getdel_entry [OF 1] get_entry [OF 2] del_entry [OF 3] by auto
qed

lemma getdel_removes:
  assumes "getdel_or_get_del C conv v k q = (Inr x, q')"
  shows "entry q' = (entry q)(k := None)"
proof -
  obtain r1 q1 where 1: "rd_getdel C k (v 0) q = (r1, q1)" by fastforce
  obtain r2 q2 where 2: "rd_get C k (v 1) q1 = (r2, q2)" by fastforce
  obtain r3 q3 where 3: "rd_del C k (v 2) q2 = (r3, q3)" by fastforce
  consider y where "r1 = Inr y" "q' = q1" | y where "r3 = Inr y" "q' = q3"
    using assms 1 2 3
    by (auto simp: getdel_or_get_del_def and_then_Inr_iff split: sum.splits if_splits)
  then show ?thesis
  proof cases
    case direct: (1 y)
    then show ?thesis using getdel_answer [of k "v 0" q y q1] 1 by simp
  next
    case fallback: (2 y)
    then show ?thesis
      using getdel_entry [OF 1] get_entry [OF 2] del_answer [of k "v 2" q2 y q3] 3 by auto
  qed
qed

text \<open>The allocated id is fresh, and only keys of generated ids are touched.\<close>

lemma allocated:
  assumes "allocate_rid C b s uuid v i q = ((Inr rid, q') :: ('j redis_registry_error, rstr) result \<times> 'q)"
    "0 < s" "inj_on uuid {i..<10}"
    and "\<forall>j \<in> {i..<10}. live (entry q) (time (v j)) (tunnel_rid_key (uuid j)) = None"
  shows "\<exists>j \<in> {i..<10}. rid = uuid j \<and> entry q' (tunnel_rid_key rid) = Some (b, until (time (v j)) s)"
  using assms(1,3,4)
proof (induction "10 - i" arbitrary: i q)
  case 0
  then show ?case by (simp add: allocate_rid.simps MAX_ITERATIONS_def)
next
  case (Suc n)
  then have i: "i < 10" by simp
  obtain r q1 where set: "rd_set C (tunnel_rid_key (uuid i)) b s True (v i) q = (r, q1)" by fastforce
  show ?case
  proof (cases r)
    case (Inr u)
    then show ?thesis
      using Suc.prems set i set_nx [OF set [unfolded Inr] assms(2)]
      by (auto simp: allocate_rid.simps [of C b s uuid v i q] MAX_ITERATIONS_def)
  next
    case (Inl e)
    have fresh: "\<forall>j \<in> {Suc i..<10}. live (entry q1) (time (v j)) (tunnel_rid_key (uuid j)) = None"
    proof
      fix j assume j: "j \<in> {Suc i..<10}"
      then have "uuid j \<noteq> uuid i" using Suc.prems(2) i by (auto dest: inj_onD)
      then show "live (entry q1) (time (v j)) (tunnel_rid_key (uuid j)) = None"
        using set_entry [OF set assms(2)] Suc.prems(3) j by auto
    qed
    have "inj_on uuid {Suc i..<10}" using Suc.prems(2) by (rule inj_on_subset) auto
    moreover have "allocate_rid C b s uuid v (Suc i) q1 =
        ((Inr rid, q') :: ('j redis_registry_error, rstr) result \<times> 'q)"
      using Suc.prems(1) set Inl i by (simp add: allocate_rid.simps [of C b s uuid v i q] MAX_ITERATIONS_def)
    ultimately show ?thesis
      using Suc.hyps(1) [of "Suc i" q1] Suc.hyps(2) fresh by fastforce
  qed
qed

lemma renewal_round_entry:
  assumes "0 < secs_i64 (tunnel_id_ref_lifetime (renewal_config task))"
    "0 < secs_i64 (tunnel_entry_lifetime (renewal_config task))"
    and "answered C v" "time (v 1) \<le> time (v 2)" "time (v 2) \<le> time (v 3)"
    and ref: "ref = tunnel_key_for (renewal_name task)" and key: "key = tunnel_rid_key (renewal_rid task)"
  shows "entry (renewal_round C task v q) =
    (case live (entry q) (time (v 0)) ref of
       None \<Rightarrow> entry q
     | Some b \<Rightarrow> (entry q)(ref \<mapsto> (b, until (time (v 0)) (secs_i64 (tunnel_id_ref_lifetime (renewal_config task))))))
    (key \<mapsto> (case live (entry q) (time (v 1)) key of
       Some b \<Rightarrow> (b, until (time (v 1)) (secs_i64 (tunnel_entry_lifetime (renewal_config task))))
     | None \<Rightarrow> (renewal_entry task, until (time (v 3)) (secs_i64 (tunnel_entry_lifetime (renewal_config task))))))"
proof -
  let ?s = "secs_i64 (tunnel_entry_lifetime (renewal_config task))"
  let ?sr = "secs_i64 (tunnel_id_ref_lifetime (renewal_config task))"
  obtain x0 q0 where 0: "rd_expire C ref ?sr (v 0) q = (Inr x0, q0)"
    using assms(3) by (metis answered_def is_ok.elims(2) prod.collapse)
  obtain x1 q1 where 1: "rd_expire C key ?s (v 1) q0 = (Inr x1, q1)"
    using assms(3) by (metis answered_def is_ok.elims(2) prod.collapse)
  obtain x2 q2 where 2: "rd_exists C key (v 2) q1 = (Inr x2, q2)"
    using assms(3) by (metis answered_def is_ok.elims(2) prod.collapse)
  obtain u q3 where 3: "rd_set C key (renewal_entry task) ?s True (v 3) q2 = (Inr u, q3)"
    using assms(3) by (metis answered_def is_ok.elims(2) prod.collapse)
  have later: "live es now k = None" if "live es now' k = None" "now' \<le> now" for es now now' k
    using that by (auto simp: live_def split: option.splits if_splits)
  have e0: "entry q0 = (case live (entry q) (time (v 0)) ref of
       None \<Rightarrow> entry q | Some b \<Rightarrow> (entry q)(ref \<mapsto> (b, until (time (v 0)) ?sr)))"
    using expire_answer [OF 0 assms(1)] by simp
  have l: "live (entry q0) (time (v 1)) key = live (entry q) (time (v 1)) key"
    using ref key by (simp add: e0 split: option.splits)
  have r: "renewal_round C task v q = (if x1 then q1 else if x2 then q2 else q3)"
    using 0 1 2 3 by (simp add: renewal_round_def ref [symmetric] key [symmetric])
  show ?thesis
  proof (cases "live (entry q) (time (v 1)) key")
    case (Some b)
    then show ?thesis
      using expire_answer [OF 1 assms(2)] l r e0 by simp
  next
    case None
    then have n: "live (entry q0) (time (v 1)) key = None" using l by simp
    then have "\<not> x1" "entry q1 = entry q0" using expire_answer [OF 1 assms(2)] by simp_all
    moreover have "\<not> x2" "entry q2 = entry q0"
      using exists_answer [OF 2] exists_entry [OF 2] later [OF n] assms(4) calculation(2) by simp_all
    moreover have "entry q3 = (entry q2)(key \<mapsto> (renewal_entry task, until (time (v 3)) ?s))"
      by (rule set_nx [OF 3 assms(2)]) (use later [OF n] assms(4,5) calculation in simp)
    ultimately show ?thesis using None r e0 by simp
  qed
qed

text \<open>Where a lookup and a registration leave the two entries of a name.\<close>

lemma lookup_found:
  assumes "redis_lookup C from_slice u n q = (Inr y, q')"
    and "live (entry q) (time (u 0)) (tunnel_key_for n) = Some (into_bytes rid)" "valid_str rid"
  shows "decode_entry from_slice (live (entry q) (time (u 1)) (tunnel_rid_key rid)) =
    (Inr y :: ('j redis_registry_error, 'r option) result)"
proof -
  obtain r1 q1 where 1: "rd_get C (tunnel_key_for n) (u 0) q = (r1, q1)" by fastforce
  obtain x where x: "r1 = Inr x" using assms(1) 1 by (cases r1) (auto simp: redis_lookup_def)
  then have "x = Some (into_bytes rid)" using get_answer [OF 1 [unfolded x]] assms(2) by simp
  moreover obtain r2 q2 where 2: "rd_get C (tunnel_rid_key rid) (u 1) q1 = (r2, q2)" by fastforce
  ultimately obtain z where "r2 = Inr z" "decode_entry from_slice z = (Inr y :: ('j redis_registry_error, 'r option) result)"
    using assms(1,3) 1 x by (cases r2) (auto simp: redis_lookup_def string_value)
  then show ?thesis using get_answer [of _ _ q1 z q2] get_entry [OF 1] 2 by simp
qed

lemma registered:
  assumes "redis_register T C to_vec uuid v n r (reg, t, q) =
      ((Inr i, reg', t', q') :: ('j redis_registry_error, 'k redis_identifier) result \<times> 'k redis_registry \<times> 't \<times> 'q)"
    and pos: "0 < secs_i64 (tunnel_id_ref_lifetime (config reg))" "0 < secs_i64 (tunnel_entry_lifetime (config reg))"
    and new: "inj_on uuid {0..<10}"
      "\<forall>j \<in> {0..<10}. live (entry q) (time (v j)) (tunnel_rid_key (uuid j)) = None"
  shows "\<exists>b. \<exists>j \<in> {0..<10}. to_vec r = Inr b \<and> ident_rid i = uuid j \<and>
    entry q' (tunnel_key_for n) =
      Some (into_bytes (ident_rid i), until (time (v 10)) (secs_i64 (tunnel_id_ref_lifetime (config reg)))) \<and>
    entry q' (tunnel_rid_key (ident_rid i)) =
      Some (b, until (time (v j)) (secs_i64 (tunnel_entry_lifetime (config reg)))) \<and>
    active_registration_map reg' (ident_rid i) = ident_registration i"
proof -
  let ?s = "secs_i64 (tunnel_entry_lifetime (config reg))"
  obtain b where b: "to_vec r = Inr b" using assms(1) by (cases "to_vec r") (auto simp: redis_register_def)
  obtain rr q1 where 1: "allocate_rid C b ?s uuid v 0 q =
      ((rr, q1) :: ('j redis_registry_error, rstr) result \<times> 'q)" by fastforce
  obtain rid where rid: "rr = Inr rid" using assms(1) b 1 by (cases rr) (auto simp: redis_register_def)
  obtain r2 q2 where 2: "rd_set C (tunnel_key_for n) (into_bytes rid)
      (secs_i64 (tunnel_id_ref_lifetime (config reg))) False (v 10) q1 = (r2, q2)" by fastforce
  obtain z where z: "r2 = Inr z"
    using assms(1) b 1 rid 2 by (cases r2) (auto simp: redis_register_def MAX_ITERATIONS_def)
  have i: "ident_rid i = rid" "q' = q2" "active_registration_map reg' rid = ident_registration i"
    using assms(1) b 1 rid 2 z
    by (auto simp: redis_register_def MAX_ITERATIONS_def register_for_renewals_def Let_def split: prod.splits)
  obtain j where "j \<in> {0..<10}" "rid = uuid j" "entry q1 (tunnel_rid_key rid) = Some (b, until (time (v j)) ?s)"
    using allocated [OF 1 [unfolded rid] pos(2) new] by blast
  then show ?thesis
    using set_answer [OF 2 [unfolded z] pos(1)] b i by auto
qed

lemma deregistered:
  assumes "redis_deregister_identifier T C from_slice held w i (reg, t, q) =
      ((x, reg', t', q') :: ('j redis_registry_error, 'r option) result \<times> 'k redis_registry \<times> 't \<times> 'q)"
  shows "entry q' = entry q \<or> entry q' = (entry q)(tunnel_rid_key (ident_rid i) := None)"
    and "is_ok x \<Longrightarrow> active_registration_map reg (ident_rid i) \<noteq> None \<Longrightarrow>
      entry q' = (entry q)(tunnel_rid_key (ident_rid i) := None)"
proof -
  obtain r1 q1 where 1: "getdel_or_get_del C Ok w (tunnel_rid_key (ident_rid i)) q = (r1, q1)" by fastforce
  obtain r2 q2 where 2: "rd_get C (tunnel_rid_key (ident_rid i)) (w 0) q = (r2, q2)" by fastforce
  have "q' = q1 \<and> (is_ok x \<longrightarrow> is_ok r1) \<or> active_registration_map reg (ident_rid i) = None \<and> q' = q2"
    using assms 1 2 by (auto simp: redis_deregister_identifier_def deregister_by_rid_def Let_def
        split: option.splits sum.splits)
  then show "entry q' = entry q \<or> entry q' = (entry q)(tunnel_rid_key (ident_rid i) := None)"
    and "is_ok x \<Longrightarrow> active_registration_map reg (ident_rid i) \<noteq> None \<Longrightarrow>
      entry q' = (entry q)(tunnel_rid_key (ident_rid i) := None)"
    using getdel_frame [OF 1] get_entry [OF 2] getdel_removes [of Ok w _ q _ q1] 1
    by (auto elim: is_ok.elims)
qed

end

section \<open>Properties\<close>

text \<open>
  C29: when the record ids are fresh, a registration answers the lookups of its name until its
  entries expire, also when any other registration, of the same name too, is deregistered
  meanwhile, by this registry or another; and after its own deregistration by identifier the
  name is no longer found.
\<close>

theorem redis_last_registration_wins:
  fixes T :: "('k, 't) token_ops" and C :: "('v, 'q) redis_client"
    and from_slice :: "byte list \<Rightarrow> ('j, 'r option) result"
  assumes laws: "redis_laws C time entry"
    and codec: "\<And>b. to_vec r = Ok b \<Longrightarrow> from_slice b = Ok (Some r)"
    and lifetimes: "0 < secs_i64 (tunnel_id_ref_lifetime (config reg))" "0 < secs_i64 (tunnel_entry_lifetime (config reg))"
    and fresh: "inj_on uuid {0..<10}" "\<forall>j \<in> {0..<10}. valid_str (uuid j)"
      "\<forall>j \<in> {0..<10}. live (entry q) (time (v j)) (tunnel_rid_key (uuid j)) = None"
    and register: "redis_register T C to_vec uuid v n r (reg, t, q) = (Ok i, reg1, t1, q1)"
    and deregister: "redis_deregister_identifier T C from_slice held w i' (reg2, t2, q1) = (x, reg3, t3, q2)"
    and lookup: "redis_lookup C from_slice u n q2 = (Ok y, q3)"
    and in_time: "time (u 0) < until (time (v 10)) (secs_i64 (tunnel_id_ref_lifetime (config reg)))"
      "\<forall>j \<in> {0..<10}. time (u 1) < until (time (v j)) (secs_i64 (tunnel_entry_lifetime (config reg)))"
  shows "(ident_rid i' \<noteq> ident_rid i \<longrightarrow> y = Some r) \<and> (i' = i \<and> reg2 = reg1 \<and> is_ok x \<longrightarrow> y = None)"
proof -
  obtain b j where b: "j \<in> {0..<10}" "to_vec r = Ok b" "ident_rid i = uuid j"
    and e: "entry q1 (tunnel_key_for n) =
        Some (into_bytes (ident_rid i), until (time (v 10)) (secs_i64 (tunnel_id_ref_lifetime (config reg))))"
      "entry q1 (tunnel_rid_key (ident_rid i)) =
        Some (b, until (time (v j)) (secs_i64 (tunnel_entry_lifetime (config reg))))"
    and m: "active_registration_map reg1 (ident_rid i) = ident_registration i"
    using redis_laws.registered [OF laws register lifetimes fresh(1,3)] by blast
  note gone = redis_laws.deregistered [OF laws deregister]
  have ref: "live (entry q2) (time (u 0)) (tunnel_key_for n) = Some (into_bytes (ident_rid i))"
    using gone(1) e(1) in_time(1) by (auto simp: live_def)
  have found: "decode_entry from_slice (live (entry q2) (time (u 1)) (tunnel_rid_key (ident_rid i))) =
      (Inr y :: ('j redis_registry_error, 'r option) result)"
    by (rule redis_laws.lookup_found [OF laws lookup ref]) (use b fresh(2) in simp)
  have "y = Some r" if "ident_rid i' \<noteq> ident_rid i"
  proof -
    have "live (entry q2) (time (u 1)) (tunnel_rid_key (ident_rid i)) = Some b"
      using gone(1) e(2) that in_time(2) b(1) by (auto simp: live_def)
    then show ?thesis using found codec [OF b(2)] by simp
  qed
  moreover have "y = None" if "i' = i" "reg2 = reg1" "is_ok x"
  proof -
    have "ident_registration i \<noteq> None"
      using register by (auto simp: redis_register_def split: sum.splits prod.splits)
    then have "live (entry q2) (time (u 1)) (tunnel_rid_key (ident_rid i)) = None"
      using gone(2) m that by (simp add: live_def)
    then show ?thesis using found by simp
  qed
  ultimately show ?thesis by blast
qed

text \<open>A run on the answering server: a registration, another identifier deregistered, a lookup.\<close>

definition sample_registry :: "token_path redis_registry" where
  "sample_registry = \<lparr>config = config_default, active_registration_map = Map.empty, core_canceller = [0], renewals = []\<rparr>"

definition sample_uuid :: "nat \<Rightarrow> rstr" where
  "sample_uuid j = [97 + j]"

lemmas server_simps = answering_server_def live_def until_def config_default_def from_secs_def
  secs_i64_def as_secs_def

lemma sample_register:
  "redis_register forest_ops answering_server Ok sample_uuid (\<lambda>_. 0) (lit ''n'') [1] (sample_registry, (1, []), Map.empty) =
    ((Ok \<lparr>ident_name = lit ''n'', ident_rid = [97], ident_registration = Some [0, 1]\<rparr>,
      \<lparr>config = config_default, active_registration_map = [[97] \<mapsto> [0, 1]], core_canceller = [0],
       renewals = [\<lparr>renewal_canceller = listener_of [0, 1], renewal_name = lit ''n'', renewal_rid = [97],
         renewal_entry = [1], renewal_config = config_default\<rparr>]\<rparr>,
      (2, []), [tunnel_rid_key [97] \<mapsto> ([1], 60000), tunnel_key_for (lit ''n'') \<mapsto> (into_bytes [97], 600000)])
      :: (unit redis_registry_error, token_path redis_identifier) result \<times> _)"
  by (simp add: redis_register_def allocate_rid.simps MAX_ITERATIONS_def server_simps sample_registry_def
      sample_uuid_def register_for_renewals_def)

lemma sample_deregister:
  "redis_deregister_identifier forest_ops answering_server (\<lambda>b. Ok (Some b)) (\<lambda>_. False) (\<lambda>_. 1000)
      \<lparr>ident_name = lit ''n'', ident_rid = [98], ident_registration = None\<rparr>
      (sample_registry, (2, []), q) =
    ((Ok (live q 1000 (tunnel_rid_key [98])), sample_registry, (2, []), q)
      :: (unit redis_registry_error, byte list option) result \<times> _)"
  by (cases "live q 1000 (tunnel_rid_key [98])")
    (simp_all add: redis_deregister_identifier_def deregister_by_rid_def drop_identifier_def sample_registry_def
      answering_server_def)

lemma sample_lookup:
  "is_ok (fst (redis_lookup answering_server (\<lambda>b. Ok (Some b)) (\<lambda>_. 59999) (lit ''n'')
     [tunnel_rid_key [97] \<mapsto> ([1], 60000), tunnel_key_for (lit ''n'') \<mapsto> (into_bytes [97], 600000)]
     :: (unit redis_registry_error, byte list option) result \<times> _))"
  by (simp add: redis_lookup_def answering_server_def live_def scalar_def)

theorem redis_last_registration_wins_witness:
  "let (_, _, _, q1) = (redis_register forest_ops answering_server Ok sample_uuid (\<lambda>_. 0) (lit ''n'') [1]
        (sample_registry, (1, []), Map.empty)
        :: (unit redis_registry_error, token_path redis_identifier) result \<times> _);
       (_, _, _, q2) = (redis_deregister_identifier forest_ops answering_server (\<lambda>b. Ok (Some b)) (\<lambda>_. False) (\<lambda>_. 1000)
        \<lparr>ident_name = lit ''n'', ident_rid = [98], ident_registration = None\<rparr> (sample_registry, (2, []), q1)
        :: (unit redis_registry_error, byte list option) result \<times> _)
   in fst (redis_lookup answering_server (\<lambda>b. Ok (Some b)) (\<lambda>_. 59999) (lit ''n'') q2) =
     (Ok (Some [1]) :: (unit redis_registry_error, byte list option) result)"
proof -
  let ?q = "[tunnel_rid_key [97] \<mapsto> ([1], 60000), tunnel_key_for (lit ''n'') \<mapsto> (into_bytes [97], 600000)]"
  have inj: "inj_on sample_uuid {0..<10}" by (simp add: inj_on_def sample_uuid_def)
  obtain y q' where l: "redis_lookup answering_server (\<lambda>b. Ok (Some b)) (\<lambda>_. 59999) (lit ''n'') ?q =
      ((Ok y, q') :: (unit redis_registry_error, byte list option) result \<times> _)"
    using sample_lookup by (metis is_ok.elims(2) prod.collapse)
  have "y = Some [1]"
    using redis_last_registration_wins
      [OF answering.redis_laws_axioms _ _ _ inj _ _ sample_register sample_deregister l]
    by (simp add: server_simps sample_registry_def sample_uuid_def scalar_def)
  then show ?thesis
    unfolding Let_def sample_register sample_deregister prod.case l by simp
qed

text \<open>The state of the server after \<open>n\<close> attempts at an unused record id.\<close>

primrec attempted ::
  "('v, 'q) redis_client \<Rightarrow> byte list \<Rightarrow> int \<Rightarrow> (nat \<Rightarrow> rstr) \<Rightarrow> (nat \<Rightarrow> 'v) \<Rightarrow> nat \<Rightarrow> 'q \<Rightarrow> 'q" where
  "attempted C b s uuid v 0 q = q"
| "attempted C b s uuid v (Suc n) q = snd (rd_set C (tunnel_rid_key (uuid n)) b s True (v n) (attempted C b s uuid v n q))"

definition attempt_answer ::
  "('v, 'q) redis_client \<Rightarrow> byte list \<Rightarrow> int \<Rightarrow> (nat \<Rightarrow> rstr) \<Rightarrow> (nat \<Rightarrow> 'v) \<Rightarrow> 'q \<Rightarrow> nat \<Rightarrow> (redis_error, unit) result" where
  "attempt_answer C b s uuid v q n =
    fst (rd_set C (tunnel_rid_key (uuid n)) b s True (v n) (attempted C b s uuid v n q))"

lemma allocate_from:
  "n + m = 10 \<Longrightarrow> allocate_rid C b s uuid v n (attempted C b s uuid v n q) =
    (case find (\<lambda>i. is_ok (attempt_answer C b s uuid v q i)) [n..<10] of
       Some i \<Rightarrow> (Ok (uuid i), attempted C b s uuid v (Suc i) q)
     | None \<Rightarrow> (Err (RepeatKeyConflicts 10), attempted C b s uuid v 10 q))"
proof (induction m arbitrary: n)
  case 0
  then show ?case by (simp add: allocate_rid.simps MAX_ITERATIONS_def)
next
  case (Suc m)
  then have "n < 10" by simp
  moreover from this have "[n..<10] = n # [Suc n..<10]" by (rule upt_conv_Cons)
  ultimately show ?case
    using Suc.IH [of "Suc n"] Suc.prems
    by (cases "rd_set C (tunnel_rid_key (uuid n)) b s True (v n) (attempted C b s uuid v n q)";
        cases "attempt_answer C b s uuid v q n")
      (auto simp: allocate_rid.simps [of C b s uuid v n] MAX_ITERATIONS_def attempt_answer_def)
qed

text \<open>
  C30: the search for an unused record id ends after at most ten commands: with the id of the
  first command that is answered without an error, and with \<open>RepeatKeyConflicts\<close> exactly when
  all ten fail.
\<close>

theorem allocate_rid_ends:
  "allocate_rid C b s uuid v 0 q =
    (case find (\<lambda>i. is_ok (attempt_answer C b s uuid v q i)) [0..<10] of
       Some i \<Rightarrow> (Ok (uuid i), attempted C b s uuid v (Suc i) q)
     | None \<Rightarrow> (Err (RepeatKeyConflicts 10), attempted C b s uuid v 10 q))"
  using allocate_from [of 0 10 C b s uuid v q] by simp

text \<open>A run of renewal rounds that nothing cancels and the server answers, in time for each other.\<close>

definition undisturbed :: "('v, 'q) redis_client \<Rightarrow> ('v \<Rightarrow> nat) \<Rightarrow> 'v renewal_env \<Rightarrow> bool" where
  "undisturbed C time e \<longleftrightarrow> \<not> cancelled_before e \<and> \<not> cancelled_after e \<and> answered C (commands e) \<and>
     time (commands e 1) \<le> time (commands e 2) \<and> time (commands e 2) \<le> time (commands e 3)"

lemma renewals_keep_entries:
  assumes laws: "redis_laws C time entry"
    and "0 < secs_i64 (tunnel_id_ref_lifetime (renewal_config task))"
      "0 < secs_i64 (tunnel_entry_lifetime (renewal_config task))"
    and "\<forall>e \<in> set es. undisturbed C time e"
      "successively (\<lambda>e e'. time (commands e' 0) <
         until (time (commands e 0)) (secs_i64 (tunnel_id_ref_lifetime (renewal_config task)))) es" "es \<noteq> []"
    and "live (entry q) (time (commands (hd es) 0)) (tunnel_key_for (renewal_name task)) = Some raw"
      "entry q (tunnel_rid_key (renewal_rid task)) \<in> {None} \<union> {Some (renewal_entry task, d) |d. True}"
  shows "\<exists>q' d. run_renewal C task es q = (False, q') \<and>
    entry q' (tunnel_key_for (renewal_name task)) = Some (raw,
      until (time (commands (last es) 0)) (secs_i64 (tunnel_id_ref_lifetime (renewal_config task)))) \<and>
    entry q' (tunnel_rid_key (renewal_rid task)) = Some (renewal_entry task, d) \<and>
    until (time (commands (last es) 1)) (secs_i64 (tunnel_entry_lifetime (renewal_config task))) \<le> d"
  using assms(4-8)
proof (induction es arbitrary: q)
  case (Cons e es)
  let ?q = "renewal_round C task (commands e) q"
  let ?s = "secs_i64 (tunnel_entry_lifetime (renewal_config task))"
  let ?sr = "secs_i64 (tunnel_id_ref_lifetime (renewal_config task))"
  have und: "undisturbed C time e" using Cons.prems(1) by simp
  note round = redis_laws.renewal_round_entry [OF laws assms(2,3) _ _ _ refl refl, of "commands e" q]
  have ref: "entry ?q (tunnel_key_for (renewal_name task)) = Some (raw, until (time (commands e 0)) ?sr)"
    using round und Cons.prems(4) by (simp add: undisturbed_def)
  have key: "\<exists>d. entry ?q (tunnel_rid_key (renewal_rid task)) = Some (renewal_entry task, d) \<and>
      until (time (commands e 1)) ?s \<le> d"
    using round und Cons.prems(5)
    by (auto simp: undisturbed_def until_def live_def split: option.splits if_splits)
  show ?case
  proof (cases es)
    case Nil
    then show ?thesis using ref key und by (simp add: undisturbed_def)
  next
    case (Cons e' es')
    then have "live (entry ?q) (time (commands (hd es) 0)) (tunnel_key_for (renewal_name task)) = Some raw"
      using Cons.prems(2) ref by (simp add: live_def)
    then show ?thesis
      using Cons.IH [of ?q] Cons.prems(1,2) Cons key und by (auto simp: undisturbed_def successively_Cons)
  qed
qed simp

text \<open>
  C31: while its renewal task is not cancelled and its commands are answered, each round before
  the reference to the record has expired since the round before, a registered name is found:
  lookups give the record until the lifetimes counted from the last round are over, even when
  the record itself was lost before the first round.
\<close>

theorem renewals_keep_record:
  fixes from_slice :: "byte list \<Rightarrow> ('j, 'r option) result"
  assumes "redis_laws C time entry"
    and "0 < secs_i64 (tunnel_id_ref_lifetime (renewal_config task))"
      "0 < secs_i64 (tunnel_entry_lifetime (renewal_config task))"
    and "\<forall>e \<in> set es. undisturbed C time e"
      "successively (\<lambda>e e'. time (commands e' 0) <
         until (time (commands e 0)) (secs_i64 (tunnel_id_ref_lifetime (renewal_config task)))) es" "es \<noteq> []"
    and "live (entry q) (time (commands (hd es) 0)) (tunnel_key_for (renewal_name task)) =
        Some (into_bytes (renewal_rid task))"
      "entry q (tunnel_rid_key (renewal_rid task)) \<in> {None} \<union> {Some (renewal_entry task, d) |d. True}"
    and "valid_str (renewal_rid task)" "from_slice (renewal_entry task) = Ok (Some r)"
    and "run_renewal C task es q = (ended, q1)"
      "redis_lookup C from_slice u (renewal_name task) q1 = (Ok y, q2)"
    and "time (u 0) < until (time (commands (last es) 0)) (secs_i64 (tunnel_id_ref_lifetime (renewal_config task)))"
      "time (u 1) < until (time (commands (last es) 1)) (secs_i64 (tunnel_entry_lifetime (renewal_config task)))"
  shows "\<not> ended \<and> y = Some r"
proof -
  obtain d where e: "\<not> ended"
      "entry q1 (tunnel_key_for (renewal_name task)) = Some (into_bytes (renewal_rid task),
        until (time (commands (last es) 0)) (secs_i64 (tunnel_id_ref_lifetime (renewal_config task))))"
      "entry q1 (tunnel_rid_key (renewal_rid task)) = Some (renewal_entry task, d)" "time (u 1) < d"
    using renewals_keep_entries [OF assms(1-8)] assms(11,14) by auto
  have "live (entry q1) (time (u 0)) (tunnel_key_for (renewal_name task)) = Some (into_bytes (renewal_rid task))"
    using e(2) assms(13) by (simp add: live_def)
  from redis_laws.lookup_found [OF assms(1,12) this assms(9)] show ?thesis
    using e assms(10) by (simp add: live_def)
qed

definition sample_task :: "token_path renewal" where
  "sample_task = \<lparr>renewal_canceller = listener_of [0, 1], renewal_name = lit ''n'', renewal_rid = [97],
     renewal_entry = [1], renewal_config = config_default\<rparr>"

definition sample_round :: "nat renewal_env" where
  "sample_round = \<lparr>cancelled_before = False, cancelled_after = False, commands = (\<lambda>_. 20000)\<rparr>"

lemma sample_round_undisturbed: "undisturbed answering_server (\<lambda>now. now) sample_round"
  by (auto simp: undisturbed_def sample_round_def answered_def answering_server_def split: option.splits)

lemma sample_renewed:
  "is_ok (fst (redis_lookup answering_server (\<lambda>b. Ok (Some b)) (\<lambda>_. 79999) (lit ''n'')
     (snd (run_renewal answering_server sample_task [sample_round]
       [tunnel_key_for (lit ''n'') \<mapsto> (into_bytes [97], 600000)]))
     :: (unit redis_registry_error, byte list option) result \<times> _))"
  by (simp add: redis_lookup_def answering_server_def live_def scalar_def sample_task_def sample_round_def
      renewal_round_def config_default_def secs_i64_def as_secs_def from_secs_def until_def)

theorem renewals_keep_record_witness:
  "fst (redis_lookup answering_server (\<lambda>b. Ok (Some b)) (\<lambda>_. 79999) (lit ''n'')
     (snd (run_renewal answering_server sample_task [sample_round]
       [tunnel_key_for (lit ''n'') \<mapsto> (into_bytes [97], 600000)]))) =
     (Ok (Some [1]) :: (unit redis_registry_error, byte list option) result)"
proof -
  let ?q = "[tunnel_key_for (lit ''n'') \<mapsto> (into_bytes [97], 600000)]"
  obtain ended q1 where r: "run_renewal answering_server sample_task [sample_round] ?q = (ended, q1)" by fastforce
  obtain y q2 where l: "redis_lookup answering_server (\<lambda>b. Ok (Some b)) (\<lambda>_. 79999) (lit ''n'') q1 =
      ((Ok y, q2) :: (unit redis_registry_error, byte list option) result \<times> _)"
    using sample_renewed unfolding r by (metis is_ok.elims(2) prod.collapse snd_conv)
  have l': "redis_lookup answering_server (\<lambda>b. Ok (Some b)) (\<lambda>_. 79999) (renewal_name sample_task) q1 =
      ((Ok y, q2) :: (unit redis_registry_error, byte list option) result \<times> _)"
    using l by (simp add: sample_task_def)
  have lost: "?q (tunnel_rid_key (renewal_rid sample_task)) = None" by simp
  have "live ?q (commands sample_round 0) (tunnel_key_for (renewal_name sample_task)) =
      Some (into_bytes (renewal_rid sample_task))"
    by (simp add: live_def sample_task_def sample_round_def)
  then have "y = Some [1]"
    using renewals_keep_record [OF answering.redis_laws_axioms _ _ _ _ _ _ _ _ _ r l', where r = "[1]"]
      sample_round_undisturbed lost
    by (simp add: sample_task_def sample_round_def config_default_def secs_i64_def as_secs_def from_secs_def
        until_def scalar_def)
  then show ?thesis by (simp only: r snd_conv l fst_conv)
qed

end
