(* ===== verification/Routing.thy ===== *)
theory Routing
  imports Daemon
begin

text \<open>
  What the command-line program adds around the daemon to carry requests: the preset service
  registry (\<open>snocat-cli/src/services/mod.rs\<close>) and the two routers, of the client
  (\<open>snocat-cli/src/client.rs\<close>) and of the server (\<open>snocat-cli/src/server.rs\<close>). A routed
  request opens a link of the chosen peer, negotiates the address there and then runs the
  protocol client on the link; opening a link is a parameter, as the outcome for each tunnel.
\<close>

section \<open>The preset service registry\<close>

record ('t, 'e) preset_service_registry =
  services :: "('t, 'e) service list"

definition preset_registry_new :: "('t, 'e) preset_service_registry" where
  "preset_registry_new = \<lparr>services = []\<rparr>"

definition add_service_blocking ::
  "('f \<Rightarrow> 'e) \<Rightarrow> ('t, 'f) service \<Rightarrow> ('t, 'e) preset_service_registry \<Rightarrow> ('t, 'e) preset_service_registry" where
  "add_service_blocking from s reg = reg\<lparr>services := services reg @ [mapped_service from s]\<rparr>"

definition find_service ::
  "('t, 'e) preset_service_registry \<Rightarrow> route_address \<Rightarrow> 't \<Rightarrow> ('t, 'e) service option" where
  "find_service reg addr tunnel = find (\<lambda>s. accepts s addr tunnel) (services reg)"

section \<open>Routers\<close>

text \<open>The failure of a routed request: before the client ran, or of the client itself.\<close>

datatype ('t, 'e, 'c) route_failure = NotRouted "('t, 'e) routing_error" | ClientFailed "'c client_error"

definition negotiate_and_handle ::
  "('t, 'e) routing_error \<Rightarrow> (tunnel_id \<Rightarrow> ('t, unit) result) \<Rightarrow> peer_record option \<Rightarrow> ('r, 'c) request \<Rightarrow>
   (('t, 'e, 'c) route_failure, 'r) result io" where
  "negotiate_and_handle err_not_found open_link chosen request =
    (case chosen of
       None \<Rightarrow> Done (Err (NotRouted err_not_found))
     | Some record \<Rightarrow>
         (case open_link (peer_id record) of
            Inl e \<Rightarrow> Done (Err (NotRouted (LinkOpenFailure e)))
          | Inr _ \<Rightarrow>
              io_bind (client_negotiate (address request)) (\<lambda>negotiated.
                case negotiated of
                  Inl e \<Rightarrow> Done (Err (NotRouted (routing_error_of_negotiation (\<lambda>e. e) e)))
                | Inr _ \<Rightarrow>
                    io_map_err ClientFailed (client_handle (protocol_client request) (address request)))))"

text \<open>The client's router takes the peer with the highest id, the server's the last registered of a name.\<close>

definition client_route ::
  "(by_id_table \<Rightarrow> peer_record list) \<Rightarrow> (peer_record \<Rightarrow> bool) \<Rightarrow> peer_tracker \<Rightarrow>
   (tunnel_id \<Rightarrow> ('t, unit) result) \<Rightarrow> ('r, 'c) request \<Rightarrow> (('t, 'e, 'c) route_failure, 'r) result io" where
  "client_route iter alive p open_link request =
    negotiate_and_handle (RouteNotFound (address request)) open_link
      (find_by_comparator iter alive p peer_id) request"

definition server_route ::
  "(by_id_table \<Rightarrow> peer_record list) \<Rightarrow> (peer_record \<Rightarrow> bool) \<Rightarrow> (peer_record \<Rightarrow> 'o :: linorder) \<Rightarrow>
   peer_tracker \<Rightarrow> (tunnel_id \<Rightarrow> ('t, unit) result) \<Rightarrow> ('r, 'c) request \<Rightarrow> tunnel_name \<Rightarrow>
   (('t, 'e, 'c) route_failure, 'r) result io" where
  "server_route iter alive registered_at p open_link request dest_name =
    negotiate_and_handle (RouteNotFound (address request)) open_link
      (find_by_name_and_comparator iter alive p dest_name registered_at) request"

section \<open>The chosen peer\<close>

lemma max_by_key_None [simp]: "max_by_key key xs = None \<longleftrightarrow> xs = []"
  by (cases xs) (auto split: option.splits if_splits)

lemma max_by_key_unique:
  assumes "m \<in> set xs" "\<And>x. x \<in> set xs \<Longrightarrow> x \<noteq> m \<Longrightarrow> key x < key m"
  shows "max_by_key key xs = Some m"
proof (cases "max_by_key key xs")
  case None
  then show ?thesis using assms(1) by auto
next
  case (Some k)
  then have "k \<in> set xs" "key m \<le> key k" using max_by_key_max [OF Some] assms(1) by auto
  then show ?thesis using Some assms(2) [of k] by fastforce
qed

lemma find_first_at: "\<forall>q \<in> set xs. \<not> P q \<Longrightarrow> P x \<Longrightarrow> find P (xs @ x # ys) = Some x"
  by (induction xs) auto

lemma newest_chosen:
  assumes "table_iteration iter" "peers_inv S p" "finite S"
    and "r \<in> S" "alive r" "peer_name r = n"
    and "\<And>q. q \<in> S \<Longrightarrow> alive q \<Longrightarrow> peer_name q = n \<Longrightarrow> q \<noteq> r \<Longrightarrow> key q < key r"
  shows "find_by_name_and_comparator iter alive p n key = Some r"
proof -
  have "find_by_name_and_comparator iter alive p n key = max_by_key key (get_by_name iter alive p n)"
    by (simp add: find_by_name_and_comparator_def get_by_name_def split: option.splits)
  then show ?thesis
    using table_iteration.get_by_name_set [OF assms(1-3), of alive n] assms(4-7)
    by (auto intro: max_by_key_unique)
qed

section \<open>A routed request\<close>

lemma negotiation_then:
  assumes "valid_address addr" "length (address_into_bytes addr) \<le> 2048" "fs addr t = Some s"
  shows "net_run (net_start (io_bind (client_negotiate addr) f) (io_bind (service_negotiate fs t) g)) =
    net_run (net_start (f (Ok ())) (g (Ok (addr, s))))"
proof -
  define bs where "bs = address_into_bytes addr"
  have p: "parse_address_frame bs = (Ok addr :: (anyhow negotiation_error, route_address) result)"
    using assms(1) address_from_bytes_iff [of bs addr] by (simp add: parse_address_frame_eq bs_def)
  have l: "length bs < 4294967296" "length bs \<le> 2048" using assms(2) by (simp_all add: bs_def)
  show ?thesis
    using p l assms(3)
    by (simp add: net_start_def negotiation_defs SNOCAT_NEGOTIATION_MAGIC_def net_simps Let_def flip: bs_def)
qed

text \<open>What the daemon does with a link after the negotiation.\<close>

definition served_outcome :: "('e service_error, unit) result io \<Rightarrow> ('x, unit) result io" where
  "served_outcome p = io_bind p (\<lambda>res. Done (Ok ()))"

lemma handle_bistream_eq:
  "handle_incoming_request_bistream anyhow_of fs False t =
    io_bind (service_negotiate fs t) (\<lambda>negotiated.
      case negotiated of
        Inl e \<Rightarrow> Done (if e = UnsupportedProtocolVersion then Err ReqUnsupportedProtocolVersion
          else case e of FatalError x \<Rightarrow> Err (ReqApplicationError (anyhow_of e)) | _ \<Rightarrow> Ok ())
      | Inr (addr, s) \<Rightarrow> served_outcome (handle s addr t))"
proof -
  have "(case res of Inl e \<Rightarrow> Done (Ok ()) | Inr _ \<Rightarrow> Done (Ok ())) = Done (Ok ())" for res :: "('b service_error, unit) result"
    by (cases res) auto
  then show ?thesis
    unfolding handle_incoming_request_bistream_def served_outcome_def
    by (intro arg_cong [where f = "io_bind _"] ext) (auto split: sum.splits negotiation_error.splits)
qed

text \<open>
  C32: routing a request of the server over a tunnel amounts to running the protocol client
  against the service. The router picks, of the live peers of the name, the one registered last.
  When its link opens and the registry of the peer has a service that accepts the address, the
  first of them serves it: every run of the router against the daemon of the peer has the outcome
  of the client and that service on a fresh stream.
\<close>

theorem routed_request_served:
  assumes "table_iteration iter" "peers_inv S p" "finite S"
    and "r \<in> S" "alive r" "peer_name r = n"
    and "\<forall>q \<in> S. alive q \<and> peer_name q = n \<and> q \<noteq> r \<longrightarrow> registered_at q < registered_at r"
    and "open_link (peer_id r) = Ok ()"
    and "valid_address (address request)" "length (address_into_bytes (address request)) \<le> 2048"
    and "services reg = before @ s # after" "\<forall>q \<in> set before. \<not> accepts q (address request) t"
      "accepts s (address request) t"
  shows "net_run (net_start (server_route iter alive registered_at p open_link request n)
      (handle_incoming_request_bistream anyhow_of (find_service reg) False t)) =
    net_run (net_start (io_map_err ClientFailed (client_handle (protocol_client request) (address request)))
      (served_outcome (handle s (address request) t)))"
proof -
  have chosen: "find_by_name_and_comparator iter alive p n registered_at = Some r"
    using assms(1-7) by (intro newest_chosen [where S = S]) blast+
  have found: "find_service reg (address request) t = Some s"
    using assms(11-13) find_first_at [of before "\<lambda>q. accepts q (address request) t" s after]
    by (simp add: find_service_def)
  show ?thesis
    unfolding server_route_def negotiate_and_handle_def chosen handle_bistream_eq
    by (simp add: assms(8) negotiation_then [where fs = "find_service reg", OF assms(9,10) found])
qed

definition sample_peer :: peer_record where
  "sample_peer = \<lparr>peer_id = 3, peer_name = lit ''n'', peer_attributes = Map.empty\<rparr>"

definition sample_service :: "(unit, anyhow) service" where
  "sample_service = \<lparr>accepts = (\<lambda>addr t. True), handle = (\<lambda>addr t. Send [7] (\<lambda>_. Done (Ok ())))\<rparr>"

definition sample_request :: "(byte, unit) request" where
  "sample_request = \<lparr>address = \<lparr>segments = [[97]]\<rparr>, protocol_client = \<lparr>protocol_name = [97],
     client_handle = (\<lambda>addr. Recv 1 (\<lambda>r. Done (case r of Some bs \<Rightarrow> Ok (hd bs) | None \<Rightarrow> Err client_error.UnexpectedEnd)))\<rparr>\<rparr>"

theorem routed_request_served_witness:
  "net_run (net_start
      (server_route sorted_iter (\<lambda>_. True) peer_id (tracker_insert sample_peer tracker_new) (\<lambda>_. Ok ())
        sample_request (lit ''n'') :: ((unit, unit, unit) route_failure, byte) result io)
      (handle_incoming_request_bistream (\<lambda>_. [])
        (find_service (add_service_blocking (\<lambda>e. e) sample_service preset_registry_new)) False ())) =
    \<lparr>lhs = Done (Ok 7), rhs = Done (Ok ()), to_rhs = [], to_lhs = []\<rparr>"
proof -
  have inv: "peers_inv {sample_peer} (tracker_insert sample_peer tracker_new)"
    using tracker_insert_inv [OF tracker_new_inv, of sample_peer] by simp
  have "services (add_service_blocking (\<lambda>e. e) sample_service preset_registry_new) =
      [] @ mapped_service (\<lambda>e. e) sample_service # []"
    by (simp add: add_service_blocking_def preset_registry_new_def)
  from routed_request_served [OF sorted_table.table_iteration_axioms inv _ _ _ _ _ _ _ _ this, of sample_peer
      "\<lambda>_. True" "lit ''n''" peer_id "\<lambda>_. Ok ()" sample_request "()" "\<lambda>_. []"]
  show ?thesis
    by (simp add: sample_peer_def sample_request_def short_address sample_service_def mapped_service_def
        served_outcome_def io_map_err_def io_map_def net_start_def net_simps)
qed

end
