(* ===== verification/Demand_Proxy.thy ===== *)
theory Demand_Proxy
  imports Routing Proxy_Tcp Ports Framed
begin

text \<open>
  The demand proxy of the command-line program (\<open>snocat-cli/src/services/demand_proxy.rs\<close>):
  a client asks the server to bind a port and to forward the connections it accepts there back
  through the tunnel. The client and the service are \<open>io\<close> programs over the request's stream.
  The allocation of a port, the binding of a listener and the routing of an accepted connection
  are arguments; \<open>serde_json\<close> is a parameter as in \<open>Framed\<close>.
\<close>

section \<open>Addresses\<close>

definition DEMAND_PROXY_PROTOCOL_NAME :: rstr where
  "DEMAND_PROXY_PROTOCOL_NAME = lit ''proxyme''"

definition DEMAND_PROXY_VERSION :: rstr where
  "DEMAND_PROXY_VERSION = lit ''0.0.1''"

datatype demand_proxy_address_error = RFC6763NotSupported | UnparseableOutput route_address_parse_error

definition demand_build_addr :: "tcp_stream_target \<Rightarrow> (demand_proxy_address_error, route_address) result" where
  "demand_build_addr args =
    (case target_host_port args of (host, port) \<Rightarrow>
      and_then (ok_or RFC6763NotSupported port) (\<lambda>port.
        map_err UnparseableOutput (address_from_str
          (lit ''/'' @ DEMAND_PROXY_PROTOCOL_NAME @ lit ''/0.0.1/'' @ host @ lit ''/'' @ show_u16 port))))"

fun parse_demand_segments :: "rstr list \<Rightarrow> (unit, rstr option \<times> rstr) result" where
  "parse_demand_segments [first] = Ok (None, first)"
| "parse_demand_segments [first, second] = Ok (Some first, second)"
| "parse_demand_segments _ = Err ()"

definition parse_address :: "route_address \<Rightarrow> (unit, rstr option \<times> port) result" where
  "parse_address addr =
    (case iter_segments addr of
       name # version # rest \<Rightarrow>
         if name \<noteq> DEMAND_PROXY_PROTOCOL_NAME then Err ()
         else if version \<noteq> DEMAND_PROXY_VERSION then Err ()
         else and_then (parse_demand_segments rest) (\<lambda>(host, port_segment).
           and_then (map_err (\<lambda>_. ()) (parse_u16 port_segment)) (\<lambda>port. Ok (host, port)))
     | _ \<Rightarrow> Err ())"

section \<open>The client\<close>

text \<open>
  The client sends its subject and reads the notification of granted ports. It returns the
  granted addresses together with a future that waits for the server to end the proxy; the
  backtrace of an illegal response is not modelled.
\<close>

record 'j demand_json =
  subject_to_vec :: "rstr \<Rightarrow> ('j, byte list) result"
  subject_from_slice :: "byte list \<Rightarrow> ('j, rstr) result"
  granted_to_vec :: "socket_addr list option \<Rightarrow> ('j, byte list) result"
  granted_from_slice :: "byte list \<Rightarrow> ('j, socket_addr list option) result"

definition demand_client_wait :: "(unit client_error, unit) result io" where
  "demand_client_wait =
    io_then (or_err (client_error.IllegalResponse ()) (read_exact 8)) (\<lambda>_. Done (Ok ()))"

definition demand_client_request ::
  "'j demand_json \<Rightarrow> rstr \<Rightarrow> (unit client_error, socket_addr list) result io" where
  "demand_client_request J proxied_subject =
    io_then (io_map_err (\<lambda>_. client_error.IllegalResponse ()) (write_framed_json (subject_to_vec J) proxied_subject None)) (\<lambda>_.
    io_then (io_map_err (\<lambda>_. client_error.IllegalResponse ()) (read_framed_json (granted_from_slice J) None)) (\<lambda>entry.
    Done (ok_or client_error.Refused entry)))"

definition demand_client ::
  "'j demand_json \<Rightarrow> rstr \<Rightarrow> (socket_addr list \<times> (unit client_error, unit) result io, unit) client" where
  "demand_client J proxied_subject =
    \<lparr>protocol_name = DEMAND_PROXY_PROTOCOL_NAME,
     client_handle = (\<lambda>addr. io_map (map_ok (\<lambda>entry. (entry, demand_client_wait)))
       (demand_client_request J proxied_subject))\<rparr>"

section \<open>Forwarding\<close>

fun is_unspecified :: "ip_addr \<Rightarrow> bool" where
  "is_unspecified (V4 a) \<longleftrightarrow> a = Ipv4 0 0 0 0"
| "is_unspecified (V6 a) \<longleftrightarrow> a = replicate 8 0"

definition handle_dual_stack_addrs :: "ip_addr list \<Rightarrow> ip_addr list" where
  "handle_dual_stack_addrs bind_addrs =
    (case find is_unspecified bind_addrs of Some unspec \<Rightarrow> [unspec] | None \<Rightarrow> bind_addrs)"

fun service_error_of_routing :: "('t, 'e) routing_error \<Rightarrow> 'e service_error" where
  "service_error_of_routing (RouteNotFound a) = DependencyFailure"
| "service_error_of_routing (RouteUnavailable a) = DependencyFailure"
| "service_error_of_routing (RouterError e) = DependencyFailure"
| "service_error_of_routing (LinkOpenFailure e) = DependencyFailure"
| "service_error_of_routing routing_error.InvalidAddress = AddressError"
| "service_error_of_routing (NegotiationError e) = service_error_of_negotiation (\<lambda>e. e) e"

fun service_error_of_client :: "'c client_error \<Rightarrow> 'e service_error" where
  "service_error_of_client client_error.InvalidAddress = AddressError"
| "service_error_of_client client_error.Refused = service_error.Refused"
| "service_error_of_client client_error.UnexpectedEnd = service_error.UnexpectedEnd"
| "service_error_of_client (client_error.IllegalResponse e) = service_error.IllegalResponse"

fun service_error_of_route :: "('t, 'e, 'c) route_failure \<Rightarrow> 'e service_error" where
  "service_error_of_route (NotRouted e) = service_error_of_routing e"
| "service_error_of_route (ClientFailed e) = service_error_of_client e"

definition forward_target :: "rstr option \<times> port \<Rightarrow> tcp_stream_target" where
  "forward_target target_addr =
    Dns (PreferHigher (case fst target_addr of Some s \<Rightarrow> s | None \<Rightarrow> lit ''localhost'') (snd target_addr))"

text \<open>\<open>router\<close> is the router behind the weak reference, if it is still there.\<close>

definition forward_connection ::
  "(('r, 'c) request \<Rightarrow> tunnel_name \<Rightarrow> (('t, 'e, 'c) route_failure, 'r) result io) option \<Rightarrow>
   ('r, 'c) client \<Rightarrow> rstr option \<times> port \<Rightarrow> tunnel_name \<Rightarrow> ('e service_error, unit) result io" where
  "forward_connection router client target_addr target_tunnel =
    (case map_err (\<lambda>_. AddressError) (request_new (tcp_client_build_addr :: _ \<Rightarrow> (unit, _) result) client (forward_target target_addr)) of
       Inl e \<Rightarrow> Done (Err e)
     | Inr req \<Rightarrow>
         (case router of
            None \<Rightarrow> Done (Err DependencyFailure)
          | Some route \<Rightarrow>
              io_then (io_map_err service_error_of_route (route req target_tunnel)) (\<lambda>_. Done (Ok ()))))"

text \<open>
  A listener forwards the connections it accepts concurrently, until it is told to stop or an
  error occurs; all listeners of a demand run concurrently in one task. \<open>joined\<close> says that
  the task could be joined.
\<close>

datatype 'e accept_event =
    TcpAccepted | AcceptFailed | AcceptingStopped | ConnectionDone "('e service_error, unit) result"

fun accept_loop_event :: "'e accept_event \<Rightarrow> 'e service_error loop_event" where
  "accept_loop_event TcpAccepted = ItemArrived"
| "accept_loop_event AcceptFailed = SourceFailed service_error.UnexpectedEnd"
| "accept_loop_event AcceptingStopped = SourceEnded"
| "accept_loop_event (ConnectionDone res) = ItemFinished res"

definition run_tcp_listener ::
  "'e service_error concurrent_loop \<Rightarrow> 'e accept_event list \<Rightarrow> ('e service_error, unit) result option" where
  "run_tcp_listener loop evs = loop (map accept_loop_event evs)"

text \<open>\<open>finished\<close> lists the listeners' outcomes in the order in which they come.\<close>

definition run_tcp_listeners ::
  "'e service_error concurrent_loop \<Rightarrow> bool \<Rightarrow> nat \<Rightarrow> ('e service_error, unit) result list \<Rightarrow>
   ('e service_error, unit) result option" where
  "run_tcp_listeners loop joined bindings finished =
    (if \<not> joined then Some (Err DependencyFailure)
     else loop (replicate bindings ItemArrived @ [SourceEnded] @ map ItemFinished finished))"

section \<open>The service\<close>

record demand_proxy_service =
  service_peers :: peer_tracker
  bind_addrs :: "ip_addr list"

definition demand_proxy_service_new :: "peer_tracker \<Rightarrow> ip_addr list \<Rightarrow> demand_proxy_service" where
  "demand_proxy_service_new p addrs = \<lparr>service_peers = p, bind_addrs = handle_dual_stack_addrs addrs\<rparr>"

definition demand_accepts :: "route_address \<Rightarrow> 't \<Rightarrow> bool" where
  "demand_accepts addr tunnel = is_ok (parse_address addr)"

text \<open>Listeners are bound one after the other; the first failure ends it.\<close>

fun bind_all :: "(socket_addr \<Rightarrow> (anyhow, 'l) result) \<Rightarrow> port \<Rightarrow> ip_addr list \<Rightarrow> (anyhow, 'l list) result" where
  "bind_all bind p [] = Ok []"
| "bind_all bind p (ip # ips) =
    and_then (bind (socket_addr_new ip p)) (\<lambda>l. and_then (bind_all bind p ips) (\<lambda>ls. Ok (l # ls)))"

text \<open>
  \<open>allocation\<close> is the outcome of the port allocation, \<open>listeners\<close> that of the listener task, which
  runs while the service waits for the client to end or to close the stream. Both are joined, so
  the order in which they end does not matter; listeners that never end keep the service from
  returning and do nothing else to the stream, so what is modelled is the run in which they end.
\<close>

definition demand_service_handle ::
  "'j demand_json \<Rightarrow> (peer_record \<Rightarrow> bool) \<Rightarrow> (port_range_allocation_error, port) result \<Rightarrow>
   (socket_addr \<Rightarrow> (anyhow, 'l) result) \<Rightarrow>
   ('l list \<Rightarrow> rstr option \<times> port \<Rightarrow> tunnel_name \<Rightarrow> ('e service_error, unit) result) \<Rightarrow>
   demand_proxy_service \<Rightarrow> route_address \<Rightarrow> tunnel_id \<Rightarrow> ('e service_error, unit) result io" where
  "demand_service_handle J alive allocation bind listeners self addr tunnel =
    (case get_by_id alive (service_peers self) tunnel of
       None \<Rightarrow> Done (Err AddressError)
     | Some peer_record \<Rightarrow>
         (case parse_address addr of
            Inl _ \<Rightarrow> Done (Err AddressError)
          | Inr parsed_addr \<Rightarrow>
              io_then (io_map_err (\<lambda>_. service_error.UnexpectedEnd) (read_framed_json (subject_from_slice J) (Some 256))) (\<lambda>_.
              case allocation of
                Inl _ \<Rightarrow>
                  io_then (io_map_err (\<lambda>_. service_error.IllegalResponse) (write_framed_json (granted_to_vec J) None None)) (\<lambda>_.
                  Done (Err DependencyFailure))
              | Inr port \<Rightarrow>
                  io_then (io_map_err (\<lambda>_. service_error.IllegalResponse) (write_framed_json (granted_to_vec J)
                    (Some (map (\<lambda>ip. socket_addr_new ip port) (bind_addrs self))) None)) (\<lambda>_.
                  case map_err InternalFailure (bind_all bind port (bind_addrs self)) of
                    Inl e \<Rightarrow>
                      io_then (io_map_err (\<lambda>_. service_error.IllegalResponse) (write_framed_json (granted_to_vec J) None None)) (\<lambda>_.
                      Done (Err e))
                  | Inr bindings \<Rightarrow>
                      io_bind (read_exact 8) (\<lambda>_.
                      case listeners bindings parsed_addr (peer_name peer_record) of
                        Inl e \<Rightarrow> Done (Err e)
                      | Inr _ \<Rightarrow> or_fail service_error.UnexpectedEnd (write_all (replicate 8 0)))))))"

section \<open>Addresses of demands\<close>

lemma render_chars_plain: "\<not> list_ex needs_escaped s \<Longrightarrow> render_chars s = s"
  by (induction s) auto

lemma show_u16_plain: "\<not> list_ex needs_escaped (show_u16 p)"
  by (auto simp: list_ex_iff needs_escaped_def show_u16_def is_digit_def dest!: show_nat_digits)

text \<open>
  The built address is what the service parses, when the host has no character that the text of
  an address escapes; the builder itself does not escape it.
\<close>

lemma demand_address_round_trip:
  assumes "target_host_port t = (host, Some port)" "\<not> list_ex needs_escaped host"
  shows "\<exists>addr. demand_build_addr t = Ok addr \<and> parse_address addr = Ok (Some host, port)"
proof -
  let ?a = "\<lparr>segments = [DEMAND_PROXY_PROTOCOL_NAME, DEMAND_PROXY_VERSION, host, show_u16 port]\<rparr>"
  have "rendered ?a = lit ''/'' @ DEMAND_PROXY_PROTOCOL_NAME @ lit ''/0.0.1/'' @ host @ lit ''/'' @ show_u16 port"
    using assms(2) render_chars_plain [OF show_u16_plain, of port]
    by (simp add: rendered_def iter_segments_def render_chars_plain DEMAND_PROXY_PROTOCOL_NAME_def
        DEMAND_PROXY_VERSION_def lit_def needs_escaped_def)
  then have "demand_build_addr t = Ok ?a"
    using from_str_rendered [of ?a] assms(1) by (simp add: demand_build_addr_def)
  moreover have "parse_address ?a = Ok (Some host, port)"
    by (simp add: parse_address_def iter_segments_def)
  ultimately show ?thesis by blast
qed

section \<open>Properties\<close>

text \<open>What is assumed of the encoding of the values that are exchanged.\<close>

definition encodes :: "('v \<Rightarrow> ('j, byte list) result) \<Rightarrow> (byte list \<Rightarrow> ('j, 'v) result) \<Rightarrow> 'v \<Rightarrow> nat \<Rightarrow> bool" where
  "encodes to_vec from_slice v limit \<longleftrightarrow>
    (\<exists>b. to_vec v = Ok b \<and> from_slice b = Ok v \<and> length b \<le> limit)"

text \<open>Frames between two parties.\<close>

lemma net_frames [net_simps]:
  "to_vec v = Ok b \<Longrightarrow>
    net_run \<lparr>lhs = io_bind (write_framed_json to_vec v None) f, rhs = q, to_rhs = x, to_lhs = y\<rparr> =
    net_run \<lparr>lhs = f (Ok ()), rhs = q, to_rhs = x @ frame b, to_lhs = y\<rparr>"
  "to_vec v = Ok b \<Longrightarrow>
    net_run \<lparr>lhs = p, rhs = io_bind (write_framed_json to_vec v None) g, to_rhs = x, to_lhs = y\<rparr> =
    net_run \<lparr>lhs = p, rhs = g (Ok ()), to_rhs = x, to_lhs = y @ frame b\<rparr>"
  "from_slice b = Ok v \<Longrightarrow> length b < 4294967296 \<Longrightarrow> fits mx (length b) \<Longrightarrow>
    net_run \<lparr>lhs = io_bind (read_framed_json from_slice mx) h, rhs = q, to_rhs = x, to_lhs = frame b @ y\<rparr> =
    net_run \<lparr>lhs = h (Ok v), rhs = q, to_rhs = x, to_lhs = y\<rparr>"
  "from_slice b = Ok v \<Longrightarrow> length b < 4294967296 \<Longrightarrow> fits mx (length b) \<Longrightarrow>
    net_run \<lparr>lhs = p, rhs = io_bind (read_framed_json from_slice mx) k, to_rhs = frame b @ x, to_lhs = y\<rparr> =
    net_run \<lparr>lhs = p, rhs = k (Ok v), to_rhs = x, to_lhs = y\<rparr>"
  by (auto simp: write_framed_json_def read_framed_json_def write_frame_def read_frame_def read_frame_content_def
      io_prim_defs net_simps frame_def fits_def Let_def split: option.splits)

lemma net_waiting [net_simps]:
  "0 < n \<Longrightarrow> net_run \<lparr>lhs = Done (Ok a), rhs = Recv n k, to_rhs = [], to_lhs = y\<rparr> =
    \<lparr>lhs = Done (Ok a), rhs = Recv n k, to_rhs = [], to_lhs = y\<rparr>"
  by (simp add: net_run.simps [of "\<lparr>lhs = Done (Ok a), rhs = Recv n k, to_rhs = [], to_lhs = y\<rparr>"] net_next_def)

definition granted :: "demand_proxy_service \<Rightarrow> port \<Rightarrow> socket_addr list" where
  "granted self port = map (\<lambda>ip. socket_addr_new ip port) (bind_addrs self)"

lemmas demand_defs = demand_client_request_def demand_service_handle_def io_then_def io_map_err_def io_map_def
  read_exact_def

text \<open>
  C33: what comes of a demand for a listed peer with an acceptable address, in every
  interleaving of client and service. Without a port the client is refused; with a port it is
  told that port on each bind address, and the service waits for it to end only when a
  listener was bound on every one of these addresses.
\<close>

theorem demand_request_outcome:
  assumes "get_by_id alive (service_peers self) t = Some peer" "parse_address addr = Ok target"
    and "encodes (subject_to_vec J) (subject_from_slice J) subject 256"
    and "encodes (granted_to_vec J) (granted_from_slice J) None 4294967295"
    and "\<forall>port. allocation = Ok port \<longrightarrow>
      encodes (granted_to_vec J) (granted_from_slice J) (Some (granted self port)) 4294967295"
    and "net_step\<^sup>*\<^sup>* (net_start (demand_client_request J subject)
      (demand_service_handle J alive allocation bind listeners self addr t)) c" "settled c"
  shows "case allocation of
      Inl e \<Rightarrow> lhs c = Done (Err client_error.Refused) \<and> rhs c = Done (Err DependencyFailure)
    | Inr port \<Rightarrow> lhs c = Done (Ok (granted self port)) \<and>
        (case bind_all bind port (bind_addrs self) of
           Inl e \<Rightarrow> rhs c = Done (Err (InternalFailure e))
         | Inr bindings \<Rightarrow> (\<exists>k. rhs c = Recv 8 k) \<and> to_lhs c = [] \<and> to_rhs c = [])"
proof -
  obtain sb where sb: "subject_to_vec J subject = Ok sb" "subject_from_slice J sb = Ok subject" "length sb \<le> 256"
    using assms(3) by (auto simp: encodes_def)
  obtain nb where nb: "granted_to_vec J None = Ok nb" "granted_from_slice J nb = Ok None" "length nb \<le> 4294967295"
    using assms(4) by (auto simp: encodes_def)
  have c: "c = net_run (net_start (demand_client_request J subject)
      (demand_service_handle J alive allocation bind listeners self addr t))"
    using net_run_only_end(2) [OF assms(6,7)] .
  show ?thesis
  proof (cases allocation)
    case (Inl e)
    then show ?thesis
      using assms(1,2) sb nb unfolding c
      by (simp add: net_start_def demand_defs fits_def net_simps net_frames(3) [where y = "[]", simplified]
          net_frames(4) [where x = "[]", simplified])
  next
    case (Inr port)
    then obtain gb where "granted_to_vec J (Some (granted self port)) = Ok gb"
        "granted_from_slice J gb = Ok (Some (granted self port))" "length gb \<le> 4294967295"
      using assms(5) by (auto simp: encodes_def)
    then show ?thesis
      using assms(1,2) sb nb Inr unfolding c
      by (cases "bind_all bind port (bind_addrs self)")
        (simp_all add: net_start_def demand_defs fits_def net_simps net_frames(3) [where y = "[]", simplified]
          net_frames(4) [where x = "[]", simplified] granted_def)
  qed
qed

definition sample_service_state :: demand_proxy_service where
  "sample_service_state = demand_proxy_service_new (tracker_insert sample_peer tracker_new) [V4 ipv4_localhost]"

definition sample_addr :: route_address where
  "sample_addr = \<lparr>segments = [DEMAND_PROXY_PROTOCOL_NAME, DEMAND_PROXY_VERSION, show_u16 80]\<rparr>"

text \<open>\<open>None\<close> is encoded as \<open>null\<close>.\<close>

definition json_null :: "byte list" where
  "json_null = [0x6e, 0x75, 0x6c, 0x6c]"

definition sample_json :: "unit demand_json" where
  "sample_json = \<lparr>subject_to_vec = (\<lambda>s. Ok [0]), subject_from_slice = (\<lambda>b. Ok (lit ''s'')),
     granted_to_vec = (\<lambda>g. Ok (if g = None then json_null else [1])),
     granted_from_slice = (\<lambda>b. Ok (if b = json_null then None else Some (granted sample_service_state 5000)))\<rparr>"

lemma sample_demand:
  "get_by_id (\<lambda>_. True) (service_peers sample_service_state) 3 = Some sample_peer"
  "parse_address sample_addr = Ok (None, 80)"
  "encodes (subject_to_vec sample_json) (subject_from_slice sample_json) (lit ''s'') 256"
  "encodes (granted_to_vec sample_json) (granted_from_slice sample_json) None 4294967295"
  "encodes (granted_to_vec sample_json) (granted_from_slice sample_json) (Some (granted sample_service_state 5000)) 4294967295"
  "granted_to_vec sample_json None = Ok json_null"
  by (simp_all add: sample_service_state_def demand_proxy_service_new_def sample_peer_def get_by_id_def by_id_insert
      sample_addr_def parse_address_def iter_segments_def encodes_def sample_json_def json_null_def)

theorem demand_request_outcome_witness:
  "lhs (net_run (net_start (demand_client_request sample_json (lit ''s''))
     (demand_service_handle sample_json (\<lambda>_. True) (Ok 5000) (\<lambda>a. Ok a) (\<lambda>_ _ _. Ok ())
       sample_service_state sample_addr 3 :: (unit service_error, unit) result io))) =
   Done (Ok (granted sample_service_state 5000))"
proof -
  let ?n = "net_start (demand_client_request sample_json (lit ''s''))
     (demand_service_handle sample_json (\<lambda>_. True) (Ok 5000) (\<lambda>a. Ok a) (\<lambda>_ _ _. Ok ())
       sample_service_state sample_addr 3 :: (unit service_error, unit) result io)"
  show ?thesis
    using demand_request_outcome [OF sample_demand(1-4) _ conjunct1 [OF net_run_reach [of ?n]] conjunct2 [OF net_run_reach]]
      sample_demand(5) by simp
qed

text \<open>
  C34: when a port was granted and a listener then cannot be bound, the service ends with an
  error, but its second notification is exactly the eight bytes the client waits for: the
  client takes the failure as the regular end of a proxy on the granted addresses. This rests on
  \<open>serde_json\<close> writing \<open>None\<close> as \<open>null\<close>.
\<close>

theorem demand_bind_failure_unnoticed:
  assumes "get_by_id alive (service_peers self) t = Some peer" "parse_address addr = Ok target"
    and "encodes (subject_to_vec J) (subject_from_slice J) subject 256"
    and "encodes (granted_to_vec J) (granted_from_slice J) (Some (granted self port)) 4294967295"
    and "granted_to_vec J None = Ok json_null"
    and "bind_all bind port (bind_addrs self) = Err e"
    and "net_step\<^sup>*\<^sup>* (net_start
        (io_then (client_handle (demand_client J subject) addr) (\<lambda>(entry, wait). io_map (map_ok (\<lambda>_. entry)) wait))
        (demand_service_handle J alive (Ok port) bind listeners self addr t)) c" "settled c"
  shows "lhs c = Done (Ok (granted self port)) \<and> rhs c = Done (Err (InternalFailure e))"
proof -
  obtain sb where sb: "subject_to_vec J subject = Ok sb" "subject_from_slice J sb = Ok subject" "length sb \<le> 256"
    using assms(3) by (auto simp: encodes_def)
  obtain gb where gb: "granted_to_vec J (Some (granted self port)) = Ok gb"
      "granted_from_slice J gb = Ok (Some (granted self port))" "length gb \<le> 4294967295"
    using assms(4) by (auto simp: encodes_def)
  have eight: "length (frame json_null) = 8" by (simp add: frame_def json_null_def u32_to_be_bytes_def)
  show ?thesis
    using net_run_only_end(2) [OF assms(7,8)] assms(1,2,5,6) sb gb eight
    by (simp add: net_start_def demand_defs demand_client_def demand_client_wait_def or_err_def fits_def net_simps
        net_frames(3) [where y = "[]", simplified] net_frames(4) [where x = "[]", simplified] granted_def)
qed

theorem demand_bind_failure_unnoticed_witness:
  "lhs (net_run (net_start
     (io_then (client_handle (demand_client sample_json (lit ''s'')) sample_addr)
       (\<lambda>(entry, wait). io_map (map_ok (\<lambda>_. entry)) wait))
     (demand_service_handle sample_json (\<lambda>_. True) (Ok 5000) (\<lambda>a. Err (lit ''in use'') :: (anyhow, unit) result)
       (\<lambda>_ _ _. Ok ()) sample_service_state sample_addr 3 :: (unit service_error, unit) result io))) =
   Done (Ok (granted sample_service_state 5000))"
proof -
  let ?n = "net_start
     (io_then (client_handle (demand_client sample_json (lit ''s'')) sample_addr)
       (\<lambda>(entry, wait). io_map (map_ok (\<lambda>_. entry)) wait))
     (demand_service_handle sample_json (\<lambda>_. True) (Ok 5000) (\<lambda>a. Err (lit ''in use'') :: (anyhow, unit) result)
       (\<lambda>_ _ _. Ok ()) sample_service_state sample_addr 3 :: (unit service_error, unit) result io)"
  have "bind_all (\<lambda>a. Err (lit ''in use'') :: (anyhow, unit) result) 5000 (bind_addrs sample_service_state) =
      Err (lit ''in use'')"
    by (simp add: sample_service_state_def demand_proxy_service_new_def handle_dual_stack_addrs_def ipv4_localhost_def)
  from demand_bind_failure_unnoticed [OF sample_demand(1-3) sample_demand(5,6) this
      conjunct1 [OF net_run_reach [of ?n]] conjunct2 [OF net_run_reach]]
  show ?thesis by simp
qed

end
