(* ===== verification/Tunnel_Source.thy ===== *)
theory Tunnel_Source
  imports Tunnels
begin

text \<open>
  Sources of tunnels (\<open>common/tunnel_source/mod.rs\<close>): the stream of connections of a listening
  QUIC endpoint, and the set of streams that can be changed while it is polled. The endpoint of
  quinn is given by the answers of its \<open>accept\<close> that have not been taken yet, \<open>None\<close> when it
  was closed; the \<open>StreamMap\<close> of tokio is a parameter with its documented behaviour as a locale.
\<close>

section \<open>The listening endpoint\<close>

record 'i quinn_listen_endpoint =
  listen_bind_addr :: socket_addr
  endpoint :: "'i option list"
  accepting :: bool
  is_terminated :: bool

definition from_endpoint :: "socket_addr \<Rightarrow> 'i option list \<Rightarrow> 'i quinn_listen_endpoint" where
  "from_endpoint addr e = \<lparr>listen_bind_addr = addr, endpoint = e, accepting = False, is_terminated = False\<rparr>"

definition listen_bind ::
  "('c \<Rightarrow> socket_addr \<Rightarrow> ('x, 'i option list) result) \<Rightarrow> socket_addr \<Rightarrow> 'c \<Rightarrow> ('x, 'i quinn_listen_endpoint) result" where
  "listen_bind server addr quinn_config = map_ok (from_endpoint addr) (server quinn_config addr)"

text \<open>The operations of the platform that binding with buffer sizes goes through.\<close>

record ('c, 'u, 'r, 'x, 'i) socket_env =
  udp_bind :: "socket_addr \<Rightarrow> ('x, 'u) result"
  set_recv_buffer_size :: "'u \<Rightarrow> nat \<Rightarrow> ('x, 'u) result"
  set_send_buffer_size :: "'u \<Rightarrow> nat \<Rightarrow> ('x, 'u) result"
  default_runtime :: "'r option"
  no_runtime_error :: 'x
  endpoint_new :: "'c \<Rightarrow> 'u \<Rightarrow> 'r \<Rightarrow> ('x, 'i option list) result"

definition bind_with_buffer_sizes ::
  "('c, 'u, 'r, 'x, 'i) socket_env \<Rightarrow> socket_addr \<Rightarrow> 'c \<Rightarrow> nat \<Rightarrow> nat \<Rightarrow> ('x, 'i quinn_listen_endpoint) result" where
  "bind_with_buffer_sizes E addr quinn_config recv_size send_size =
    and_then (udp_bind E addr) (\<lambda>socket.
    and_then (if recv_size > 0 then set_recv_buffer_size E socket recv_size else Ok socket) (\<lambda>socket.
    and_then (if send_size > 0 then set_send_buffer_size E socket send_size else Ok socket) (\<lambda>socket.
    and_then (ok_or (no_runtime_error E) (default_runtime E)) (\<lambda>runtime.
    map_ok (from_endpoint addr) (endpoint_new E quinn_config socket runtime)))))"

text \<open>The accept loop passes over connections that fail to start.\<close>

fun accept_loop :: "('i \<Rightarrow> ('e, 'c) result) \<Rightarrow> 'i option list \<Rightarrow> 'c option poll \<times> 'i option list" where
  "accept_loop accept [] = (Pending, [])"
| "accept_loop accept (None # q) = (Ready None, q)"
| "accept_loop accept (Some incoming # q) =
    (case accept incoming of Inr connecting \<Rightarrow> (Ready (Some connecting), q) | Inl error \<Rightarrow> accept_loop accept q)"

definition listen_poll_next ::
  "('i \<Rightarrow> ('e, 'c) result) \<Rightarrow> 'i quinn_listen_endpoint \<Rightarrow> ('c \<times> tunnel_side) option poll \<times> 'i quinn_listen_endpoint" where
  "listen_poll_next accept s =
    (if is_terminated s then (Ready None, s\<lparr>accepting := False\<rparr>)
     else
       (let s = s\<lparr>accepting := True\<rparr> in
        case accept_loop accept (endpoint s) of
          (Pending, q) \<Rightarrow> (Pending, s\<lparr>endpoint := q\<rparr>)
        | (Ready (Some connecting), q) \<Rightarrow>
            (Ready (Some (connecting, Listen)), s\<lparr>endpoint := q, accepting := False\<rparr>)
        | (Ready None, q) \<Rightarrow> (Ready None, s\<lparr>endpoint := q, accepting := False, is_terminated := True\<rparr>)))"

section \<open>Sets of streams\<close>

record ('m, 'k, 's, 'a) stream_map =
  sm_new :: 'm
  sm_insert :: "'k \<Rightarrow> 's \<Rightarrow> 'm \<Rightarrow> 's option \<times> 'm"
  sm_remove :: "'k \<Rightarrow> 'm \<Rightarrow> 's option \<times> 'm"
  sm_poll :: "('s \<Rightarrow> 'a option poll \<times> 's) \<Rightarrow> 'm \<Rightarrow> ('k \<times> 'a) option poll \<times> 'm"

record ('k, 's) named_boxed_stream =
  stream_id :: 'k
  boxed :: 's

definition new_pre_boxed :: "'k \<Rightarrow> 's \<Rightarrow> ('k, 's) named_boxed_stream" where
  "new_pre_boxed i s = \<lparr>stream_id = i, boxed = s\<rparr>"

definition named_boxed_stream_new :: "('u \<Rightarrow> 's) \<Rightarrow> 'k \<Rightarrow> 'u \<Rightarrow> ('k, 's) named_boxed_stream" where
  "named_boxed_stream_new box i s = new_pre_boxed i (box s)"

definition named_size_hint :: "('s \<Rightarrow> nat \<times> nat option) \<Rightarrow> ('k, 's) named_boxed_stream \<Rightarrow> nat \<times> nat option" where
  "named_size_hint size_hint s = size_hint (boxed s)"

definition named_poll_next ::
  "('s \<Rightarrow> 'a option poll \<times> 's) \<Rightarrow> ('k, 's) named_boxed_stream \<Rightarrow> 'a option poll \<times> ('k, 's) named_boxed_stream" where
  "named_poll_next poll_next s = (case poll_next (boxed s) of (r, b) \<Rightarrow> (r, s\<lparr>boxed := b\<rparr>))"

text \<open>The lock of the set as an operation finds it; \<open>None\<close> is a panic.\<close>

datatype lock_state = Unlocked | Locked | Poisoned

record 'm dynamic_stream_set =
  set_streams :: 'm

definition stream_set_new :: "('m, 'k, 's, 'a) stream_map \<Rightarrow> 'm dynamic_stream_set" where
  "stream_set_new M = \<lparr>set_streams = sm_new M\<rparr>"

text \<open>Attaching and detaching wait for the lock; \<open>broken\<close> says that it is poisoned.\<close>

definition attach ::
  "('m, 'k, ('k, 's) named_boxed_stream, 'a) stream_map \<Rightarrow> bool \<Rightarrow> ('k, 's) named_boxed_stream \<Rightarrow>
   'm dynamic_stream_set \<Rightarrow> (('k, 's) named_boxed_stream option \<times> 'm dynamic_stream_set) option" where
  "attach M broken source d =
    (if broken then None
     else Some (case sm_insert M (stream_id source) source (set_streams d) of (r, m) \<Rightarrow> (r, d\<lparr>set_streams := m\<rparr>)))"

definition attach_stream ::
  "('m, 'k, ('k, 's) named_boxed_stream, 'a) stream_map \<Rightarrow> bool \<Rightarrow> 'k \<Rightarrow> 's \<Rightarrow>
   'm dynamic_stream_set \<Rightarrow> (('k, 's) named_boxed_stream option \<times> 'm dynamic_stream_set) option" where
  "attach_stream M broken i source d = attach M broken (new_pre_boxed i source) d"

definition detach ::
  "('m, 'k, ('k, 's) named_boxed_stream, 'a) stream_map \<Rightarrow> bool \<Rightarrow> 'k \<Rightarrow>
   'm dynamic_stream_set \<Rightarrow> (('k, 's) named_boxed_stream option \<times> 'm dynamic_stream_set) option" where
  "detach M broken i d =
    (if broken then None
     else Some (case sm_remove M i (set_streams d) of (r, m) \<Rightarrow> (r, d\<lparr>set_streams := m\<rparr>)))"

text \<open>A poll only tries the lock; the boolean says that the task asked to be woken again.\<close>

definition stream_set_poll_next ::
  "('m, 'k, ('k, 's) named_boxed_stream, 'a) stream_map \<Rightarrow> ('s \<Rightarrow> 'a option poll \<times> 's) \<Rightarrow> lock_state \<Rightarrow>
   'm dynamic_stream_set \<Rightarrow> (('k \<times> 'a) option poll \<times> bool \<times> 'm dynamic_stream_set) option" where
  "stream_set_poll_next M poll_next lock d =
    (case lock of
       Locked \<Rightarrow> Some (Pending, True, d)
     | Poisoned \<Rightarrow> None
     | Unlocked \<Rightarrow>
         Some (case sm_poll M (named_poll_next poll_next) (set_streams d) of
           (r, m) \<Rightarrow> (r, False, d\<lparr>set_streams := m\<rparr>)))"

text \<open>
  The documented behaviour of the map: a poll asks attached streams only, yields an item of one
  of them, drops streams that have ended, is pending when no stream had an item and one is still
  attached, and ends when none is left.
\<close>

locale stream_map_laws =
  fixes M :: "('m, 'k, 's, 'a) stream_map"
    and attached :: "'m \<Rightarrow> 'k \<Rightarrow> 's option"
  assumes new_empty: "attached (sm_new M) = Map.empty"
    and insert_result: "sm_insert M k s m = (r, m') \<Longrightarrow> r = attached m k \<and> attached m' = (attached m)(k \<mapsto> s)"
    and remove_result: "sm_remove M k m = (r, m') \<Longrightarrow> r = attached m k \<and> attached m' = (attached m)(k := None)"
    and poll_item: "sm_poll M f m = (Ready (Some (k, x)), m') \<Longrightarrow>
      \<exists>s s'. attached m k = Some s \<and> f s = (Ready (Some x), s') \<and> attached m' k = Some s'"
    and poll_other: "sm_poll M f m = (p, m') \<Longrightarrow> (\<And>x. p \<noteq> Ready (Some (k, x))) \<Longrightarrow>
      attached m' k = attached m k \<or>
      (\<exists>s s'. attached m k = Some s \<and>
        (f s = (Pending, s') \<and> attached m' k = Some s' \<or> f s = (Ready None, s') \<and> attached m' k = None))"
    and poll_end: "sm_poll M f m = (Ready None, m') \<Longrightarrow> attached m' = Map.empty"
    and poll_pending: "sm_poll M f m = (Pending, m') \<Longrightarrow> attached m' \<noteq> Map.empty"
    and poll_pending_asked: "sm_poll M f m = (Pending, m') \<Longrightarrow> attached m k = Some s \<Longrightarrow>
      \<exists>s'. f s = (Pending, s') \<and> attached m' k = Some s' \<or> f s = (Ready None, s') \<and> attached m' k = None"

text \<open>A map that asks its streams in the order in which they were attached last is such a map.\<close>

fun poll_keys ::
  "('s \<Rightarrow> 'a option poll \<times> 's) \<Rightarrow> 'k list \<Rightarrow> ('k \<rightharpoonup> 's) \<Rightarrow> ('k \<times> 'a) option poll \<times> ('k \<rightharpoonup> 's)" where
  "poll_keys f [] g = (Ready None, g)"
| "poll_keys f (k # ks) g =
    (case g k of
       None \<Rightarrow> poll_keys f ks g
     | Some s \<Rightarrow>
         (case f s of
            (Ready (Some x), s') \<Rightarrow> (Ready (Some (k, x)), g(k \<mapsto> s'))
          | (Ready None, s') \<Rightarrow> poll_keys f ks (g(k := None))
          | (Pending, s') \<Rightarrow>
              (case poll_keys f ks (g(k \<mapsto> s')) of
                 (Ready None, g') \<Rightarrow> (Pending, g')
               | (r, g') \<Rightarrow> (r, g'))))"

definition ordered_streams :: "('k list \<times> ('k \<rightharpoonup> 's), 'k, 's, 'a) stream_map" where
  "ordered_streams =
    \<lparr>sm_new = ([], Map.empty),
     sm_insert = (\<lambda>k s (ks, g). ((g |` set ks) k, k # ks, (g |` set ks)(k \<mapsto> s))),
     sm_remove = (\<lambda>k (ks, g). ((g |` set ks) k, ks, g(k := None))),
     sm_poll = (\<lambda>f (ks, g). case poll_keys f (remdups ks) g of (r, g') \<Rightarrow> (r, ks, g'))\<rparr>"

definition ordered_attached :: "'k list \<times> ('k \<rightharpoonup> 's) \<Rightarrow> 'k \<rightharpoonup> 's" where
  "ordered_attached m = snd m |` set (fst m)"

lemma poll_keys_outside: "poll_keys f ks g = (r, g') \<Longrightarrow> k \<notin> set ks \<Longrightarrow> g' k = g k"
  by (induction f ks g arbitrary: r g' rule: poll_keys.induct)
     (fastforce split: option.splits prod.splits poll.splits if_splits)+

lemma poll_keys_item:
  "poll_keys f ks g = (Ready (Some (k, x)), g') \<Longrightarrow> distinct ks \<Longrightarrow>
    k \<in> set ks \<and> (\<exists>s s'. g k = Some s \<and> f s = (Ready (Some x), s') \<and> g' k = Some s')"
  by (induction f ks g arbitrary: g' rule: poll_keys.induct)
     (fastforce split: option.splits prod.splits poll.splits if_splits)+

lemma poll_keys_other:
  assumes "poll_keys f ks g = (r, g')" "distinct ks" "\<And>x. r \<noteq> Ready (Some (k, x))"
  shows "g' k = g k \<or> (\<exists>s s'. g k = Some s \<and>
    (f s = (Pending, s') \<and> g' k = Some s' \<or> f s = (Ready None, s') \<and> g' k = None))"
  using assms
proof (induction f ks g arbitrary: r g' rule: poll_keys.induct)
  case (2 f j ks g)
  show ?case
  proof (cases "g j")
    case None
    then show ?thesis using 2 by simp
  next
    case (Some s)
    obtain p s' where f: "f s = (p, s')" by fastforce
    have out: "g1 j = g0 j" if "poll_keys f ks g0 = (q, g1)" for q g0 g1
      using poll_keys_outside [OF that] "2.prems"(2) by simp
    show ?thesis
    proof (cases p)
      case Pending
      obtain q g1 where q: "poll_keys f ks (g(j \<mapsto> s')) = (q, g1)" by fastforce
      then have g': "g' = g1" "q = r \<or> q = Ready None"
        using "2.prems"(1) Some f Pending by (auto split: poll.splits option.splits)
      show ?thesis
      proof (cases "k = j")
        case True
        then show ?thesis using Some f Pending out [OF q] g'(1) by simp
      next
        case False
        then show ?thesis
          using "2.IH"(2) [OF Some f [symmetric] _ q] Pending g' "2.prems"(2,3) f by auto
      qed
    next
      case (Ready a)
      show ?thesis
      proof (cases a)
        case None
        then have q: "poll_keys f ks (g(j := None)) = (r, g')"
          using "2.prems"(1) Some f Ready by simp
        show ?thesis
        proof (cases "k = j")
          case True
          then show ?thesis using Some f Ready None out [OF q] by simp
        next
          case False
          then show ?thesis
            using "2.IH"(3) [OF Some f [symmetric] _ _ q] Ready None "2.prems"(2,3) f by auto
        qed
      next
        case (Some x)
        then show ?thesis using "2.prems"(1) "2.prems"(3) [of x] \<open>g j = Some s\<close> f Ready by auto
      qed
    qed
  qed
qed simp

lemma poll_keys_end: "poll_keys f ks g = (Ready None, g') \<Longrightarrow> distinct ks \<Longrightarrow> k \<in> set ks \<Longrightarrow> g' k = None"
proof (induction f ks g arbitrary: g' rule: poll_keys.induct)
  case (2 f j ks g)
  then show ?case
    using poll_keys_outside [of f ks _ "Ready None" g' j]
    by (fastforce split: option.splits prod.splits poll.splits)
qed simp

lemma poll_keys_pending: "poll_keys f ks g = (Pending, g') \<Longrightarrow> distinct ks \<Longrightarrow> \<exists>k \<in> set ks. g' k \<noteq> None"
proof (induction f ks g arbitrary: g' rule: poll_keys.induct)
  case (2 f j ks g)
  then show ?case
    using poll_keys_outside [of f ks "g(j \<mapsto> s')" _ g' j for s']
    by (fastforce split: option.splits prod.splits poll.splits)
qed simp

lemma poll_keys_asked:
  assumes "poll_keys f ks g = (r, g')" "r = Pending \<or> r = Ready None" "distinct ks" "k \<in> set ks" "g k = Some s"
  shows "\<exists>s'. f s = (Pending, s') \<and> g' k = Some s' \<or> f s = (Ready None, s') \<and> g' k = None"
  using assms
proof (induction f ks g arbitrary: r g' rule: poll_keys.induct)
  case (2 f j ks g)
  show ?case
  proof (cases "g j")
    case None
    then show ?thesis using 2 by auto
  next
    case (Some u)
    obtain p u' where f: "f u = (p, u')" by fastforce
    obtain g0 q where q: "poll_keys f ks g0 = (q, g')" "q = Pending \<or> q = Ready None"
        "p = Pending \<and> g0 = g(j \<mapsto> u') \<or> p = Ready None \<and> g0 = g(j := None)"
      using "2.prems"(1,2) Some f by (auto split: poll.splits option.splits prod.splits)
    show ?thesis
    proof (cases "k = j")
      case True
      then show ?thesis
        using poll_keys_outside [OF q(1), of j] q(3) "2.prems"(3,5) Some f by auto
    next
      case False
      then show ?thesis
        using "2.IH"(2) [OF Some f [symmetric], of q g'] "2.IH"(3) [OF Some f [symmetric], of None q g'] q "2.prems"(3-5)
        by (auto simp: fun_upd_def)
    qed
  qed
qed simp

interpretation ordered_set: stream_map_laws ordered_streams ordered_attached
proof
  show "ordered_attached (sm_new ordered_streams) = Map.empty"
    by (simp add: ordered_attached_def ordered_streams_def)
next
  fix k s m r m'
  show "sm_insert ordered_streams k s m = (r, m') \<Longrightarrow>
      r = ordered_attached m k \<and> ordered_attached m' = (ordered_attached m)(k \<mapsto> s)"
    by (cases m) (auto simp: ordered_attached_def ordered_streams_def restrict_map_def fun_eq_iff)
  show "sm_remove ordered_streams k m = (r, m') \<Longrightarrow>
      r = ordered_attached m k \<and> ordered_attached m' = (ordered_attached m)(k := None)"
    by (cases m) (auto simp: ordered_attached_def ordered_streams_def restrict_map_def fun_eq_iff)
next
  fix f m k x m'
  assume "sm_poll ordered_streams f m = (Ready (Some (k, x)), m')"
  then show "\<exists>s s'. ordered_attached m k = Some s \<and> f s = (Ready (Some x), s') \<and> ordered_attached m' k = Some s'"
    using poll_keys_item [of f "remdups (fst m)" "snd m" k x "snd m'"]
    by (cases m) (auto simp: ordered_attached_def ordered_streams_def split: prod.splits)
next
  fix f m p m' k
  assume "sm_poll ordered_streams f m = (p, m')" "\<And>x. p \<noteq> Ready (Some (k, x))"
  then show "ordered_attached m' k = ordered_attached m k \<or> (\<exists>s s'. ordered_attached m k = Some s \<and>
      (f s = (Pending, s') \<and> ordered_attached m' k = Some s' \<or> f s = (Ready None, s') \<and> ordered_attached m' k = None))"
    using poll_keys_other [of f "remdups (fst m)" "snd m" p "snd m'" k]
    by (cases m) (auto simp: ordered_attached_def ordered_streams_def restrict_map_def split: prod.splits)
next
  fix f m m'
  assume "sm_poll ordered_streams f m = (Ready None, m')"
  then show "ordered_attached m' = Map.empty"
    using poll_keys_end [of f "remdups (fst m)" "snd m" "snd m'"]
    by (cases m) (auto simp: ordered_attached_def ordered_streams_def restrict_map_def fun_eq_iff split: prod.splits)
next
  fix f m m' k s
  assume p: "sm_poll ordered_streams f m = (Pending, m')"
  then have g: "poll_keys f (remdups (fst m)) (snd m) = (Pending, snd m')" "fst m' = fst m"
    by (cases m; auto simp: ordered_streams_def split: prod.splits)+
  show "ordered_attached m' \<noteq> Map.empty"
    using poll_keys_pending [OF g(1)] g(2) by (auto simp: ordered_attached_def restrict_map_def fun_eq_iff)
  show "\<exists>s'. f s = (Pending, s') \<and> ordered_attached m' k = Some s' \<or> f s = (Ready None, s') \<and> ordered_attached m' k = None"
    if "ordered_attached m k = Some s"
    using poll_keys_asked [OF g(1), of k s] g(2) that
    by (auto simp: ordered_attached_def restrict_map_def split: if_splits)
qed

section \<open>Properties\<close>

text \<open>Polls of a listening endpoint, with the answers that arrive before each.\<close>

fun listen_run ::
  "('i \<Rightarrow> ('e, 'c) result) \<Rightarrow> 'i option list list \<Rightarrow> 'i quinn_listen_endpoint \<Rightarrow>
   ('c \<times> tunnel_side) option poll list \<times> 'i quinn_listen_endpoint" where
  "listen_run accept [] s = ([], s)"
| "listen_run accept (arrived # bs) s =
    (case listen_poll_next accept (s\<lparr>endpoint := endpoint s @ arrived\<rparr>) of (p, s) \<Rightarrow>
      (case listen_run accept bs s of (ps, s) \<Rightarrow> (p # ps, s)))"

text \<open>The connections that start among the answers before the endpoint closes.\<close>

fun started :: "('i \<Rightarrow> ('e, 'c) result) \<Rightarrow> 'i option list \<Rightarrow> 'c list" where
  "started accept [] = []"
| "started accept (None # q) = []"
| "started accept (Some i # q) = (case accept i of Inr c \<Rightarrow> c # started accept q | Inl e \<Rightarrow> started accept q)"

fun yielded :: "'a option poll list \<Rightarrow> 'a list" where
  "yielded [] = []"
| "yielded (Ready (Some x) # ps) = x # yielded ps"
| "yielded (_ # ps) = yielded ps"

lemma accept_loop_started:
  "accept_loop accept q = (r, q') \<Longrightarrow> started accept (q @ later) =
    (case r of Pending \<Rightarrow> started accept (q' @ later) | Ready None \<Rightarrow> []
     | Ready (Some c) \<Rightarrow> c # started accept (q' @ later))"
  by (induction accept q rule: accept_loop.induct) (auto split: sum.splits)

lemma listen_poll_started:
  assumes "listen_poll_next accept s = (p, s')"
  shows "is_terminated s \<Longrightarrow> p = Ready None \<and> is_terminated s'"
    and "\<not> is_terminated s \<Longrightarrow> (is_terminated s' \<longleftrightarrow> p = Ready None) \<and>
      map (\<lambda>c. (c, Listen)) (started accept (endpoint s @ later)) =
        yielded [p] @ (if is_terminated s' then [] else map (\<lambda>c. (c, Listen)) (started accept (endpoint s' @ later)))"
  using assms accept_loop_started [of accept "endpoint s" _ _ later]
  by (auto simp: listen_poll_next_def Let_def split: prod.splits poll.splits option.splits)

lemma yielded_Cons: "yielded (p # ps) = yielded [p] @ yielded ps"
  by (cases "p # ps" rule: yielded.cases) auto

lemma listen_run_terminated:
  "is_terminated s \<Longrightarrow> listen_run accept bs s = (ps, s') \<Longrightarrow> ps = replicate (length bs) (Ready None) \<and> is_terminated s'"
proof (induction bs arbitrary: s ps)
  case (Cons b bs)
  then show ?case
    using listen_poll_started(1) [of accept "s\<lparr>endpoint := endpoint s @ b\<rparr>"]
    by (fastforce split: prod.splits)
qed simp

lemma yielded_ended [simp]: "yielded (replicate n (Ready None)) = []"
  by (induction n) auto

definition listening :: "'c list \<Rightarrow> ('c \<times> tunnel_side) list" where
  "listening cs = map (\<lambda>c. (c, Listen)) cs"

lemma listen_run_started:
  assumes "\<not> is_terminated s" "listen_run accept bs s = (ps, s')"
  shows "listening (started accept (endpoint s @ concat bs)) =
      yielded ps @ (if is_terminated s' then [] else listening (started accept (endpoint s'))) \<and>
    (is_terminated s' \<longleftrightarrow> Ready None \<in> set ps) \<and>
    (\<forall>xs ys. ps = xs @ Ready None # ys \<longrightarrow> set ys \<subseteq> {Ready None})"
  using assms
proof (induction bs arbitrary: s ps)
  case (Cons b bs)
  obtain p s1 where 1: "listen_poll_next accept (s\<lparr>endpoint := endpoint s @ b\<rparr>) = (p, s1)" by fastforce
  obtain qs where 2: "listen_run accept bs s1 = (qs, s')" "ps = p # qs"
    using Cons.prems(2) 1 by (auto split: prod.splits)
  have poll: "(is_terminated s1 \<longleftrightarrow> p = Ready None) \<and> listening (started accept (endpoint s @ b @ concat bs)) =
      yielded [p] @ (if is_terminated s1 then [] else listening (started accept (endpoint s1 @ concat bs)))"
    using listen_poll_started(2) [OF 1, of "concat bs"] Cons.prems(1) by (simp add: listening_def)
  show ?case
  proof (cases "is_terminated s1")
    case True
    then have "qs = replicate (length bs) (Ready None)" "is_terminated s'" "p = Ready None"
      using listen_run_terminated [OF _ 2(1)] poll by simp_all
    then show ?thesis
      using poll 2(2) True by (auto simp: Cons_eq_append_conv dest!: arg_cong [where f = set])
  next
    case False
    then show ?thesis
      using Cons.IH [OF False 2(1)] poll 2(2) yielded_Cons [of p qs] by (auto simp: Cons_eq_append_conv)
  qed
qed simp

text \<open>
  What a poll answers once \<open>arrived\<close> has arrived and \<open>k\<close> connections were delivered.
\<close>

definition listen_answer ::
  "('i \<Rightarrow> ('e, 'c) result) \<Rightarrow> 'i option list \<Rightarrow> nat \<Rightarrow> ('c \<times> tunnel_side) option poll" where
  "listen_answer accept arrived k =
    (if k < length (started accept arrived) then Ready (Some (started accept arrived ! k, Listen))
     else if None \<in> set arrived then Ready None
     else Pending)"

lemma accept_loop_open:
  "accept_loop accept q = (r, q') \<Longrightarrow>
    case r of Pending \<Rightarrow> q' = [] \<and> None \<notin> set q | Ready None \<Rightarrow> None \<in> set q
     | Ready (Some c) \<Rightarrow> None \<in> set q \<longleftrightarrow> None \<in> set q'"
  by (induction accept q rule: accept_loop.induct) (auto split: sum.splits poll.splits option.splits)

lemma listen_poll_answer:
  assumes "listen_poll_next accept s = (p, s')" "\<not> is_terminated s"
  shows "p = listen_answer accept (endpoint s) 0"
    and "is_terminated s' \<Longrightarrow> listen_answer accept (endpoint s @ later) k = Ready None"
    and "\<not> is_terminated s' \<Longrightarrow>
      listen_answer accept (endpoint s @ later) (length (yielded [p]) + k) = listen_answer accept (endpoint s' @ later) k"
  using assms accept_loop_started [of accept "endpoint s" _ _ "[]"] accept_loop_started [of accept "endpoint s" _ _ later]
    accept_loop_open [of accept "endpoint s"]
  by (auto simp: listen_poll_next_def listen_answer_def Let_def split: prod.splits poll.splits option.splits)

lemma listen_run_answers:
  "\<not> is_terminated s \<Longrightarrow> listen_run accept bs s = (ps, s') \<Longrightarrow> length ps = length bs \<and>
    (\<forall>n < length bs. ps ! n =
      listen_answer accept (endpoint s @ concat (take (Suc n) bs)) (length (yielded (take n ps))))"
proof (induction bs arbitrary: s ps)
  case (Cons b bs)
  obtain p s1 where 1: "listen_poll_next accept (s\<lparr>endpoint := endpoint s @ b\<rparr>) = (p, s1)" by fastforce
  obtain qs where 2: "listen_run accept bs s1 = (qs, s')" "ps = p # qs"
    using Cons.prems(2) 1 by (auto split: prod.splits)
  note poll = listen_poll_answer [OF 1]
  have first: "p = listen_answer accept (endpoint s @ b) 0" using poll(1) Cons.prems(1) by simp
  have "length qs = length bs \<and> (\<forall>n < length bs. qs ! n =
      listen_answer accept (endpoint s @ b @ concat (take (Suc n) bs)) (length (yielded [p]) + length (yielded (take n qs))))"
  proof (cases "is_terminated s1")
    case True
    then show ?thesis
      using listen_run_terminated [OF True 2(1)] poll(2) Cons.prems(1) by simp
  next
    case False
    then show ?thesis
      using Cons.IH [OF False 2(1)] poll(3) Cons.prems(1) by simp
  qed
  moreover have "length (yielded (take (Suc n) ps)) = length (yielded [p]) + length (yielded (take n qs))" for n
    using yielded_Cons [of p "take n qs"] 2(2) by simp
  ultimately show ?case
    using first 2(2) by (auto simp: less_Suc_eq_0_disj)
qed simp

text \<open>
  C39: the stream of a listening endpoint yields every connection that starts before the endpoint
  closes, in order of arrival and as the listening side, whatever the timing of arrivals and
  polls. Each poll answers with the next connection not yet delivered if one has arrived;
  otherwise it ends the stream if the endpoint was closed, and is pending if it was not.
  So connections that fail to start are passed over and never end the stream, no connection waits
  behind them, and the stream ends exactly when the endpoint closed, at the first poll after its
  last connection, and stays ended.
\<close>

theorem listen_endpoint_connections:
  assumes "listen_run accept bs (from_endpoint addr []) = (ps, s)"
  shows "length ps = length bs \<and>
    (\<forall>n < length bs. let arrived = concat (take (Suc n) bs); delivered = yielded (take n ps) in
      ps ! n = (if length delivered < length (started accept arrived)
                then Ready (Some (started accept arrived ! length delivered, Listen))
                else if None \<in> set arrived then Ready None else Pending)) \<and>
    listening (started accept (concat bs)) =
      yielded ps @ (if is_terminated s then [] else listening (started accept (endpoint s))) \<and>
    (is_terminated s \<longleftrightarrow> Ready None \<in> set ps) \<and>
    (\<forall>xs ys. ps = xs @ Ready None # ys \<longrightarrow> set ys \<subseteq> {Ready None})"
  using listen_run_started [OF _ assms] listen_run_answers [OF _ assms]
  by (simp add: from_endpoint_def listen_answer_def Let_def)

theorem listen_endpoint_connections_witness:
  "\<exists>s. listen_run (\<lambda>i :: nat. if i = 2 then Err () else Ok (i + 10))
     [[Some 1, Some 5], [Some 2], [Some 2], [None], [Some 4]] (from_endpoint (SockV4 ipv4_localhost 5000) []) =
   ([Ready (Some (11, Listen)), Ready (Some (15, Listen)), Pending, Ready None, Ready None], s)"
proof -
  let ?acc = "\<lambda>i :: nat. if i = 2 then Err () else Ok (i + 10)"
  let ?bs = "[[Some 1, Some 5], [Some 2], [Some 2], [None], [Some 4]]"
  obtain ps s where r: "listen_run ?acc ?bs (from_endpoint (SockV4 ipv4_localhost 5000) []) = (ps, s)" by fastforce
  note ps = listen_endpoint_connections [OF r]
  have at: "ps ! n = (let arrived = concat (take (Suc n) ?bs); delivered = yielded (take n ps) in
      if length delivered < length (started ?acc arrived) then Ready (Some (started ?acc arrived ! length delivered, Listen))
      else if None \<in> set arrived then Ready None else Pending)" if "n < 5" for n
    using ps that by (simp add: Let_def)
  have len: "length ps = 5" using ps by simp
  have 0: "ps ! 0 = Ready (Some (11, Listen))" using at [of 0] by simp
  then have t1: "take 1 ps = [Ready (Some (11, Listen))]" using len by (simp add: take_Suc_conv_app_nth)
  then have 1: "ps ! 1 = Ready (Some (15, Listen))" using at [of 1] by simp
  then have t2: "take 2 ps = [Ready (Some (11, Listen)), Ready (Some (15, Listen))]"
    using t1 len take_Suc_conv_app_nth [of 1 ps] by (simp add: numeral_2_eq_2)
  then have 2: "ps ! 2 = Pending" using at [of 2] by simp
  then have t3: "take 3 ps = [Ready (Some (11, Listen)), Ready (Some (15, Listen)), Pending]"
    using t2 len take_Suc_conv_app_nth [of 2 ps] by simp
  then have 3: "ps ! 3 = Ready None" using at [of 3] by simp
  then have t4: "take 4 ps = [Ready (Some (11, Listen)), Ready (Some (15, Listen)), Pending, Ready None]"
    using t3 len take_Suc_conv_app_nth [of 3 ps] by simp
  then have 4: "ps ! 4 = Ready None" using at [of 4] by simp
  then have "ps = [Ready (Some (11, Listen)), Ready (Some (15, Listen)), Pending, Ready None, Ready None]"
    using t4 len take_Suc_conv_app_nth [of 4 ps] by simp
  then show ?thesis using r by blast
qed

text \<open>Streams given by the answers to their polls.\<close>

fun script_poll :: "'a poll list \<Rightarrow> 'a option poll \<times> 'a poll list" where
  "script_poll [] = (Ready None, [])"
| "script_poll (Pending # ps) = (Pending, ps)"
| "script_poll (Ready x # ps) = (Ready (Some x), ps)"

fun script_items :: "'a poll list \<Rightarrow> 'a list" where
  "script_items [] = []"
| "script_items (Pending # ps) = script_items ps"
| "script_items (Ready x # ps) = x # script_items ps"

datatype ('k, 's) set_op = PollSet lock_state | AttachTo "('k, 's) named_boxed_stream" | DetachFrom 'k

fun set_run ::
  "('m, 'k, ('k, 'a poll list) named_boxed_stream, 'a) stream_map \<Rightarrow> ('k, 'a poll list) set_op list \<Rightarrow>
   'm dynamic_stream_set \<Rightarrow> (('k \<times> 'a) list \<times> 'm dynamic_stream_set) option" where
  "set_run M [] d = Some ([], d)"
| "set_run M (PollSet lock # ops) d =
    (case stream_set_poll_next M script_poll lock d of
       None \<Rightarrow> None
     | Some (r, woken, d') \<Rightarrow> map_option (\<lambda>(xs, d'). (yielded [r] @ xs, d')) (set_run M ops d'))"
| "set_run M (AttachTo st # ops) d =
    (case attach M False st d of None \<Rightarrow> None | Some (old, d') \<Rightarrow> set_run M ops d')"
| "set_run M (DetachFrom k # ops) d =
    (case detach M False k d of None \<Rightarrow> None | Some (old, d') \<Rightarrow> set_run M ops d')"

fun touches :: "'k \<Rightarrow> ('k, 's) set_op \<Rightarrow> bool" where
  "touches k (PollSet lock) = False"
| "touches k (AttachTo st) = (stream_id st = k)"
| "touches k (DetachFrom j) = (j = k)"

definition of_stream :: "'k \<Rightarrow> ('k \<times> 'a) list \<Rightarrow> 'a list" where
  "of_stream k xs = map snd (filter (\<lambda>p. fst p = k) xs)"

definition left_in :: "('m \<Rightarrow> 'k \<Rightarrow> ('k, 'a poll list) named_boxed_stream option) \<Rightarrow> 'm dynamic_stream_set \<Rightarrow> 'k \<Rightarrow> 'a list" where
  "left_in attached d k = (case attached (set_streams d) k of None \<Rightarrow> [] | Some st \<Rightarrow> script_items (boxed st))"

lemma of_stream_append: "of_stream k (xs @ ys) = of_stream k xs @ of_stream k ys"
  by (simp add: of_stream_def)

lemma named_script_poll:
  "named_poll_next script_poll st = (r, st') \<Longrightarrow> script_items (boxed st) = yielded [r] @ script_items (boxed st')"
  by (cases "boxed st" rule: script_poll.cases) (auto simp: named_poll_next_def)

lemma named_script_end: "named_poll_next script_poll st = (Ready None, st') \<Longrightarrow> script_items (boxed st) = []"
  by (cases "boxed st" rule: script_poll.cases) (auto simp: named_poll_next_def)

lemma poll_set_items:
  assumes "stream_map_laws M attached" "stream_set_poll_next M script_poll lock d = Some (r, woken, d')"
  shows "left_in attached d k = of_stream k (yielded [r]) @ left_in attached d' k"
proof (cases lock)
  case Unlocked
  then obtain m where m: "sm_poll M (named_poll_next script_poll) (set_streams d) = (r, m)" "set_streams d' = m"
    using assms(2) by (auto simp: stream_set_poll_next_def split: prod.splits)
  show ?thesis
  proof (cases "\<exists>x. r = Ready (Some (k, x))")
    case True
    then show ?thesis
      using stream_map_laws.poll_item [OF assms(1), of "named_poll_next script_poll" "set_streams d" k _ m] m
      by (auto simp: left_in_def of_stream_def dest!: named_script_poll)
  next
    case False
    then have "of_stream k (yielded [r]) = []"
      by (cases "[r]" rule: yielded.cases) (auto simp: of_stream_def)
    then show ?thesis
      using stream_map_laws.poll_other [OF assms(1) m(1), of k] False m(2)
      by (auto simp: left_in_def named_script_end dest: named_script_poll)
  qed
qed (use assms(2) in \<open>auto simp: stream_set_poll_next_def of_stream_def\<close>)

lemma attach_items:
  assumes "stream_map_laws M attached" "attach M False st d = Some (old, d')" "stream_id st \<noteq> k"
  shows "left_in attached d' k = left_in attached d k"
  using assms(2,3) stream_map_laws.insert_result [OF assms(1), of "stream_id st" st "set_streams d"]
  by (auto simp: attach_def left_in_def split: prod.splits)

lemma detach_items:
  assumes "stream_map_laws M attached" "detach M False j d = Some (old, d')" "j \<noteq> k"
  shows "left_in attached d' k = left_in attached d k"
  using assms(2,3) stream_map_laws.remove_result [OF assms(1), of j "set_streams d"]
  by (auto simp: detach_def left_in_def split: prod.splits)

lemma set_run_items:
  assumes "stream_map_laws M attached" "set_run M ops d = Some (xs, d')" "\<forall>p \<in> set ops. \<not> touches k p"
  shows "left_in attached d k = of_stream k xs @ left_in attached d' k"
  using assms(2,3)
proof (induction ops arbitrary: d xs)
  case (Cons p ops)
  show ?case
  proof (cases p)
    case (PollSet lock)
    then obtain r woken d1 ys where "stream_set_poll_next M script_poll lock d = Some (r, woken, d1)"
        "set_run M ops d1 = Some (ys, d')" "xs = yielded [r] @ ys"
      using Cons.prems(1) by (auto split: option.splits)
    then show ?thesis
      using poll_set_items [OF assms(1), of lock d r woken d1 k] Cons.IH [of d1 ys] Cons.prems(2)
      by (simp add: of_stream_append)
  next
    case (AttachTo st)
    then show ?thesis
      using attach_items [OF assms(1), of st d _ _ k] Cons.IH Cons.prems by (fastforce split: option.splits prod.splits)
  next
    case (DetachFrom j)
    then show ?thesis
      using detach_items [OF assms(1), of j d _ _ k] Cons.IH Cons.prems by (fastforce split: option.splits prod.splits)
  qed
qed (simp add: of_stream_def)

lemma poll_set_pending:
  assumes "stream_map_laws M attached" "stream_set_poll_next M script_poll Unlocked d = Some (Pending, woken, d')"
  shows "attached (set_streams d') \<noteq> Map.empty"
    and "attached (set_streams d) k = Some st \<Longrightarrow>
      boxed st = [] \<and> attached (set_streams d') k = None \<or>
      (\<exists>rest. boxed st = Pending # rest \<and> attached (set_streams d') k = Some (st\<lparr>boxed := rest\<rparr>))"
proof -
  have m: "sm_poll M (named_poll_next script_poll) (set_streams d) = (Pending, set_streams d')"
    using assms(2) by (auto simp: stream_set_poll_next_def split: prod.splits)
  show "attached (set_streams d') \<noteq> Map.empty" by (rule stream_map_laws.poll_pending [OF assms(1) m])
  show "boxed st = [] \<and> attached (set_streams d') k = None \<or>
      (\<exists>rest. boxed st = Pending # rest \<and> attached (set_streams d') k = Some (st\<lparr>boxed := rest\<rparr>))"
    if "attached (set_streams d) k = Some st"
    using stream_map_laws.poll_pending_asked [OF assms(1) m that]
    by (cases "boxed st" rule: script_poll.cases) (auto simp: named_poll_next_def)
qed

text \<open>
  C40: a dynamic set of streams neither loses nor reorders nor repeats items, and its polls answer
  for what the streams did. Whatever streams are attached and detached meanwhile, and however often
  a poll finds the lock taken, the items delivered under the id of a stream that is left alone,
  followed by those the stream still holds, are the items the stream had. A next poll then panics
  only at a poisoned lock; it is pending, asks to be woken and changes nothing exactly when the
  lock is taken; it ends the set only when no stream is left in it, every item of the stream having
  been delivered; and with the lock free it is pending only when some stream is left and the stream
  was asked and had no item ready.
\<close>

theorem stream_set_delivers:
  assumes "stream_map_laws M attached" "set_run M ops d = Some (xs, d1)" "\<forall>p \<in> set ops. \<not> touches k p"
  shows "left_in attached d k = of_stream k xs @ left_in attached d1 k \<and>
    (case stream_set_poll_next M script_poll lock d1 of
       None \<Rightarrow> lock = Poisoned
     | Some (r, woken, d2) \<Rightarrow>
         lock \<noteq> Poisoned \<and>
         left_in attached d k = of_stream k (xs @ yielded [r]) @ left_in attached d2 k \<and>
         (woken \<longleftrightarrow> lock = Locked) \<and>
         (lock = Locked \<longrightarrow> r = Pending \<and> d2 = d1) \<and>
         (r = Ready None \<longrightarrow> attached (set_streams d2) = Map.empty \<and> left_in attached d k = of_stream k xs) \<and>
         (lock = Unlocked \<and> r = Pending \<longrightarrow> attached (set_streams d2) \<noteq> Map.empty \<and>
           (\<forall>st. attached (set_streams d1) k = Some st \<longrightarrow>
             boxed st = [] \<and> attached (set_streams d2) k = None \<or>
             (\<exists>rest. boxed st = Pending # rest \<and> attached (set_streams d2) k = Some (st\<lparr>boxed := rest\<rparr>)))))"
proof (cases "stream_set_poll_next M script_poll lock d1")
  case None
  then have "lock = Poisoned" by (cases lock) (simp_all add: stream_set_poll_next_def)
  then show ?thesis using None set_run_items [OF assms] by simp
next
  case (Some p)
  obtain r woken d2 where p: "p = (r, woken, d2)" by (cases p)
  note poll = Some [unfolded p]
  have items: "left_in attached d k = of_stream k (xs @ yielded [r]) @ left_in attached d2 k"
    using set_run_items [OF assms] poll_set_items [OF assms(1) poll, of k] by (simp add: of_stream_append)
  have lock: "lock \<noteq> Poisoned" "woken \<longleftrightarrow> lock = Locked" "lock = Locked \<longrightarrow> r = Pending \<and> d2 = d1"
    using poll by (cases lock; auto simp: stream_set_poll_next_def split: prod.splits)+
  have "attached (set_streams d2) = Map.empty" if "r = Ready None"
    using poll that lock stream_map_laws.poll_end [OF assms(1), of "named_poll_next script_poll" "set_streams d1"]
    by (cases lock) (auto simp: stream_set_poll_next_def split: prod.splits)
  moreover from this have "left_in attached d k = of_stream k xs" if "r = Ready None"
    using items that by (simp add: left_in_def)
  moreover have "attached (set_streams d2) \<noteq> Map.empty \<and> (\<forall>st. attached (set_streams d1) k = Some st \<longrightarrow>
      boxed st = [] \<and> attached (set_streams d2) k = None \<or>
      (\<exists>rest. boxed st = Pending # rest \<and> attached (set_streams d2) k = Some (st\<lparr>boxed := rest\<rparr>)))"
    if "lock = Unlocked" "r = Pending"
    using poll_set_pending [OF assms(1) poll [unfolded that]] by blast
  moreover note set_run_items [OF assms] items lock
  ultimately show ?thesis unfolding Some p prod.case option.case by iprover
qed

text \<open>Only a poisoned lock makes an operation panic.\<close>

lemma set_run_no_panic: "PollSet Poisoned \<notin> set ops \<Longrightarrow> set_run M ops d \<noteq> None"
proof (induction ops arbitrary: d)
  case (Cons p ops)
  have "\<exists>d'. set_run M (p # ops) d = None \<longrightarrow> set_run M ops d' = None"
    using Cons.prems
    by (cases p; cases "case p of PollSet l \<Rightarrow> l | _ \<Rightarrow> Locked")
      (auto simp: stream_set_poll_next_def attach_def detach_def split: prod.splits)
  then show ?case using Cons.IH Cons.prems by (metis list.set_intros(2))
qed simp

definition sample_set :: "(nat list \<times> (nat \<rightharpoonup> (nat, nat poll list) named_boxed_stream)) dynamic_stream_set" where
  "sample_set = \<lparr>set_streams = ([1], [1 \<mapsto> new_pre_boxed 1 [Ready 7, Pending, Ready 8]])\<rparr>"

definition sample_ops :: "(nat, nat poll list) set_op list" where
  "sample_ops = [PollSet Unlocked, AttachTo (new_pre_boxed 2 [Ready 5]), PollSet Locked, PollSet Unlocked,
     DetachFrom 2, PollSet Unlocked]"

theorem stream_set_delivers_witness:
  "\<exists>xs d1. set_run ordered_streams sample_ops sample_set = Some (xs, d1) \<and>
     of_stream 1 xs @ left_in ordered_attached d1 1 = [7, 8] \<and>
     stream_set_poll_next ordered_streams script_poll Locked d1 = Some (Pending, True, d1)"
proof -
  have l: "left_in ordered_attached sample_set 1 = [7, 8]"
    by (simp add: sample_set_def left_in_def ordered_attached_def new_pre_boxed_def)
  obtain xs d1 where r: "set_run ordered_streams sample_ops sample_set = Some (xs, d1)"
    using set_run_no_panic [of sample_ops ordered_streams sample_set] by (auto simp: sample_ops_def)
  have "\<forall>p \<in> set sample_ops. \<not> touches 1 p" by (simp add: sample_ops_def new_pre_boxed_def)
  note ps = stream_set_delivers [OF ordered_set.stream_map_laws_axioms r this, of Locked]
  have "stream_set_poll_next ordered_streams script_poll Locked d1 = Some (Pending, True, d1)"
    using ps by (auto split: option.splits)
  then show ?thesis using r l ps by auto
qed

section \<open>Handles\<close>

text \<open>
  The set and its handles are pointers to one map behind a mutex. The store has the maps by
  address; a handle is made of the pointer of the set, and polls what it points to.
\<close>

type_synonym 'm mutex_store = "nat \<Rightarrow> 'm dynamic_stream_set"

datatype stream_set_pointer = StreamSet nat | StreamSetHandle nat

fun pointee :: "stream_set_pointer \<Rightarrow> nat" where
  "pointee (StreamSet p) = p"
| "pointee (StreamSetHandle p) = p"

definition stream_set_handle :: "stream_set_pointer \<Rightarrow> stream_set_pointer" where
  "stream_set_handle self = StreamSetHandle (pointee self)"

definition stream_set_into_handle :: "stream_set_pointer \<Rightarrow> stream_set_pointer" where
  "stream_set_into_handle self = StreamSetHandle (pointee self)"

definition pointer_poll_next ::
  "('m, 'k, ('k, 's) named_boxed_stream, 'a) stream_map \<Rightarrow> ('s \<Rightarrow> 'a option poll \<times> 's) \<Rightarrow> lock_state \<Rightarrow>
   stream_set_pointer \<Rightarrow> 'm mutex_store \<Rightarrow> (('k \<times> 'a) option poll \<times> bool \<times> 'm mutex_store) option" where
  "pointer_poll_next M poll_next lock self h =
    map_option (\<lambda>(r, woken, d). (r, woken, h(pointee self := d)))
      (stream_set_poll_next M poll_next lock (h (pointee self)))"

text \<open>What a set and its handles are asked, each through its own pointer, at one address.\<close>

fun shared_run ::
  "('m, 'k, ('k, 'a poll list) named_boxed_stream, 'a) stream_map \<Rightarrow>
   (stream_set_pointer \<times> ('k, 'a poll list) set_op) list \<Rightarrow> 'm mutex_store \<Rightarrow> (('k \<times> 'a) list \<times> 'm mutex_store) option" where
  "shared_run M [] h = Some ([], h)"
| "shared_run M ((p, PollSet lock) # ops) h =
    (case pointer_poll_next M script_poll lock p h of
       None \<Rightarrow> None
     | Some (r, woken, h') \<Rightarrow> map_option (\<lambda>(xs, h'). (yielded [r] @ xs, h')) (shared_run M ops h'))"
| "shared_run M ((p, AttachTo st) # ops) h =
    (case attach M False st (h (pointee p)) of
       None \<Rightarrow> None | Some (old, d) \<Rightarrow> shared_run M ops (h(pointee p := d)))"
| "shared_run M ((p, DetachFrom k) # ops) h =
    (case detach M False k (h (pointee p)) of
       None \<Rightarrow> None | Some (old, d) \<Rightarrow> shared_run M ops (h(pointee p := d)))"

text \<open>
  Through whichever of the pointers the calls come, the items are those of one set that is given
  all of the calls: what is attached to the set is yielded to its handles.
\<close>

lemma handles_share_set:
  assumes "\<forall>op \<in> set ops. fst op \<in> {self, stream_set_handle self, stream_set_into_handle self}"
  shows "map_option fst (shared_run M ops h) = map_option fst (set_run M (map snd ops) (h (pointee self)))"
  using assms
proof (induction ops arbitrary: h)
  case (Cons op ops)
  obtain p x where op: "op = (p, x)" by fastforce
  have p: "pointee p = pointee self"
    using Cons.prems op by (auto simp: stream_set_handle_def stream_set_into_handle_def)
  have IH: "map_option fst (shared_run M ops (h(pointee self := d))) = map_option fst (set_run M (map snd ops) d)" for d
    using Cons.prems by (subst Cons.IH) simp_all
  have yields: "map_option (fst \<circ> (\<lambda>(xs, h'). (ys @ xs, h'))) z = map_option (\<lambda>xs. ys @ xs) (map_option fst z)"
    for ys :: "('a \<times> 'b) list" and z :: "(('a \<times> 'b) list \<times> 'z) option"
    by (cases z) auto
  show ?case
    unfolding op
    by (cases x) (auto simp: p IH pointer_poll_next_def option.map_comp yields split: option.splits)
qed simp

end
