(* ===== verification/Command_Line.thy ===== *)
theory Command_Line
  imports Demand_Proxy Tunnel_Source
begin

text \<open>
  The command-line program around the library: the argument validators
  (\<open>util/validators.rs\<close>), the arguments of the two modes (\<open>snocat-cli/src/main.rs\<close>), and what
  \<open>client_main\<close> and \<open>server_main\<close> put together (\<open>client.rs\<close>, \<open>server.rs\<close>). Name resolution and
  the file system are parameters; the option parser of \<open>clap\<close> is given by the values it found.
\<close>

section \<open>Validators\<close>

definition validate_existing_file :: "(rstr \<Rightarrow> bool) \<Rightarrow> rstr \<Rightarrow> (rstr, unit) result" where
  "validate_existing_file path_exists v =
    (if \<not> path_exists v then Err (lit ''A file must exist at the given path'') else Ok ())"

definition parse_socketaddr :: "(rstr \<Rightarrow> (anyhow, socket_addr list) result) \<Rightarrow> rstr \<Rightarrow> (anyhow, socket_addr) result" where
  "parse_socketaddr to_socket_addrs v =
    and_then (to_socket_addrs v) (\<lambda>items.
      ok_or (lit ''No addresses were resolved from the given host'') (case items of [] \<Rightarrow> None | a # as \<Rightarrow> Some a))"

definition parse_ipaddr :: "rstr \<Rightarrow> (anyhow, ip_addr) result" where
  "parse_ipaddr v =
    (case parse_ipv4 v of
       Some addr \<Rightarrow> Ok (V4 addr)
     | None \<Rightarrow>
         (case parse_ipv6 v of
            Some addr \<Rightarrow> Ok (V6 addr)
          | None \<Rightarrow> Err (lit ''Could not parse input as ipv4 or ipv6 address'')))"

definition validate_socketaddr :: "(rstr \<Rightarrow> (anyhow, socket_addr list) result) \<Rightarrow> rstr \<Rightarrow> (rstr, unit) result" where
  "validate_socketaddr to_socket_addrs v = map_ok (\<lambda>_. ()) (parse_socketaddr to_socket_addrs v)"

definition validate_ipaddr :: "rstr \<Rightarrow> (rstr, unit) result" where
  "validate_ipaddr v = map_ok (\<lambda>_. ()) (parse_ipaddr v)"

text \<open>Every address is accepted in the form in which it is printed.\<close>

lemma show_groups_chars: "c \<in> set (show_groups gs) \<Longrightarrow> to_digit 16 c \<noteq> None \<or> c = colon"
  by (induction gs rule: show_groups.induct) (auto dest: show_hex_chars)

lemma show_groups_no_dot: "dot \<notin> set (show_groups gs)"
  using show_groups_chars [of dot gs] by (auto simp: to_digit_def)

lemma no_ipv4_after_colon: "read_ipv4_addr (colon # s) = None"
  by (simp add: read_ipv4_addr_def read_octet_def read_separator_def read_number_def to_digit_def)

lemma parse_ipv4_show_ipv6: "parse_ipv4 (show_ipv6 a) = None"
proof (cases "take 6 a = [0, 0, 0, 0, 0, 0xffff]")
  case True
  then show ?thesis by (simp add: show_ipv6_def parse_ipv4_def no_ipv4_after_colon lit_def)
next
  case False
  then have "dot \<notin> set (show_ipv6 a)"
    by (auto simp: show_ipv6_def show_groups_no_dot split: prod.splits)
  then show ?thesis by (simp add: parse_ipv4_def no_ipv4_without_dot)
qed

lemma parse_show_ipaddr:
  assumes "\<And>b. a = V6 b \<Longrightarrow> ipv6_wf b"
  shows "parse_ipaddr (show_ip a) = Ok a"
  using assms by (cases a) (simp_all add: parse_ipaddr_def parse_show_ipv4 parse_ipv4_show_ipv6 parse_show_ipv6)

section \<open>Arguments\<close>

record client_args =
  authority_cert :: "rstr option"
  driver_host :: socket_addr
  driver_san :: rstr
  proxy_target_host :: socket_addr

record server_args =
  cert :: rstr
  key :: rstr
  quinn_bind_addr :: socket_addr
  tcp_bind_ip :: ip_addr
  tcp_bind_port_range :: "port \<times> port"

text \<open>\<open>None\<close> is the panic of \<open>unwrap\<close> on a missing value.\<close>

definition client_arg_handling ::
  "(rstr \<Rightarrow> (anyhow, socket_addr list) result) \<Rightarrow> (rstr \<Rightarrow> rstr option) \<Rightarrow> (anyhow, client_args) result option" where
  "client_arg_handling to_socket_addrs value_of =
    Option.bind (value_of (lit ''driver'')) (\<lambda>driver.
    case parse_socketaddr to_socket_addrs driver of
      Inl e \<Rightarrow> Some (Err e)
    | Inr host \<Rightarrow>
        Option.bind (value_of (lit ''driver-san'')) (\<lambda>san.
        Option.bind (value_of (lit ''target'')) (\<lambda>target.
        Some (map_ok (\<lambda>t. \<lparr>authority_cert = value_of (lit ''authority''), driver_host = host, driver_san = san,
          proxy_target_host = t\<rparr>) (parse_socketaddr to_socket_addrs target)))))"

definition server_arg_handling ::
  "(rstr \<Rightarrow> (anyhow, socket_addr list) result) \<Rightarrow> (rstr \<Rightarrow> rstr option) \<Rightarrow> (anyhow, server_args) result option" where
  "server_arg_handling to_socket_addrs value_of =
    Option.bind (value_of (lit ''cert'')) (\<lambda>cert.
    Option.bind (value_of (lit ''key'')) (\<lambda>key.
    Option.bind (value_of (lit ''quic'')) (\<lambda>quic.
    case parse_socketaddr to_socket_addrs quic of
      Inl e \<Rightarrow> Some (Err e)
    | Inr quic_addr \<Rightarrow>
        Option.bind (value_of (lit ''tcp'')) (\<lambda>tcp.
        case parse_ipaddr tcp of
          Inl e \<Rightarrow> Some (Err e)
        | Inr bind_ip \<Rightarrow>
            Option.bind (value_of (lit ''bind_range'')) (\<lambda>range.
            Some (map_ok (\<lambda>r. \<lparr>cert = cert, key = key, quinn_bind_addr = quic_addr,
              tcp_bind_ip = bind_ip, tcp_bind_port_range = r\<rparr>) (parse_port_range range)))))))"

text \<open>The subcommand decides what runs; the two main functions and the certificate generator are arguments.\<close>

definition main_args_handler ::
  "(rstr \<Rightarrow> (anyhow, socket_addr list) result) \<Rightarrow> (server_args \<Rightarrow> (anyhow, unit) result) \<Rightarrow>
   (client_args \<Rightarrow> (anyhow, unit) result) \<Rightarrow> (rstr \<Rightarrow> rstr \<Rightarrow> (anyhow, unit) result) \<Rightarrow>
   rstr \<times> (rstr \<Rightarrow> rstr option) \<Rightarrow> (anyhow, unit) result option" where
  "main_args_handler to_socket_addrs server_main client_main certgen_main matches =
    (case matches of (subcommand, value_of) \<Rightarrow>
      if subcommand = lit ''server'' then
        map_option (\<lambda>r. and_then r server_main) (server_arg_handling to_socket_addrs value_of)
      else if subcommand = lit ''client'' then
        map_option (\<lambda>r. and_then r client_main) (client_arg_handling to_socket_addrs value_of)
      else if subcommand = lit ''cert'' then
        Option.bind (value_of (lit ''path'')) (\<lambda>path.
        Option.bind (value_of (lit ''san'')) (\<lambda>san. Some (certgen_main path san)))
      else None)"

section \<open>The server\<close>

text \<open>
  The demand proxy of the server. The addresses it binds are fixed; of the configuration it takes
  the range of ports only.
\<close>

definition server_demand_proxy :: "server_args \<Rightarrow> peer_tracker \<Rightarrow> demand_proxy_service \<times> port_range_allocator" where
  "server_demand_proxy cfg p =
    (demand_proxy_service_new p [V6 (replicate 8 0), V4 (Ipv4 0 0 0 0)],
     allocator_new (fst (tcp_bind_port_range cfg)) (snd (tcp_bind_port_range cfg)))"

text \<open>
  What the handler of the demand proxy awaits: the outcomes of binding and of the listener task.
\<close>

record ('j, 'l) demand_env =
  env_json :: "'j demand_json"
  env_alive :: "peer_record \<Rightarrow> bool"
  env_bind :: "socket_addr \<Rightarrow> (anyhow, 'l) result"
  env_listeners :: "'l list \<Rightarrow> rstr option \<times> port \<Rightarrow> tunnel_name \<Rightarrow> (anyhow service_error, unit) result"

definition demand_service ::
  "('j, 'l) demand_env \<Rightarrow> demand_proxy_service \<times> port_range_allocator \<Rightarrow> (tunnel_id, anyhow) service" where
  "demand_service E s =
    \<lparr>accepts = demand_accepts,
     handle = demand_service_handle (env_json E) (env_alive E) (fst (allocate (snd s))) (env_bind E)
       (env_listeners E) (fst s)\<rparr>"

definition server_services ::
  "('j, 'l) demand_env \<Rightarrow> server_args \<Rightarrow> peer_tracker \<Rightarrow> (tunnel_id, anyhow) preset_service_registry" where
  "server_services E cfg p =
    add_service_blocking (\<lambda>e. e) (demand_service E (server_demand_proxy cfg p)) preset_registry_new"

text \<open>Both modes register the id, name and attributes of a tunnel in memory.\<close>

type_synonym in_memory_registry_record = "tunnel_id \<times> tunnel_name \<times> authentication_attributes"

definition main_daemon_config ::
  "('m, tunnel_name, in_memory_registry_record) dashmap \<Rightarrow>
   (in_memory_registry_record, 'm in_memory, tunnel_name, 'j in_memory_error) daemon_config" where
  "main_daemon_config D =
    \<lparr>construct_record = (\<lambda>t name attributes. Ok ((t, name, attributes), attributes)),
     registry_register = in_memory_register D None,
     registry_deregister = in_memory_deregister_identifier D None\<rparr>"

text \<open>Handshakes that fail are left out of the stream of connections.\<close>

definition established :: "('c \<Rightarrow> ('x, 'd) result) \<Rightarrow> 'c \<times> tunnel_side \<Rightarrow> ('d \<times> tunnel_side) option" where
  "established handshake c =
    (case c of (connecting, side) \<Rightarrow>
      (case handshake connecting of Inr connection \<Rightarrow> Some (connection, side) | Inl e \<Rightarrow> None))"

section \<open>The client\<close>

definition client_tcp_service :: tcp_stream_service where
  "client_tcp_service = \<lparr>local_only = False\<rparr>"

text \<open>The demand for a proxy to the target of the configuration.\<close>

definition client_demand ::
  "'j demand_json \<Rightarrow> client_args \<Rightarrow>
   (demand_proxy_address_error,
    (socket_addr list \<times> (unit client_error, unit) result io, unit) request) result" where
  "client_demand J cfg =
    request_new demand_build_addr (demand_client J [])
      (Dns (Dns4 (show_ip (socket_ip (proxy_target_host cfg))) (socket_port (proxy_target_host cfg))))"

text \<open>Connections are numbered; a number that is taken is a failed assertion.\<close>

definition add_new_connection ::
  "('m, 32 word, (32 word, 's) named_boxed_stream, 'a) stream_map \<Rightarrow> 's \<Rightarrow> 32 word \<times> 'm dynamic_stream_set \<Rightarrow>
   (32 word \<times> 32 word \<times> 'm dynamic_stream_set) option" where
  "add_new_connection M tunnel w =
    (case w of (current_connection_id, d) \<Rightarrow>
      (case attach_stream M False current_connection_id tunnel d of
         Some (None, d') \<Rightarrow> Some (current_connection_id, current_connection_id + 1, d')
       | _ \<Rightarrow> None))"

text \<open>How the task that holds the demand ends, and how its join is flattened.\<close>

datatype 'e watcher_end = WaitClosed "('e, unit) result" | ShutdownRequested

fun watcher_result :: "'e watcher_end \<Rightarrow> ('e, unit) result" where
  "watcher_result (WaitClosed (Inl e)) = Err e"
| "watcher_result (WaitClosed (Inr _)) = Ok ()"
| "watcher_result ShutdownRequested = Ok ()"

datatype join_error = JoinPanicked | JoinCancelled rstr

fun flatten_watcher :: "(join_error, (anyhow, unit) result) result \<Rightarrow> (anyhow, unit) result" where
  "flatten_watcher (Inr (Inr x)) = Ok x"
| "flatten_watcher (Inr (Inl e)) = Err e"
| "flatten_watcher (Inl JoinPanicked) = Err (lit ''TCP Watcher panicked and lost context'')"
| "flatten_watcher (Inl (JoinCancelled s)) = Err (lit ''TCP Watcher join handle failed'')"

section \<open>What the two modes make of each other\<close>

lemma show_ip_plain: "\<not> list_ex needs_escaped (show_ip a)"
proof -
  have "c \<noteq> slash \<and> c \<noteq> backslash" if "c \<in> set (show_ipv4 x)" for c x
    using show_ipv4_chars [OF that] by (auto simp: is_digit_def)
  moreover have "c \<noteq> slash \<and> c \<noteq> backslash" if "c \<in> set (show_groups gs)" for c gs
    using show_groups_chars [OF that] by (auto simp: to_digit_def split: if_splits)
  ultimately show ?thesis
    by (cases a) (auto simp: list_ex_iff needs_escaped_def show_ipv6_def lit_def split: prod.splits if_splits)
qed

text \<open>The server binds every interface, whatever address its arguments name.\<close>

lemma server_binds_unspecified: "bind_addrs (fst (server_demand_proxy cfg p)) = [V6 (replicate 8 0)]"
  by (simp add: server_demand_proxy_def demand_proxy_service_new_def handle_dual_stack_addrs_def)

end
