(* ===== verification/Tunnel_Activity.thy ===== *)
theory Tunnel_Activity
  imports Futures
begin

text \<open>
  The count of active streams of a tunnel (\<open>on_active_stream_count_changed\<close> of
  \<open>common/protocol/tunnel/mod.rs\<close>): the streams the tunnel accepts and those it opens are
  merged into one monitored loop (\<open>Futures\<close>), whose count goes through a watch channel to the
  consumer until the loop is over. The watch channel and its stream belong to tokio and are
  a record of operations with their documented behaviour as a locale.
\<close>

section \<open>Watch channels\<close>

record ('v, 'q) watch_ops =
  watch_new :: "'v \<Rightarrow> 'q"
  watch_send :: "'v \<Rightarrow> 'q \<Rightarrow> 'q"
  watch_poll :: "'q \<Rightarrow> 'v option poll \<times> 'q"

text \<open>
  A channel holds the value sent last; its stream yields that value when it was not yielded yet,
  the initial value included, and is pending otherwise. Values sent between two polls are
  skipped but for the last.
\<close>

locale watch_channel =
  fixes W :: "('v, 'q) watch_ops"
    and latest :: "'q \<Rightarrow> 'v"
    and unseen :: "'q \<Rightarrow> bool"
  assumes new_latest: "latest (watch_new W v) = v" "unseen (watch_new W v)"
    and send_latest: "latest (watch_send W v q) = v" "unseen (watch_send W v q)"
    and poll_unseen: "unseen q \<Longrightarrow> watch_poll W q = (r, q') \<Longrightarrow>
      r = Ready (Some (latest q)) \<and> latest q' = latest q \<and> \<not> unseen q'"
    and poll_seen: "\<not> unseen q \<Longrightarrow> watch_poll W q = (r, q') \<Longrightarrow>
      r = Pending \<and> latest q' = latest q \<and> \<not> unseen q'"

definition pair_watch :: "('v, 'v \<times> bool) watch_ops" where
  "pair_watch =
    \<lparr>watch_new = (\<lambda>v. (v, True)), watch_send = (\<lambda>v q. (v, True)),
     watch_poll = (\<lambda>(v, new). (if new then Ready (Some v) else Pending, (v, False)))\<rparr>"

interpretation pair_channel: watch_channel pair_watch fst snd
  by unfold_locales (auto simp: pair_watch_def split: prod.splits)

section \<open>Active streams\<close>

datatype direction = Incoming | Outgoing

text \<open>
  The monitored loop with one task per stream, the channel it publishes its count to, and which
  of the two merged sources have ended. \<open>yields\<close> logs each value the consumer is given,
  together with the numbers of open incoming and outgoing streams at that moment.
\<close>

record 'q activity =
  act_tasks :: "(direction \<times> bound_counter_tracker) list"
  act_world :: counter_world
  act_channel :: 'q
  act_ended :: "direction \<Rightarrow> bool"
  act_over :: bool
  yields :: "(nat \<times> nat \<times> nat) list"

definition open_streams :: "direction \<Rightarrow> 'q activity \<Rightarrow> nat" where
  "open_streams dir a = length (filter (\<lambda>t. fst t = dir) (act_tasks a))"

definition on_active_stream_count_changed :: "(nat, 'q) watch_ops \<Rightarrow> 'q activity" where
  "on_active_stream_count_changed W =
    \<lparr>act_tasks = [], act_world = \<lparr>strong_count = BASELINE_COUNT, watch = 0\<rparr>, act_channel = watch_new W 0,
     act_ended = (\<lambda>_. False), act_over = False, yields = []\<rparr>"

text \<open>
  A stream that opens starts a task with a tracker; a stream that is closed, or fails, ends it:
  the callback ignores the outcome. The stream of counts is over when the loop is, that is, when
  both sources have ended and no stream is open: \<open>try_for_each_concurrent\<close> resolves only when
  its stream has ended and every task it holds has completed, which is the premise of the step.
\<close>

inductive activity_step :: "(nat, 'q) watch_ops \<Rightarrow> 'q activity \<Rightarrow> 'q activity \<Rightarrow> bool" for W where
  stream_opened: "\<not> act_over a \<Longrightarrow> \<not> act_ended a dir \<Longrightarrow> tracker_new_preregistered (act_world a) = (t, w) \<Longrightarrow>
    activity_step W a (a\<lparr>act_tasks := (dir, t) # act_tasks a, act_world := w,
      act_channel := watch_send W (watch w) (act_channel a)\<rparr>)"
| stream_polled: "\<not> act_over a \<Longrightarrow> act_tasks a = xs @ (dir, t) # ys \<Longrightarrow> register_sync t (act_world a) = (t', w) \<Longrightarrow>
    activity_step W a (a\<lparr>act_tasks := xs @ (dir, t') # ys, act_world := w,
      act_channel := if t = Unregistered then watch_send W (watch w) (act_channel a) else act_channel a\<rparr>)"
| stream_closed: "\<not> act_over a \<Longrightarrow> act_tasks a = xs @ (dir, t) # ys \<Longrightarrow> tracker_drop t (act_world a) = w \<Longrightarrow>
    activity_step W a (a\<lparr>act_tasks := xs @ ys, act_world := w,
      act_channel := if t = Registered then watch_send W (watch w) (act_channel a) else act_channel a\<rparr>)"
| source_ended: "activity_step W a (a\<lparr>act_ended := (act_ended a)(dir := True)\<rparr>)"
| consumer_polled: "\<not> act_over a \<Longrightarrow> watch_poll W (act_channel a) = (r, q) \<Longrightarrow>
    activity_step W a (a\<lparr>act_channel := q, yields := yields a @
      (case r of Ready (Some v) \<Rightarrow> [(v, open_streams Incoming a, open_streams Outgoing a)] | _ \<Rightarrow> [])\<rparr>)"
| loop_over: "act_ended a Incoming \<Longrightarrow> act_ended a Outgoing \<Longrightarrow> act_tasks a = [] \<Longrightarrow>
    activity_step W a (a\<lparr>act_over := True\<rparr>)"

text \<open>Seen by its trackers, the loop of a tunnel is a monitored loop without a limit.\<close>

lemma activity_monitored:
  assumes "activity_step W a b"
  shows "(monitor_step None)\<^sup>*\<^sup>* (map snd (act_tasks a), act_world a) (map snd (act_tasks b), act_world b)"
  using assms
proof cases
  case (stream_opened dir t w)
  then show ?thesis by (auto simp: below_limit_def intro!: r_into_rtranclp monitor_step.start_task)
next
  case (stream_polled xs dir t ys t' w)
  then show ?thesis by (auto intro!: r_into_rtranclp monitor_step.poll_task)
next
  case (stream_closed xs dir t ys w)
  then show ?thesis by (auto intro!: r_into_rtranclp monitor_step.end_task)
qed auto

lemma open_streams_length: "open_streams Incoming a + open_streams Outgoing a = length (act_tasks a)"
proof -
  have "(fst t = Outgoing) = (fst t \<noteq> Incoming)" for t :: "direction \<times> bound_counter_tracker"
    by (cases "fst t") auto
  then show ?thesis
    using sum_length_filter_compl [of "\<lambda>t. fst t = Incoming" "act_tasks a"] by (simp add: open_streams_def)
qed

lemmas tracker_defs = tracker_new_preregistered_def register_sync_def bound_counter_new_def
  tracker_drop_def bound_counter_dropkick_def update_current_count_def BASELINE_COUNT_def

definition activity_inv :: "('q \<Rightarrow> nat) \<Rightarrow> ('q \<Rightarrow> bool) \<Rightarrow> 'q activity \<Rightarrow> bool" where
  "activity_inv latest unseen a \<longleftrightarrow> snd ` set (act_tasks a) \<subseteq> {Registered} \<and>
     strong_count (act_world a) = length (act_tasks a) + 1 \<and> latest (act_channel a) = length (act_tasks a) \<and>
     (\<forall>y \<in> set (yields a). fst y = fst (snd y) + snd (snd y)) \<and>
     (\<not> unseen (act_channel a) \<longrightarrow> yields a \<noteq> [] \<and> fst (last (yields a)) = length (act_tasks a)) \<and>
     (act_over a \<longrightarrow> act_tasks a = [])"

lemma activity_start_inv:
  "watch_channel W latest unseen \<Longrightarrow> activity_inv latest unseen (on_active_stream_count_changed W)"
  by (simp add: activity_inv_def on_active_stream_count_changed_def watch_channel.new_latest BASELINE_COUNT_def)

lemma activity_step_inv:
  assumes W: "watch_channel W latest unseen" and s: "activity_step W a b" and inv: "activity_inv latest unseen a"
  shows "activity_inv latest unseen b"
  using s
proof (cases rule: activity_step.cases)
  case (consumer_polled r q)
  show ?thesis
  proof (cases "unseen (act_channel a)")
    case True
    then have "r = Ready (Some (latest (act_channel a))) \<and> latest q = latest (act_channel a) \<and> \<not> unseen q"
      using watch_channel.poll_unseen [OF W] consumer_polled(3) by blast
    then show ?thesis
      using inv consumer_polled open_streams_length [of a] by (auto simp: activity_inv_def)
  next
    case False
    then have "r = Pending \<and> latest q = latest (act_channel a) \<and> \<not> unseen q"
      using watch_channel.poll_seen [OF W] consumer_polled(3) by blast
    then show ?thesis
      using inv False consumer_polled by (auto simp: activity_inv_def)
  qed
qed (use inv in \<open>auto simp: activity_inv_def tracker_defs watch_channel.send_latest [OF W] split: bound_counter_tracker.splits\<close>)

lemma activity_run_inv:
  assumes "watch_channel W latest unseen" "(activity_step W)\<^sup>*\<^sup>* (on_active_stream_count_changed W) a"
  shows "activity_inv latest unseen a"
  using assms(2) by (induction rule: rtranclp_induct)
    (auto intro: activity_start_inv [OF assms(1)] activity_step_inv [OF assms(1)])

text \<open>
  C13: every count the consumer of \<open>on_active_stream_count_changed\<close> is given is the number of
  incoming and outgoing streams open at that moment, however streams open, close, fail and are
  polled in between; when nothing is left to be read, the last count it was given is still the
  number of open streams, and the counts are over only when no stream is open.
\<close>

theorem active_stream_counts:
  assumes "watch_channel W latest unseen"
    and "(activity_step W)\<^sup>*\<^sup>* (on_active_stream_count_changed W) a"
  shows "(\<forall>y \<in> set (yields a). fst y = fst (snd y) + snd (snd y)) \<and>
    (\<not> unseen (act_channel a) \<longrightarrow> yields a \<noteq> [] \<and>
       fst (last (yields a)) = open_streams Incoming a + open_streams Outgoing a) \<and>
    (act_over a \<longrightarrow> open_streams Incoming a + open_streams Outgoing a = 0)"
  using activity_run_inv [OF assms] unfolding activity_inv_def open_streams_length
  by (elim conjE, intro conjI) (assumption, assumption, simp)

text \<open>A stream is accepted and the consumer reads the count 1.\<close>

theorem active_stream_counts_witness:
  "\<exists>a. (activity_step pair_watch)\<^sup>*\<^sup>* (on_active_stream_count_changed pair_watch) a \<and>
    yields a = [(1, 1, 0)] \<and> \<not> snd (act_channel a) \<and> open_streams Incoming a + open_streams Outgoing a = 1"
proof -
  let ?a0 = "on_active_stream_count_changed pair_watch"
  let ?w = "\<lparr>strong_count = 2, watch = 1\<rparr>"
  let ?a1 = "?a0\<lparr>act_tasks := [(Incoming, Registered)], act_world := ?w, act_channel := (1, True)\<rparr>"
  let ?a2 = "?a1\<lparr>act_channel := (1, False), yields := [(1, 1, 0)]\<rparr>"
  have "activity_step pair_watch ?a0 ?a1"
    using stream_opened [of ?a0 Incoming Registered ?w pair_watch]
    by (simp add: on_active_stream_count_changed_def tracker_defs pair_watch_def)
  moreover have "activity_step pair_watch ?a1 ?a2"
    using consumer_polled [of ?a1 pair_watch "Ready (Some 1)" "(1, False)"]
    by (simp add: on_active_stream_count_changed_def pair_watch_def open_streams_def)
  ultimately have r: "(activity_step pair_watch)\<^sup>*\<^sup>* ?a0 ?a2" by simp
  show ?thesis
    using r active_stream_counts [OF pair_channel.watch_channel_axioms r]
    by (intro exI [of _ ?a2]) (simp add: on_active_stream_count_changed_def)
qed

end
