(* ===== verification/Tunnel_Traits.thy ===== *)
theory Tunnel_Traits
  imports Quinn_Tunnel Tunnel_Id
begin

text \<open>
  The traits of tunnels (\<open>common/protocol/tunnel/mod.rs\<close>): what a tunnel offers, the same
  through any pointer that dereferences to a tunnel, the incoming half, and \<open>IntoTunnel\<close>, by
  which connections become tunnels when they are given an id. The documented law of
  \<open>IntoTunnel\<close>, that the given id is used, is the locale \<open>tunnel_constructor\<close>.
\<close>

section \<open>What a tunnel offers\<close>

text \<open>
  The operations of \<open>WithTunnelId\<close>, \<open>Sided\<close>, \<open>TunnelUplink\<close>, \<open>Tunnel\<close> and
  \<open>TunnelControl\<close> on tunnels of type \<open>'t\<close> with a state of type \<open>'w\<close>.
\<close>

record ('t, 'w, 'l, 'd) tunnel_ops =
  tunnel_id_of :: "'t \<Rightarrow> tunnel_id"
  tunnel_side_of :: "'t \<Rightarrow> tunnel_side"
  tunnel_addr :: "'t \<Rightarrow> tunnel_address_info"
  tunnel_open_link :: "'t \<Rightarrow> 'w \<Rightarrow> 'l"
  tunnel_downlink :: "'t \<Rightarrow> 'w \<Rightarrow> 'd option"
  tunnel_close :: "'t \<Rightarrow> tunnel_close_reason \<Rightarrow> 'w \<Rightarrow> (tunnel_close_reason, tunnel_close_reason) result \<times> 'w"
  tunnel_report :: "'t \<Rightarrow> tunnel_name \<Rightarrow> 'w \<Rightarrow> (tunnel_close_reason option, unit) result \<times> 'w"

definition default_addr :: "'t \<Rightarrow> tunnel_address_info" where
  "default_addr t = Unidentified"

text \<open>The blanket implementations for pointers.\<close>

definition deref_control ::
  "('p \<Rightarrow> 't) \<Rightarrow> ('t, 'w, 'l, 'd) tunnel_ops \<Rightarrow>
   ('p \<Rightarrow> tunnel_close_reason \<Rightarrow> 'w \<Rightarrow> (tunnel_close_reason, tunnel_close_reason) result \<times> 'w) \<times>
   ('p \<Rightarrow> tunnel_name \<Rightarrow> 'w \<Rightarrow> (tunnel_close_reason option, unit) result \<times> 'w)" where
  "deref_control deref O' =
    ((\<lambda>p reason. tunnel_close O' (deref p) reason), (\<lambda>p name. tunnel_report O' (deref p) name))"

definition deref_id :: "('p \<Rightarrow> 't) \<Rightarrow> ('t, 'w, 'l, 'd) tunnel_ops \<Rightarrow> 'p \<Rightarrow> tunnel_id" where
  "deref_id deref O' p = tunnel_id_of O' (deref p)"

definition deref_side :: "('p \<Rightarrow> 't) \<Rightarrow> ('t, 'w, 'l, 'd) tunnel_ops \<Rightarrow> 'p \<Rightarrow> tunnel_side" where
  "deref_side deref O' p = tunnel_side_of O' (deref p)"

definition deref_uplink ::
  "('p \<Rightarrow> 't) \<Rightarrow> ('t, 'w, 'l, 'd) tunnel_ops \<Rightarrow> ('p \<Rightarrow> tunnel_address_info) \<times> ('p \<Rightarrow> 'w \<Rightarrow> 'l)" where
  "deref_uplink deref O' = ((\<lambda>p. tunnel_addr O' (deref p)), (\<lambda>p. tunnel_open_link O' (deref p)))"

definition deref_downlink :: "('p \<Rightarrow> 't) \<Rightarrow> ('t, 'w, 'l, 'd) tunnel_ops \<Rightarrow> 'p \<Rightarrow> 'w \<Rightarrow> 'd option" where
  "deref_downlink deref O' p = tunnel_downlink O' (deref p)"

definition deref_tunnel :: "('p \<Rightarrow> 't) \<Rightarrow> ('t, 'w, 'l, 'd) tunnel_ops \<Rightarrow> ('p, 'w, 'l, 'd) tunnel_ops" where
  "deref_tunnel deref O' =
    \<lparr>tunnel_id_of = deref_id deref O', tunnel_side_of = deref_side deref O',
     tunnel_addr = fst (deref_uplink deref O'), tunnel_open_link = snd (deref_uplink deref O'),
     tunnel_downlink = deref_downlink deref O',
     tunnel_close = fst (deref_control deref O'), tunnel_report = snd (deref_control deref O')\<rparr>"

text \<open>A pointer to a pointer to a tunnel is the tunnel.\<close>

lemma deref_tunnel_comp: "deref_tunnel f (deref_tunnel g O') = deref_tunnel (g \<circ> f) O'"
  by (simp add: deref_tunnel_def deref_id_def deref_side_def deref_uplink_def deref_downlink_def
      deref_control_def fun_eq_iff)

section \<open>The incoming half\<close>

record 's tunnel_incoming =
  ti_id :: tunnel_id
  ti_inner :: 's
  ti_side :: tunnel_side

definition incoming_streams :: "'s tunnel_incoming \<Rightarrow> 's" where
  "incoming_streams i = ti_inner i"

text \<open>A borrowed stream advances the stream that is held.\<close>

definition incoming_as_stream :: "('s, 'i) poll_next_fn \<Rightarrow> ('s tunnel_incoming, 'i) poll_next_fn" where
  "incoming_as_stream ps i = (case ps (ti_inner i) of (r, s) \<Rightarrow> (r, i\<lparr>ti_inner := s\<rparr>))"

lemma incoming_as_stream_polls:
  "poll_nexts (incoming_as_stream ps) n i =
     (case poll_nexts ps n (incoming_streams i) of (rs, s) \<Rightarrow> (rs, i\<lparr>ti_inner := s\<rparr>))"
  by (induction n arbitrary: i) (auto simp: incoming_as_stream_def incoming_streams_def split: prod.splits)

section \<open>Tunnels from connections\<close>

locale tunnel_constructor =
  fixes into_tunnel :: "'p \<Rightarrow> tunnel_id \<Rightarrow> 't" and id_of :: "'t \<Rightarrow> tunnel_id"
  assumes uses_id: "id_of (into_tunnel p i) = i"
begin

lemma constructed_ids:
  "length ps \<le> n \<Longrightarrow> map id_of (map2 into_tunnel ps (generate n g)) = generate (length ps) g"
proof (induction ps arbitrary: n g)
  case (Cons p ps)
  then show ?case by (cases n) (auto simp: generator_next_def uses_id)
qed simp

end

text \<open>Smart pointers, and the wrappers that put the constructed tunnel into one.\<close>

datatype 'a boxed = Box (unbox: 'a)
datatype 'a rc = Rc (unrc: 'a)
datatype 'a arc = Arc (unarc: 'a)

datatype 'p into_boxed_tunnel = IntoBoxedTunnel (boxed_params: 'p)
datatype 'p into_rc_tunnel = IntoRcTunnel (rc_params: 'p)
datatype 'p into_arc_tunnel = IntoArcTunnel (arc_params: 'p)

definition box_into_tunnel :: "('p \<Rightarrow> tunnel_id \<Rightarrow> 't) \<Rightarrow> 'p boxed \<Rightarrow> tunnel_id \<Rightarrow> 't" where
  "box_into_tunnel it b i = it (unbox b) i"

definition boxed_into_tunnel :: "('p \<Rightarrow> tunnel_id \<Rightarrow> 't) \<Rightarrow> 'p into_boxed_tunnel \<Rightarrow> tunnel_id \<Rightarrow> 't boxed" where
  "boxed_into_tunnel it p i = Box (it (boxed_params p) i)"

definition rc_into_tunnel :: "('p \<Rightarrow> tunnel_id \<Rightarrow> 't) \<Rightarrow> 'p into_rc_tunnel \<Rightarrow> tunnel_id \<Rightarrow> 't rc" where
  "rc_into_tunnel it p i = Rc (it (rc_params p) i)"

definition arc_into_tunnel :: "('p \<Rightarrow> tunnel_id \<Rightarrow> 't) \<Rightarrow> 'p into_arc_tunnel \<Rightarrow> tunnel_id \<Rightarrow> 't arc" where
  "arc_into_tunnel it p i = Arc (it (arc_params p) i)"

context tunnel_constructor
begin

lemma box_params: "tunnel_constructor (box_into_tunnel into_tunnel) id_of"
  by unfold_locales (simp add: box_into_tunnel_def uses_id)

lemma boxed_tunnel: "tunnel_constructor (boxed_into_tunnel into_tunnel) (id_of \<circ> unbox)"
  by unfold_locales (simp add: boxed_into_tunnel_def uses_id)

lemma rc_tunnel: "tunnel_constructor (rc_into_tunnel into_tunnel) (id_of \<circ> unrc)"
  by unfold_locales (simp add: rc_into_tunnel_def uses_id)

lemma arc_tunnel: "tunnel_constructor (arc_into_tunnel into_tunnel) (id_of \<circ> unarc)"
  by unfold_locales (simp add: arc_into_tunnel_def uses_id)

end

text \<open>
  A QUIC connection with its side becomes a tunnel; \<open>t0\<close> is the state of the tokens before
  those of the tunnel are made.
\<close>

definition quinn_into_tunnel ::
  "('k, 't) token_ops \<Rightarrow> 't \<Rightarrow> 'c \<times> tunnel_side \<Rightarrow> tunnel_id \<Rightarrow> 'k quinn_tunnel \<times> 't quinn_state" where
  "quinn_into_tunnel T t0 p i = (case p of (connection, side) \<Rightarrow> from_quinn_connection T i side t0)"

interpretation quinn_constructor: tunnel_constructor "quinn_into_tunnel T t0" "qt_id \<circ> fst"
  for T :: "('k, 't) token_ops" and t0
  by unfold_locales (auto simp: quinn_into_tunnel_def from_quinn_connection_def Let_def split: prod.splits)

interpretation quinn_box: tunnel_constructor "box_into_tunnel (quinn_into_tunnel T t0)" "qt_id \<circ> fst"
  for T :: "('k, 't) token_ops" and t0
  by (rule quinn_constructor.box_params)

interpretation quinn_boxed: tunnel_constructor "boxed_into_tunnel (quinn_into_tunnel T t0)" "qt_id \<circ> fst \<circ> unbox"
  for T :: "('k, 't) token_ops" and t0
  by (rule quinn_constructor.boxed_tunnel)

interpretation quinn_rc: tunnel_constructor "rc_into_tunnel (quinn_into_tunnel T t0)" "qt_id \<circ> fst \<circ> unrc"
  for T :: "('k, 't) token_ops" and t0
  by (rule quinn_constructor.rc_tunnel)

interpretation quinn_arc: tunnel_constructor "arc_into_tunnel (quinn_into_tunnel T t0)" "qt_id \<circ> fst \<circ> unarc"
  for T :: "('k, 't) token_ops" and t0
  by (rule quinn_constructor.arc_tunnel)

section \<open>The QUIC tunnel as a tunnel\<close>

text \<open>
  The peer's address is quinn's to know. Opening a link is called here; \<open>None\<close> is a call that
  went on to quinn. The downlink is the incoming half.
\<close>

definition quinn_tunnel_ops ::
  "('k, 't) token_ops \<Rightarrow> ('k quinn_tunnel \<Rightarrow> socket_addr) \<Rightarrow> ('k quinn_tunnel \<Rightarrow> 's) \<Rightarrow>
   ('k quinn_tunnel, 't quinn_state, tunnel_error option, 's tunnel_incoming) tunnel_ops" where
  "quinn_tunnel_ops T remote_address incoming =
    \<lparr>tunnel_id_of = qt_id, tunnel_side_of = qt_side, tunnel_addr = (\<lambda>q. Socket (remote_address q)),
     tunnel_open_link = open_link_call T,
     tunnel_downlink = (\<lambda>q s. if downlink_available T q s
       then Some \<lparr>ti_id = qt_id q, ti_inner = incoming q, ti_side = qt_side q\<rparr> else None),
     tunnel_close = quinn_close T, tunnel_report = report_authentication_success T\<rparr>"

section \<open>The tunnels of the daemon\<close>

definition daemon_construct_tunnels :: "64 word \<Rightarrow> 's \<Rightarrow> ('s, 64 word) constructed_tunnel_stream" where
  "daemon_construct_tunnels tunnel_id_generator source = construct_tunnels tunnel_id_generator source"

definition daemon_try_construct_tunnels :: "64 word \<Rightarrow> 's \<Rightarrow> ('s, 64 word) constructed_tunnel_try_stream" where
  "daemon_try_construct_tunnels tunnel_id_generator source = try_construct_tunnels tunnel_id_generator source"

lemma length_before_end: "length (before_end (fst (poll_nexts ps n s))) \<le> n"
proof (induction n arbitrary: s)
  case (Suc n)
  obtain r s' where r: "ps s = (r, s')" by fastforce
  show ?case
    using Suc [of s'] r by (cases r; cases "case r of Ready x \<Rightarrow> x | Pending \<Rightarrow> None")
      (auto simp: fst_poll_nexts_Suc simp del: poll_nexts.simps(2))
qed simp

lemma arc_quinn_id:
  "tunnel_id_of (deref_tunnel (fst \<circ> unarc) (quinn_tunnel_ops T remote_address incoming)) = qt_id \<circ> fst \<circ> unarc"
  by (simp add: deref_tunnel_def deref_id_def quinn_tunnel_ops_def fun_eq_iff)

lemma length_generate: "length (generate m g) = m"
  by (simp add: generate_eq)

text \<open>
  C18: whatever the connections of a source and however it is polled, the QUIC tunnels the daemon
  makes of them have the consecutive ids of its generator, one for each connection in the order
  of arrival; the tunnel of a pointer has them as well, and up to \<open>2 ^ 64\<close> tunnels all ids are
  different.
\<close>

theorem daemon_tunnel_ids:
  "let ts = items (fst (poll_nexts (constructed_poll_next (arc_into_tunnel (quinn_into_tunnel T t0)) generator_next poll_source) n
         (daemon_construct_tunnels (generator_new g) source)));
       ids = map (tunnel_id_of (deref_tunnel (fst \<circ> unarc) (quinn_tunnel_ops T remote_address incoming))) ts
   in ids = generate (length (before_end (fst (poll_nexts poll_source n source)))) g \<and>
     (distinct ids \<longleftrightarrow> length ids \<le> 2 ^ 64)"
  unfolding Let_def daemon_construct_tunnels_def constructed_tunnels_in_order arc_quinn_id
    quinn_arc.constructed_ids [OF length_before_end]
  by (simp only: length_generate generated_ids_distinct simp_thms)

section \<open>Several sources\<close>

text \<open>
  The daemon hands out pointers to its one generator, so the streams it constructs of different
  sources take their ids from a shared counter. Each poll of stream \<open>k\<close> goes on from the value
  the counter has then.
\<close>

fun with_generator :: "'g \<Rightarrow> ('s, 'g) constructed_tunnel_stream \<Rightarrow> ('s, 'g) constructed_tunnel_stream" where
  "with_generator g (constructed_tunnel_stream.Active s _) = constructed_tunnel_stream.Active s g"
| "with_generator g constructed_tunnel_stream.Ended = constructed_tunnel_stream.Ended"

fun generator_left :: "'g \<Rightarrow> ('s, 'g) constructed_tunnel_stream \<Rightarrow> 'g" where
  "generator_left g (constructed_tunnel_stream.Active s g') = g'"
| "generator_left g constructed_tunnel_stream.Ended = g"

fun poll_sources ::
  "('i \<Rightarrow> tunnel_id \<Rightarrow> 't) \<Rightarrow> ('s, 'i) poll_next_fn \<Rightarrow> nat list \<Rightarrow>
   (nat \<Rightarrow> ('s, 64 word) constructed_tunnel_stream) \<Rightarrow> 64 word \<Rightarrow> 't option poll list" where
  "poll_sources into_tunnel poll_source [] streams g = []"
| "poll_sources into_tunnel poll_source (k # ks) streams g =
    (case constructed_poll_next into_tunnel generator_next poll_source (with_generator g (streams k)) of
       (r, st) \<Rightarrow> r # poll_sources into_tunnel poll_source ks (streams(k := st)) (generator_left g st))"

text \<open>
  In whatever order the sources are polled, the tunnels of all of them together have consecutive
  ids, so no two of them share one up to \<open>2 ^ 64\<close> tunnels.
\<close>

lemma poll_sources_ids:
  assumes "\<And>c i. id_of (into_tunnel c i) = i"
  shows "map id_of (items (poll_sources into_tunnel poll_source ks streams g)) =
    generate (length (items (poll_sources into_tunnel poll_source ks streams g))) g"
proof (induction ks arbitrary: streams g)
  case (Cons k ks)
  obtain r st where p: "constructed_poll_next into_tunnel generator_next poll_source (with_generator g (streams k)) = (r, st)"
    by fastforce
  then have "(\<exists>c. r = Ready (Some (into_tunnel c g)) \<and> generator_left g st = g + 1) \<or>
      (r = Pending \<or> r = Ready None) \<and> generator_left g st = g"
    by (cases "streams k") (auto simp: constructed_poll_next_def generator_next_def split: stream_splits)
  then show ?case
    using Cons.IH [of "streams(k := st)" "generator_left g st"] p assms by (auto simp: generator_next_def fun_upd_def)
qed simp

lemma sources_share_ids:
  "let ts = items (poll_sources (arc_into_tunnel (quinn_into_tunnel T t0)) poll_source ks
         (\<lambda>k. daemon_construct_tunnels (generator_new g) (sources k)) g);
       ids = map (tunnel_id_of (deref_tunnel (fst \<circ> unarc) (quinn_tunnel_ops T remote_address incoming))) ts
   in distinct ids \<longleftrightarrow> length ids \<le> 2 ^ 64"
proof -
  have "(qt_id \<circ> fst \<circ> unarc) (arc_into_tunnel (quinn_into_tunnel T t0) c i) = i" for c i
    using quinn_arc.uses_id by simp
  then show ?thesis
    unfolding Let_def arc_quinn_id using poll_sources_ids by (metis generated_ids_distinct length_generate)
qed

end
