(* ===== verification/Wrapped_Tunnel.thy ===== *)
theory Wrapped_Tunnel
  imports Daemon Dropkick
begin

text \<open>
  The ownership of a tunnel in the daemon (\<open>WrappedTunnel\<close> and
  \<open>DeregisteringTunnelWrapper\<close> of \<open>common/daemon/mod.rs\<close>). A wrapper is a tunnel with a
  callback in an \<open>Arc<Dropkick<Arc<Mutex<Option<..>>>>>\<close>: clones share the callback, and it
  runs when the last of them is dropped, unless \<open>extract_inner\<close> has taken it out. What the
  stages of \<open>Daemon\<close> do with a dropped tunnel is derived here from the clones and drops of
  \<open>tunnel_lifecycle\<close>.
\<close>

section \<open>Wrappers\<close>

text \<open>\<open>owners\<close> is the strong count of the outer \<open>Arc\<close>.\<close>

record ('t, 'c) wrapped_tunnel =
  wrapped :: 't
  owners :: nat
  drop_callback :: "'c shared dropkick"

definition callback_cell :: "'c \<Rightarrow> 'c shared" where
  "callback_cell c =
    \<lparr>refs = 1, locked = False, poisoned = False, content = Some c, pending_tasks = 0, outstanding = 0\<rparr>"

datatype 'i drop_action =
    CloseUnregistered tunnel_id tunnel_close_reason
  | DeregisterTunnel peer_record 'i

definition into_deregistration_dropkick :: "peer_record \<Rightarrow> 'i \<Rightarrow> 'i drop_action shared dropkick" where
  "into_deregistration_dropkick peer identifier =
    dropkick_new (callback_cell (DeregisterTunnel peer identifier))"

definition new_deregistering ::
  "'t \<Rightarrow> 'i \<Rightarrow> peer_record \<Rightarrow> ('t, 'i drop_action) wrapped_tunnel" where
  "new_deregistering tunnel identifier peer =
    \<lparr>wrapped = tunnel, owners = 1, drop_callback = into_deregistration_dropkick peer identifier\<rparr>"

definition new_registration_failure_closing ::
  "tunnel_id \<Rightarrow> (tunnel_id, 'i drop_action) wrapped_tunnel" where
  "new_registration_failure_closing tunnel =
    \<lparr>wrapped = tunnel, owners = 1,
     drop_callback = dropkick_new (callback_cell (CloseUnregistered tunnel (AuthenticationFailure None)))\<rparr>"

definition wrapper_clone :: "('t, 'c) wrapped_tunnel \<Rightarrow> ('t, 'c) wrapped_tunnel" where
  "wrapper_clone w = w\<lparr>owners := owners w + 1\<rparr>"

text \<open>Dropping the last owner drops the \<open>Dropkick\<close>, whose target is the shared cell.\<close>

definition wrapper_drop ::
  "('c \<Rightarrow> 'w \<Rightarrow> 'w) \<Rightarrow> ('t, 'c) wrapped_tunnel \<Rightarrow> 'w \<Rightarrow> ('t, 'c) wrapped_tunnel \<times> 'w" where
  "wrapper_drop call w s =
    (w\<lparr>owners := owners w - 1\<rparr>,
     if owners w = 1 then dropkick_drop (\<lambda>c s. snd (snd (kick_shared call c s))) (drop_callback w) s else s)"

text \<open>The callback that is taken out is dropped without being called.\<close>

definition extract_inner ::
  "('c \<Rightarrow> 'w \<Rightarrow> 'w) \<Rightarrow> ('t, 'c) wrapped_tunnel \<Rightarrow> 'w \<Rightarrow> 't \<times> ('t, 'c) wrapped_tunnel \<times> 'w" where
  "extract_inner call w s =
    (let w = w\<lparr>drop_callback := (drop_callback w)\<lparr>dropkick.inner := map_option (snd \<circ> counter_take_mutex) (dropkick.inner (drop_callback w))\<rparr>\<rparr>
     in (wrapped w, wrapper_drop call w s))"

text \<open>The conversion into the tunnel drops the callback's owner, so it may run the callback.\<close>

definition arc_of_wrapper ::
  "('c \<Rightarrow> 'w \<Rightarrow> 'w) \<Rightarrow> ('t, 'c) wrapped_tunnel \<Rightarrow> 'w \<Rightarrow> 't \<times> ('t, 'c) wrapped_tunnel \<times> 'w" where
  "arc_of_wrapper call w s = (wrapped w, wrapper_drop call w s)"

definition as_inner :: "('t, 'c) wrapped_tunnel \<Rightarrow> 't" where
  "as_inner w = wrapped w"

section \<open>Owners coming and going\<close>

datatype wrapper_op = CloneWrapper | DropWrapper | ExtractInner | IntoArc

text \<open>An operation needs an owner to perform it.\<close>

fun wrapper_apply ::
  "('c \<Rightarrow> 'w \<Rightarrow> 'w) \<Rightarrow> wrapper_op \<Rightarrow> ('t, 'c) wrapped_tunnel \<times> 'w \<Rightarrow> ('t, 'c) wrapped_tunnel \<times> 'w" where
  "wrapper_apply call CloneWrapper (w, s) = (wrapper_clone w, s)"
| "wrapper_apply call DropWrapper (w, s) = wrapper_drop call w s"
| "wrapper_apply call ExtractInner (w, s) = snd (extract_inner call w s)"
| "wrapper_apply call IntoArc (w, s) = snd (arc_of_wrapper call w s)"

fun wrapper_run ::
  "('c \<Rightarrow> 'w \<Rightarrow> 'w) \<Rightarrow> wrapper_op list \<Rightarrow> ('t, 'c) wrapped_tunnel \<times> 'w \<Rightarrow>
   (('t, 'c) wrapped_tunnel \<times> 'w) option" where
  "wrapper_run call [] ws = Some ws"
| "wrapper_run call (x # xs) ws =
    (if owners (fst ws) = 0 then None else wrapper_run call xs (wrapper_apply call x ws))"

text \<open>The callback while it is in place, and after it was taken.\<close>

definition holds_callback :: "'c option \<Rightarrow> ('t, 'c) wrapped_tunnel \<Rightarrow> bool" where
  "holds_callback c w \<longleftrightarrow> (\<exists>cell. dropkick.inner (drop_callback w) = Some cell \<and> refs cell = 1 \<and>
     \<not> poisoned cell \<and> content cell = c)"

lemma new_holds_callback:
  "holds_callback (Some (DeregisterTunnel peer i)) (new_deregistering t i peer)"
  "holds_callback (Some (CloseUnregistered u (AuthenticationFailure None))) (new_registration_failure_closing u)"
  by (simp_all add: holds_callback_def new_deregistering_def new_registration_failure_closing_def
      into_deregistration_dropkick_def callback_cell_def dropkick_new_def)

lemma wrapper_drop_callback:
  "holds_callback c w \<Longrightarrow> wrapper_drop call w s =
     (w\<lparr>owners := owners w - 1\<rparr>, if owners w = 1 then kick_option call c s else s)"
  by (auto simp: wrapper_drop_def holds_callback_def dropkick_drop_def kick_shared_def kick_mutex_def)

lemma holds_callback_owners [simp]: "holds_callback c (w\<lparr>owners := n\<rparr>) = holds_callback c w"
  by (simp add: holds_callback_def)

lemma extract_inner_callback:
  assumes "holds_callback c w"
  shows "\<exists>w'. extract_inner call w s = (wrapped w, w', s) \<and> owners w' = owners w - 1 \<and> holds_callback None w'"
proof -
  define v where "v = w\<lparr>drop_callback := (drop_callback w)\<lparr>dropkick.inner := map_option (snd \<circ> counter_take_mutex) (dropkick.inner (drop_callback w))\<rparr>\<rparr>"
  have v: "holds_callback None v" "owners v = owners w" "wrapped v = wrapped w"
    using assms by (auto simp: v_def holds_callback_def counter_take_mutex_def)
  then have "wrapper_drop call v s = (v\<lparr>owners := owners v - 1\<rparr>, s)"
    using wrapper_drop_callback [OF v(1), of call s] by simp
  moreover have "extract_inner call w s = (wrapped v, wrapper_drop call v s)"
    by (simp only: extract_inner_def v_def Let_def)
  ultimately show ?thesis
    using v by (intro exI [of _ "v\<lparr>owners := owners v - 1\<rparr>"]) simp
qed

lemma wrapper_apply_callback:
  assumes "holds_callback c w" "owners w > 0" "d = (if x = ExtractInner then None else c)"
  shows "\<exists>v. wrapper_apply call x (w, s) = (v, if owners v = 0 then kick_option call d s else s) \<and> holds_callback d v"
proof (cases x)
  case ExtractInner
  then show ?thesis
    using extract_inner_callback [OF assms(1), of call s] assms(3) by auto
qed (use assms wrapper_drop_callback [OF assms(1), of call s] in
    \<open>simp_all add: wrapper_clone_def arc_of_wrapper_def\<close>)

lemma wrapper_run_result:
  assumes "wrapper_run call xs (w, s) = Some (w', s')" "holds_callback c w" "owners w > 0"
  shows "s' = (if owners w' = 0 \<and> ExtractInner \<notin> set xs then kick_option call c s else s)"
  using assms
proof (induction xs arbitrary: w c)
  case (Cons x xs)
  define d where "d = (if x = ExtractInner then None else c)"
  obtain v where v: "wrapper_apply call x (w, s) = (v, if owners v = 0 then kick_option call d s else s)"
      "holds_callback d v"
    using wrapper_apply_callback [OF Cons.prems(2,3) d_def, of call s] by (elim exE conjE)
  show ?case
  proof (cases "owners v = 0")
    case True
    then have "xs = []" "w' = v" "s' = kick_option call d s"
      using v(1) Cons.prems(1,3) by (cases xs; simp)+
    then show ?thesis using True by (simp add: d_def)
  next
    case False
    then have "wrapper_run call xs (v, s) = Some (w', s')" using v(1) Cons.prems(1,3) by simp
    from Cons.IH [OF this v(2)] False show ?thesis by (simp add: d_def)
  qed
qed simp

section \<open>The owners in the lifecycle of a tunnel\<close>

text \<open>
  Running a callback starts a task: the task closes the tunnel, or deregisters it, which makes
  the tunnel one that is leaving.
\<close>

fun run_drop_action :: "'i drop_action \<Rightarrow> ('s, 'i) daemon \<Rightarrow> ('s, 'i) daemon" where
  "run_drop_action (CloseUnregistered t reason) d = request_close t reason d"
| "run_drop_action (DeregisterTunnel peer identifier) d = set_phase (peer_id peer) (Leaving peer identifier) d"

text \<open>
  Authentication is given a clone, clones it for its task and drops its own; the task drops the
  other when it ends, also by a panic.
\<close>

definition authentication_owners :: "wrapper_op list" where
  "authentication_owners = [CloneWrapper, CloneWrapper, DropWrapper, DropWrapper]"

text \<open>
  \<open>tunnel_lifecycle\<close> with its owners. \<open>owner_ops\<close> is what the owners do while requests are
  handled: the loop has one, each handled link and each service that keeps its tunnel another.
  The result is the error, or the number of owners left. Once the tunnel is registered an error
  of the request loop changes neither the owners nor the deregistration, which the drop of the
  last owner does; the close that the task of the tunnel attempts at its end is in \<open>run_finish\<close>.
\<close>

definition tunnel_lifecycle_owned ::
  "('r, 's, 'i, 'x) daemon_config \<Rightarrow> tunnel_id \<Rightarrow>
   ('e authentication_error may_panic, tunnel_name \<times> authentication_attributes) result \<Rightarrow>
   (tunnel_close_reason option, unit) result \<Rightarrow> wrapper_op list \<Rightarrow> ('s, 'i) daemon \<Rightarrow>
   ((('a, 'e, 'x) tunnel_lifecycle_error, nat) result \<times> ('s, 'i) daemon) option" where
  "tunnel_lifecycle_owned cfg t performed reported owner_ops d =
    Option.bind (wrapper_run run_drop_action authentication_owners
        (new_registration_failure_closing t, fire (Connected t) d)) (\<lambda>(w, d).
      case authenticate_tunnel performed of
        Inl e \<Rightarrow> Some (Err e, snd (wrapper_drop run_drop_action w d))
      | Inr (name, attributes) \<Rightarrow>
          (case register_tunnel cfg t name attributes reported d of
             (Inl e, d) \<Rightarrow> Some (Err (RegistrationError e), snd (wrapper_drop run_drop_action w d))
           | (Inr (peer, identifier), d) \<Rightarrow>
               (case extract_inner run_drop_action w d of (tunnel, _, d) \<Rightarrow>
                  map_option (\<lambda>(w, d). (Ok (owners w), d))
                    (wrapper_run run_drop_action owner_ops (new_deregistering tunnel identifier peer, d)))))"

lemma authentication_owners_run:
  "wrapper_run run_drop_action authentication_owners (new_registration_failure_closing t, d) =
     Some (new_registration_failure_closing t, d)"
  by (simp add: authentication_owners_def wrapper_clone_def wrapper_drop_def new_registration_failure_closing_def)

lemma unregistered_drop:
  "snd (wrapper_drop run_drop_action (new_registration_failure_closing t) d) =
     request_close t (AuthenticationFailure None) d"
  using wrapper_drop_callback [OF new_holds_callback(2), of run_drop_action t d]
  by (simp add: new_registration_failure_closing_def)

lemma unregistered_extract:
  "extract_inner run_drop_action (new_registration_failure_closing t) d = (u, w, d') \<Longrightarrow> u = t \<and> d' = d"
  using extract_inner_callback [OF new_holds_callback(2), of run_drop_action t d]
  by (auto simp: new_registration_failure_closing_def)

lemma register_tunnel_peer:
  "register_tunnel cfg t name attributes reported d = (Inr (peer, i), d') \<Longrightarrow> peer_id peer = t"
  by (auto simp: register_tunnel_def register_in_registry_def split: sum.splits prod.splits)

lemma registered_run:
  assumes "wrapper_run run_drop_action owner_ops (new_deregistering t i peer, d) = Some (w, d')"
    "ExtractInner \<notin> set owner_ops"
  shows "d' = (if owners w = 0 then set_phase (peer_id peer) (Leaving peer i) d else d)"
  using wrapper_run_result [OF assms(1) new_holds_callback(1)] assms(2) by (simp add: new_deregistering_def)

text \<open>
  C26: a tunnel whose lifecycle fails before it is registered is closed once with an
  authentication failure and never deregistered; a registered tunnel is never closed by its
  first owner, and its deregistration starts exactly once, when the last owner of it is dropped,
  however many owners handled links and services come to hold.
\<close>

theorem owned_lifecycle_ends_once:
  assumes "tunnel_lifecycle_owned cfg t performed reported owner_ops d = Some (r, d')"
    and "ExtractInner \<notin> set owner_ops"
  shows "case authenticate_tunnel performed of
      Inl e \<Rightarrow> r = Err e \<and> d' = request_close t (AuthenticationFailure None) (fire (Connected t) d)
    | Inr (name, attributes) \<Rightarrow>
        (case register_tunnel cfg t name attributes reported (fire (Connected t) d) of
           (Inl e, d1) \<Rightarrow> r = Err (RegistrationError e) \<and> d' = request_close t (AuthenticationFailure None) d1
         | (Inr (peer, identifier), d1) \<Rightarrow> is_ok r \<and>
             d' = (if r = Ok 0 then set_phase t (Leaving peer identifier) d1 else d1))"
proof -
  have run: "d' = (if owners w = 0 then set_phase t (Leaving peer i) d1 else d1)"
    if "register_tunnel cfg t name attributes reported (fire (Connected t) d) = (Inr (peer, i), d1)"
      "extract_inner run_drop_action (new_registration_failure_closing t) d1 = (u, v, d2)"
      "wrapper_run run_drop_action owner_ops (new_deregistering u i peer, d2) = Some (w, d')"
    for name attributes peer i d1 u v d2 w
    using registered_run [OF that(3) assms(2)] register_tunnel_peer [OF that(1)] unregistered_extract [OF that(2)]
    by simp
  show ?thesis
    using assms(1)
    by (auto simp: tunnel_lifecycle_owned_def authentication_owners_run unregistered_drop
        split: sum.splits prod.splits dest: run)
qed

text \<open>A registered tunnel that handles two links, one of which outlives the loop.\<close>

theorem owned_lifecycle_ends_once_witness:
  "\<exists>d' peer. tunnel_lifecycle_owned
      \<lparr>construct_record = (\<lambda>t name attributes. Ok ((), attributes)), registry_register = (\<lambda>name r s. (Ok name, s)),
       registry_deregister = (\<lambda>i s. (Ok None, s))\<rparr>
      7 (Ok (lit ''a'', Map.empty)) (Ok ()) [CloneWrapper, CloneWrapper, DropWrapper, DropWrapper, DropWrapper]
      (daemon_new ()) = Some (Ok 0 :: ((unit, unit, unit) tunnel_lifecycle_error, nat) result, d') \<and>
    closes d' = [] \<and> phases d' 7 = Some (Leaving peer (lit ''a''))"
proof -
  let ?cfg = "\<lparr>construct_record = (\<lambda>t name attributes. Ok ((), attributes)), registry_register = (\<lambda>name r s. (Ok name, s)),
       registry_deregister = (\<lambda>i s. (Ok None, s))\<rparr> :: (unit, unit, tunnel_name, unit) daemon_config"
  let ?ops = "[CloneWrapper, CloneWrapper, DropWrapper, DropWrapper, DropWrapper]"
  obtain d' where d': "tunnel_lifecycle_owned ?cfg 7 (Ok (lit ''a'', Map.empty)) (Ok ()) ?ops (daemon_new ()) =
      Some (Ok 0 :: ((unit, unit, unit) tunnel_lifecycle_error, nat) result, d')"
    by (simp add: tunnel_lifecycle_owned_def authentication_owners_run authenticate_tunnel_def register_tunnel_def
        register_in_registry_def new_deregistering_def wrapper_clone_def wrapper_drop_def extract_inner_def Let_def)
  then show ?thesis
    using owned_lifecycle_ends_once [OF d']
    by (simp add: authenticate_tunnel_def register_tunnel_def register_in_registry_def register_as_peer_def
        report_registration_def daemon_simps daemon_new_def)
qed

end
