(* ===== verification/Extensions.thy ===== *)
theory Extensions
  imports Daemon Futures
begin

text \<open>
  The methods that put a future or a record constructor into one of the crate's wrappers:
  \<open>FutureExtExt\<close> and \<open>TryFutureExtExt\<close> of \<^verbatim>\<open>ext/future/mod.rs\<close>, which fix the state a combinator
  of theory \<open>Futures\<close> starts in, and the record constructors of \<^verbatim>\<open>common/daemon/mod.rs\<close>, a
  closure behind any tower of \<open>Arc\<close>, \<open>ArcRecordConstructor\<close> and \<open>BoxedRecordConstructor\<close>.
  The lemmas restate what the combinators deliver for the futures the methods build, and show
  that the daemon cannot tell which wrapper its record constructor came in.
\<close>

section \<open>Extension methods of futures\<close>

definition delay :: "'f \<Rightarrow> 'd \<Rightarrow> ('d, 'f, 'z, 'v) delayed" where
  "delay f d = \<lparr>fulfilled = False, duration = d, delayed_inner = Inl f\<rparr>"

definition poll_until_ext :: "'f \<Rightarrow> 'c \<Rightarrow> ('f, 'c) poll_until" where
  "poll_until_ext f c = \<lparr>task = f, canceller = Some c\<rparr>"

definition track :: "'f \<Rightarrow> 't \<Rightarrow> ('f, 't, 'r) tracked" where
  "track f t = tracked_new f t"

definition try_delay :: "'f \<Rightarrow> 'd \<Rightarrow> ('d, 'f, 'z, 'v) delayed" where
  "try_delay f d = \<lparr>fulfilled = False, duration = d, delayed_inner = Inl f\<rparr>"

definition try_poll_until :: "'f \<Rightarrow> 'c \<Rightarrow> ('f, 'c) poll_until" where
  "try_poll_until f c = poll_until_ext f c"

definition try_poll_until_or_else_ext ::
  "'f \<Rightarrow> 'c \<Rightarrow> (unit \<Rightarrow> 'r) \<Rightarrow> ('f, 'c, 'r) try_poll_until_or_else" where
  "try_poll_until_or_else_ext f c make_alternate =
    \<lparr>inner = poll_until_ext f c, make_timeout_error = Some make_alternate\<rparr>"

text \<open>A delayed future delivers the value of its future once the delay that follows is over.\<close>

lemma delay_delivers:
  assumes "polls pf (Suc k) f = replicate k Pending @ [Ready v]"
    and "polls ps (Suc m) (sl d) = replicate m Pending @ [Ready ()]"
  shows "polls (delayed_poll sl ps pf) (Suc (k + m)) (delay f d) =
      replicate (k + m) Pending @ [Ready v]"
  unfolding delay_def using assms by (rule delayed_delivers)

text \<open>The failover of the second and third cases of the source's own test, for every schedule.\<close>

lemma try_poll_until_or_else_failover:
  "\<lbrakk>polls pc (Suc k) c = replicate k Pending @ [Ready x]; polls pt k f = replicate k Pending\<rbrakk> \<Longrightarrow>
    polls (try_poll_until_or_else_poll pt pc) (Suc k) (try_poll_until_or_else_ext f c alt) =
      replicate k Pending @ [Ready (alt ())]"
proof (induction k arbitrary: c f)
  case (Suc k)
  then show ?case
    by (auto simp: polls_Suc_Cons try_poll_until_or_else_poll_def try_poll_until_or_else_ext_def
        poll_until_ext_def poll_until_poll_def simp del: polls.simps(2))
qed (auto simp: polls_Suc_Cons try_poll_until_or_else_poll_def try_poll_until_or_else_ext_def
    poll_until_ext_def poll_until_poll_def simp del: polls.simps(2))

lemma try_poll_until_or_else_completed:
  "\<lbrakk>polls pc (Suc k) c = replicate (Suc k) Pending;
    polls pt (Suc k) f = replicate k Pending @ [Ready r]\<rbrakk> \<Longrightarrow>
    polls (try_poll_until_or_else_poll pt pc) (Suc k) (try_poll_until_or_else_ext f c alt) =
      replicate k Pending @ [Ready r]"
proof (induction k arbitrary: c f)
  case (Suc k)
  then show ?case
    by (auto simp: polls_Suc_Cons try_poll_until_or_else_poll_def try_poll_until_or_else_ext_def
        poll_until_ext_def poll_until_poll_def simp del: polls.simps(2))
qed (auto simp: polls_Suc_Cons try_poll_until_or_else_poll_def try_poll_until_or_else_ext_def
    poll_until_ext_def poll_until_poll_def simp del: polls.simps(2) split: sum.splits)

section \<open>Record constructors\<close>

record 't record_constructor_args =
  rc_id :: tunnel_id
  rc_name :: tunnel_name
  rc_attributes :: authentication_attributes
  rc_tunnel :: 't

datatype ('t, 'x, 'r) record_constructor =
    Closure "'t record_constructor_args \<Rightarrow> ('x, 'r \<times> authentication_attributes) result"
  | ArcOf "('t, 'x, 'r) record_constructor"
  | BoxingRecordConstructor "('t, 'x, 'r) record_constructor"
  | BoxedRecordConstructor "('t, 'x, 'r) record_constructor"
  | ArcRecordConstructor "('t, 'x, 'r) record_constructor"

definition boxed_record_constructor_new ::
  "('t, 'x, 'r) record_constructor \<Rightarrow> ('t, 'x, 'r) record_constructor" where
  "boxed_record_constructor_new r = BoxedRecordConstructor (BoxingRecordConstructor r)"

definition arc_record_constructor_new ::
  "('t, 'x, 'r) record_constructor \<Rightarrow> ('t, 'x, 'r) record_constructor" where
  "arc_record_constructor_new r = ArcRecordConstructor (BoxingRecordConstructor r)"

fun construct_record_by ::
  "('t, 'x, 'r) record_constructor \<Rightarrow> 't record_constructor_args \<Rightarrow>
   ('x, 'r \<times> authentication_attributes) result" where
  "construct_record_by (Closure f) args = f args"
| "construct_record_by (ArcOf r) args = construct_record_by r args"
| "construct_record_by (BoxingRecordConstructor r) args = construct_record_by r args"
| "construct_record_by (BoxedRecordConstructor r) args = construct_record_by r args"
| "construct_record_by (ArcRecordConstructor r) args = construct_record_by r args"

text \<open>
  The daemon's configuration with its record constructor, which it calls with the tunnel's id,
  its name, its attributes and the tunnel itself; \<open>tunnel_of\<close> finds the tunnel of an id.
\<close>

definition with_record_constructor ::
  "(tunnel_id \<Rightarrow> 't) \<Rightarrow> ('t, 'x, 'r) record_constructor \<Rightarrow> ('r, 's, 'i, 'x) daemon_config \<Rightarrow>
   ('r, 's, 'i, 'x) daemon_config" where
  "with_record_constructor tunnel_of rc cfg =
    cfg\<lparr>construct_record := \<lambda>t name attributes. construct_record_by rc
      \<lparr>rc_id = t, rc_name = name, rc_attributes = attributes, rc_tunnel = tunnel_of t\<rparr>\<rparr>"

lemma record_constructor_wrapping [simp]:
  "construct_record_by (boxed_record_constructor_new rc) = construct_record_by rc"
  "construct_record_by (arc_record_constructor_new rc) = construct_record_by rc"
  by (simp_all add: fun_eq_iff boxed_record_constructor_new_def arc_record_constructor_new_def)

text \<open>
  A constructor that fails leaves the registry as it was; one that succeeds has its record
  registered under the tunnel's name, and its attributes are the peer's.
\<close>

lemma registration_uses_constructor:
  fixes rc :: "('t, 'x, 'r) record_constructor"
  defines "args t name attributes tn \<equiv>
    \<lparr>rc_id = t, rc_name = name, rc_attributes = attributes, rc_tunnel = tn\<rparr> :: 't record_constructor_args"
  shows
    "construct_record_by rc (args t name attributes (tunnel_of t)) = Err e \<Longrightarrow>
      register_in_registry (with_record_constructor tunnel_of (arc_record_constructor_new rc) cfg)
        t name attributes d = (Err e, d)"
    "\<lbrakk>construct_record_by rc (args t name attributes (tunnel_of t)) = Ok (r, attributes');
      register_in_registry (with_record_constructor tunnel_of (arc_record_constructor_new rc) cfg)
        t name attributes d = (Ok (peer, identifier), d')\<rbrakk> \<Longrightarrow>
      peer_attributes peer = attributes' \<and>
      registry_register cfg name r (registry d) = (Ok identifier, registry d')"
  by (auto simp: args_def with_record_constructor_def
      register_in_registry_def split: prod.splits sum.splits)

end
