(* ===== verification/Certificates.thy ===== *)
theory Certificates
  imports Command_Line "HOL-Library.Sublist"
begin

text \<open>
  Certificates: their generation (\<open>snocat-cli/src/certgen.rs\<close>), and how the server and the
  client load them (\<open>build_quinn_config\<close> of \<open>server.rs\<close>, the root store in
  \<open>client_main\<close> of \<open>client.rs\<close>). The operations of \<open>std::path\<close> are those of Unix. The
  file system, the generator of key pairs, the PEM parser and the TLS library are parameters.
\<close>

section \<open>Paths\<close>

fun split_path :: "rstr \<Rightarrow> rstr list" where
  "split_path [] = [[]]"
| "split_path (c # cs) =
    (if c = slash then [] # split_path cs else (c # hd (split_path cs)) # tl (split_path cs))"

fun join_path :: "rstr list \<Rightarrow> rstr" where
  "join_path [] = []"
| "join_path [p] = p"
| "join_path (p # ps) = p @ slash # join_path ps"

definition is_absolute :: "rstr \<Rightarrow> bool" where
  "is_absolute s \<longleftrightarrow> s \<noteq> [] \<and> hd s = slash"

text \<open>
  Empty and \<open>.\<close> parts are no components, except a \<open>.\<close> in front of a relative path; those at
  the end are dropped.
\<close>

definition skipped :: "rstr \<Rightarrow> bool" where
  "skipped p \<longleftrightarrow> p = [] \<or> p = lit ''.''"

definition trim_parts :: "rstr list \<Rightarrow> rstr list" where
  "trim_parts ps = rev (dropWhile skipped (rev ps))"

definition trim_path :: "bool \<Rightarrow> rstr list \<Rightarrow> rstr list" where
  "trim_path absolute ps =
    (if \<not> absolute \<and> ps \<noteq> [] \<and> hd ps = lit ''.'' then lit ''.'' # trim_parts (tl ps) else trim_parts ps)"

definition path_parts :: "rstr \<Rightarrow> rstr list" where
  "path_parts s = trim_path (is_absolute s) (split_path (if is_absolute s then tl s else s))"

definition path_of_parts :: "bool \<Rightarrow> rstr list \<Rightarrow> rstr" where
  "path_of_parts absolute ps = (if absolute then [slash] else []) @ join_path ps"

definition path_parent :: "rstr \<Rightarrow> rstr option" where
  "path_parent s =
    (if path_parts s = [] then None
     else Some (path_of_parts (is_absolute s) (trim_path (is_absolute s) (butlast (path_parts s)))))"

definition path_file_name :: "rstr \<Rightarrow> rstr option" where
  "path_file_name s =
    (let ps = path_parts s in
     if ps = [] \<or> last ps = lit ''..'' \<or> last ps = lit ''.'' then None else Some (last ps))"

definition path_push :: "rstr \<Rightarrow> rstr \<Rightarrow> rstr" where
  "path_push s p =
    (if is_absolute p then p else if s = [] \<or> last s = slash then s @ p else s @ slash # p)"

definition with_file_name :: "rstr \<Rightarrow> rstr \<Rightarrow> rstr" where
  "with_file_name s name =
    path_push (if path_file_name s = None then s else case path_parent s of None \<Rightarrow> s | Some p \<Rightarrow> p) name"

text \<open>Splitting and joining are inverse.\<close>

lemma split_path_not_Nil [simp]: "split_path s \<noteq> []"
  by (cases s) auto

lemma split_path_no_sep: "p \<in> set (split_path s) \<Longrightarrow> slash \<notin> set p"
proof (induction s arbitrary: p)
  case (Cons c s)
  then show ?case by (cases "split_path s") (auto split: if_splits)
qed simp

lemma join_path_Cons: "ps \<noteq> [] \<Longrightarrow> join_path (p # ps) = p @ slash # join_path ps"
  by (cases ps) auto

lemma split_plain: "slash \<notin> set p \<Longrightarrow> split_path p = [p]"
  by (induction p) auto

lemma split_append: "slash \<notin> set p \<Longrightarrow> split_path (p @ slash # s) = p # split_path s"
  by (induction p) auto

lemma split_join:
  "ps \<noteq> [] \<Longrightarrow> \<forall>p \<in> set ps. slash \<notin> set p \<Longrightarrow> split_path (join_path ps) = ps"
proof (induction ps)
  case (Cons p ps)
  then show ?case
    by (cases "ps = []") (simp_all add: split_plain join_path_Cons split_append)
qed simp

lemma path_parts_no_sep: "p \<in> set (path_parts s) \<Longrightarrow> slash \<notin> set p"
proof -
  have t: "set (trim_parts ps) \<subseteq> set ps" for ps
    using set_dropWhileD [of _ skipped "rev ps"] by (auto simp: trim_parts_def)
  assume "p \<in> set (path_parts s)"
  then have "p = lit ''.'' \<or> p \<in> set (split_path (if is_absolute s then tl s else s))"
    using t [of "split_path (if is_absolute s then tl s else s)"] t [of "tl (split_path (if is_absolute s then tl s else s))"]
      list.set_sel(2) [of "split_path (if is_absolute s then tl s else s)"]
    by (auto simp: path_parts_def trim_path_def split: if_splits)
  then show ?thesis using split_path_no_sep by (auto simp: lit_def)
qed

lemma trim_parts_prefix: "prefix (trim_parts ps) ps"
  unfolding trim_parts_def by (metis prefixI rev_append rev_rev_ident takeWhile_dropWhile_id)

lemma trim_path_prefix: "prefix (trim_path absolute ps) ps"
  using trim_parts_prefix [of "tl ps"] trim_parts_prefix [of ps]
  by (cases ps) (auto simp: trim_path_def)

lemma trim_parts_last: "trim_parts ps \<noteq> [] \<Longrightarrow> \<not> skipped (last (trim_parts ps))"
  using hd_dropWhile [of skipped "rev ps"] by (simp add: trim_parts_def last_rev)

lemma trim_parts_snoc: "\<not> skipped m \<Longrightarrow> trim_parts (ps @ [m]) = ps @ [m]"
  by (simp add: trim_parts_def)

lemma trim_parts_idem: "trim_parts (trim_parts ps) = trim_parts ps"
  using trim_parts_snoc [of "last (trim_parts ps)" "butlast (trim_parts ps)"] trim_parts_last [of ps]
  by (cases "trim_parts ps = []") (auto simp: trim_parts_def)

lemma trim_path_idem: "trim_path a (trim_path a ps) = trim_path a ps"
  using trim_parts_prefix [of ps] by (cases ps) (auto simp: trim_path_def trim_parts_idem prefix_Cons)

lemma trim_path_snoc: "\<not> skipped m \<Longrightarrow> trim_path a (ps @ [m]) = ps @ [m]"
  using trim_parts_snoc [of m ps] trim_parts_snoc [of m "tl ps"] by (cases ps) (auto simp: trim_path_def skipped_def)

lemma trim_path_last: "trim_path a ps \<noteq> [] \<Longrightarrow> last (trim_path a ps) \<noteq> []"
  using trim_parts_last [of "tl ps"] trim_parts_last [of ps]
  by (auto simp: trim_path_def skipped_def lit_def)

lemma last_join_path: "ps \<noteq> [] \<Longrightarrow> last ps \<noteq> [] \<Longrightarrow> join_path ps \<noteq> [] \<and> last (join_path ps) = last (last ps)"
proof (induction ps)
  case (Cons p ps)
  then show ?case by (cases "ps = []") (auto simp: join_path_Cons)
qed simp

lemma join_path_snoc: "ps \<noteq> [] \<Longrightarrow> join_path (ps @ [m]) = join_path ps @ slash # m"
proof (induction ps)
  case (Cons p ps)
  then show ?case by (cases "ps = []") (auto simp: join_path_Cons)
qed simp

lemma hd_split_path: "s \<noteq> [] \<Longrightarrow> \<not> is_absolute s \<Longrightarrow> hd (split_path s) \<noteq> []"
  by (cases s) (auto simp: is_absolute_def)

lemma path_parts_Nil: "path_parts [] = []"
  by (simp add: path_parts_def is_absolute_def trim_path_def trim_parts_def skipped_def lit_def)

text \<open>The parts of a path whose last part was replaced.\<close>

lemma path_push_parts:
  assumes "slash \<notin> set m" "m \<noteq> []" "qs = [] \<or> last qs \<noteq> []" "\<forall>q \<in> set qs. slash \<notin> set q"
  shows "path_push (path_of_parts a qs) m = path_of_parts a (qs @ [m])"
proof -
  have m: "\<not> is_absolute m" using assms(1,2) by (cases m) (auto simp: is_absolute_def)
  show ?thesis
  proof (cases "qs = []")
    case True
    then show ?thesis using m by (simp add: path_push_def path_of_parts_def)
  next
    case False
    then have j: "join_path qs \<noteq> []" "last (join_path qs) = last (last qs)" "last qs \<noteq> []"
      using assms(3) last_join_path by auto
    moreover have "last (last qs) \<noteq> slash"
      using assms(4) False j(3) by (metis last_in_set)
    ultimately show ?thesis
      using m False by (auto simp: path_push_def path_of_parts_def join_path_snoc)
  qed
qed

lemma parts_of_path:
  assumes "slash \<notin> set m" "\<not> skipped m" "\<forall>q \<in> set qs. slash \<notin> set q" "\<not> a \<and> qs \<noteq> [] \<longrightarrow> hd qs \<noteq> []"
  shows "is_absolute (path_of_parts a (qs @ [m])) = a" "path_parts (path_of_parts a (qs @ [m])) = qs @ [m]"
proof -
  have sp: "split_path (join_path (qs @ [m])) = qs @ [m]"
    using assms by (intro split_join) auto
  have "hd (join_path (qs @ [m])) \<noteq> slash" if "\<not> a"
  proof (cases qs)
    case Nil
    then show ?thesis using assms(1,2) by (cases m) (auto simp: skipped_def)
  next
    case (Cons q ps)
    then show ?thesis using assms(3,4) that by (cases q) (auto simp: join_path_Cons)
  qed
  then show a: "is_absolute (path_of_parts a (qs @ [m])) = a"
    by (auto simp: is_absolute_def path_of_parts_def)
  then show "path_parts (path_of_parts a (qs @ [m])) = qs @ [m]"
    using sp trim_path_snoc [OF assms(2), of a qs] by (cases a) (simp_all add: path_parts_def path_of_parts_def)
qed

lemma with_file_name_ok:
  assumes "path_file_name s \<noteq> None" "slash \<notin> set m" "\<not> skipped m" "m \<noteq> lit ''..''"
  shows "path_file_name (with_file_name s m) = Some m" "path_parent (with_file_name s m) = path_parent s"
proof -
  define a where "a = is_absolute s"
  define qs where "qs = trim_path a (butlast (path_parts s))"
  have ne: "path_parts s \<noteq> []" using assms(1) by (auto simp: path_file_name_def Let_def)
  have parent: "path_parent s = Some (path_of_parts a qs)"
    using ne by (simp add: path_parent_def a_def qs_def)
  have pre: "prefix qs (path_parts s)"
    unfolding qs_def using trim_path_prefix prefix_order.trans prefixeq_butlast by blast
  then have sep: "\<forall>q \<in> set qs. slash \<notin> set q"
    using path_parts_no_sep set_mono_prefix by blast
  have "hd qs \<noteq> []" if "\<not> a" "qs \<noteq> []"
  proof -
    have "prefix qs (split_path s)"
      using pre that(1) trim_path_prefix [of a "split_path s"] prefix_order.trans
      by (auto simp: path_parts_def a_def)
    then have "hd qs = hd (split_path s)" using that(2) by (cases qs) (auto simp: prefix_def)
    moreover have "s \<noteq> []" using ne path_parts_Nil by auto
    ultimately show ?thesis using hd_split_path [of s] that(1) by (simp add: a_def)
  qed
  moreover have "qs = [] \<or> last qs \<noteq> []" unfolding qs_def using trim_path_last by blast
  moreover have "with_file_name s m = path_push (path_of_parts a qs) m"
    using assms(1) parent by (auto simp: with_file_name_def)
  ultimately have w: "with_file_name s m = path_of_parts a (qs @ [m])"
    "is_absolute (with_file_name s m) = a" "path_parts (with_file_name s m) = qs @ [m]"
    using path_push_parts [of m qs a] parts_of_path [of m qs a] assms(2,3) sep by (auto simp: skipped_def)
  show "path_file_name (with_file_name s m) = Some m"
    using w(3) assms(3,4) by (simp add: path_file_name_def skipped_def)
  show "path_parent (with_file_name s m) = path_parent s"
    using w(2,3) parent by (simp add: path_parent_def trim_path_idem qs_def)
qed

section \<open>The file system\<close>

record 'f fs_ops =
  fs_create_dir_all :: "rstr \<Rightarrow> 'f \<Rightarrow> (anyhow, unit) result \<times> 'f"
  fs_write :: "rstr \<Rightarrow> byte list \<Rightarrow> 'f \<Rightarrow> (anyhow, unit) result \<times> 'f"
  fs_read :: "rstr \<Rightarrow> 'f \<Rightarrow> (anyhow, byte list) result"

text \<open>
  What was written is read back, and writing one file leaves a file \<open>apart\<close> from it as it is;
  two names of one file, by a link, are not apart.
\<close>

locale file_system =
  fixes F :: "'f fs_ops" and apart :: "rstr \<Rightarrow> rstr \<Rightarrow> bool"
  assumes write_read: "fs_write F p b s = (Inr u, s') \<Longrightarrow> fs_read F p s' = Ok b"
    and write_apart: "apart p q \<Longrightarrow> fs_write F p b s = (r, s') \<Longrightarrow> fs_read F q s' = fs_read F q s"

definition map_files :: "(rstr \<rightharpoonup> byte list) fs_ops" where
  "map_files =
    \<lparr>fs_create_dir_all = (\<lambda>p s. (Ok (), s)), fs_write = (\<lambda>p b s. (Ok (), s(p \<mapsto> b))),
     fs_read = (\<lambda>p s. ok_or (lit ''No such file or directory'') (s p))\<rparr>"

interpretation file_map: file_system map_files "(\<noteq>)"
  by unfold_locales (auto simp: map_files_def)

section \<open>Generating certificates\<close>

record ('c, 'k) cert_generator =
  generate_simple_self_signed :: "rstr \<Rightarrow> (anyhow, 'c \<times> 'k) result"
  cert_pem :: "'c \<Rightarrow> byte list"
  key_pem :: "'k \<Rightarrow> byte list"

definition context_of :: "string \<Rightarrow> ('e, 'a) result \<Rightarrow> (anyhow, 'a) result" where
  "context_of m r = map_err (\<lambda>_. lit m) r"

definition cert_file :: "rstr \<Rightarrow> rstr \<Rightarrow> string \<Rightarrow> rstr" where
  "cert_file path name sfx = with_file_name path (name @ lit sfx)"

text \<open>\<open>None\<close> is the panic of \<open>unwrap\<close> on a path without a file name.\<close>

definition certgen_main ::
  "'f fs_ops \<Rightarrow> ('c, 'k) cert_generator \<Rightarrow> rstr \<Rightarrow> rstr \<Rightarrow> 'f \<Rightarrow> (anyhow, unit) result option \<times> 'f" where
  "certgen_main F G path host_san s =
    (case (case path_parent path of None \<Rightarrow> (Ok (), s) | Some parent \<Rightarrow> fs_create_dir_all F parent s) of
       (Inl e, s) \<Rightarrow> (Some (Err (lit ''Directory creation must succeed for certs'')), s)
     | (Inr _, s) \<Rightarrow>
         (case context_of ''Certificate generation failed'' (generate_simple_self_signed G host_san) of
            Inl e \<Rightarrow> (Some (Err e), s)
          | Inr (certificate, signing_key) \<Rightarrow>
              (case path_file_name path of
                 None \<Rightarrow> (None, s)
               | Some name \<Rightarrow>
                   (case fs_write F (cert_file path name ''.pub.pem'') (cert_pem G certificate) s of
                      (Inl e, s) \<Rightarrow> (Some (Err (lit ''Failed writing public key'')), s)
                    | (Inr _, s) \<Rightarrow>
                        (case fs_write F (cert_file path name ''.priv.pem'') (key_pem G signing_key) s of
                           (Inl e, s) \<Rightarrow> (Some (Err (lit ''Failed writing private key'')), s)
                         | (Inr _, s) \<Rightarrow> (Some (Ok ()), s))))))"

lemma file_name_no_sep: "path_file_name s = Some n \<Longrightarrow> slash \<notin> set n \<and> n \<noteq> []"
proof -
  assume n: "path_file_name s = Some n"
  then have "path_parts s \<noteq> []" "n = last (path_parts s)"
    by (auto simp: path_file_name_def Let_def split: if_splits)
  moreover have "last (path_parts s) \<noteq> []" if "path_parts s \<noteq> []"
    using that trim_path_last unfolding path_parts_def by blast
  ultimately show ?thesis using path_parts_no_sep [of n s] by auto
qed

lemma cert_file_name:
  assumes "path_file_name path = Some name" "slash \<notin> set (lit sfx)" "2 < length sfx"
  shows "path_file_name (cert_file path name sfx) = Some (name @ lit sfx)"
    "path_parent (cert_file path name sfx) = path_parent path"
proof -
  have "length (lit sfx) = length sfx" by (simp add: lit_def)
  then have "\<not> skipped (name @ lit sfx)" "name @ lit sfx \<noteq> lit ''..''"
    using assms(3) by (auto simp: skipped_def lit_def dest: arg_cong [of _ _ length])
  then show "path_file_name (cert_file path name sfx) = Some (name @ lit sfx)"
    "path_parent (cert_file path name sfx) = path_parent path"
    using with_file_name_ok [of path "name @ lit sfx"] file_name_no_sep [OF assms(1)] assms
    by (simp_all add: cert_file_def)
qed

lemma certgen_main_Ok:
  assumes "certgen_main F G path host_san s0 = (Some (Ok ()), s)"
  obtains name c k s1 s2 u v where "path_file_name path = Some name"
    "generate_simple_self_signed G host_san = Ok (c, k)"
    "fs_write F (cert_file path name ''.pub.pem'') (cert_pem G c) s1 = (Inr u, s2)"
    "fs_write F (cert_file path name ''.priv.pem'') (key_pem G k) s2 = (Inr v, s)"
  using assms
  by (cases "generate_simple_self_signed G host_san") (auto simp: certgen_main_def context_of_def split: sum.splits prod.splits option.splits)

lemma cert_files_apart:
  assumes "path_file_name path = Some name"
  shows "cert_file path name ''.pub.pem'' \<noteq> cert_file path name ''.priv.pem''"
    "path_parent (cert_file path name ''.pub.pem'') = path_parent path"
    "path_parent (cert_file path name ''.priv.pem'') = path_parent path"
    "path_file_name (cert_file path name ''.pub.pem'') = Some (name @ lit ''.pub.pem'')"
    "path_file_name (cert_file path name ''.priv.pem'') = Some (name @ lit ''.priv.pem'')"
proof -
  note names = cert_file_name [OF assms, of "''.pub.pem''"] cert_file_name [OF assms, of "''.priv.pem''"]
  have seps: "slash \<notin> set (lit ''.pub.pem'')" "slash \<notin> set (lit ''.priv.pem'')" by (simp_all add: lit_def)
  show "path_parent (cert_file path name ''.pub.pem'') = path_parent path"
    "path_parent (cert_file path name ''.priv.pem'') = path_parent path"
    "path_file_name (cert_file path name ''.pub.pem'') = Some (name @ lit ''.pub.pem'')"
    "path_file_name (cert_file path name ''.priv.pem'') = Some (name @ lit ''.priv.pem'')"
    using names seps by simp_all
  then show "cert_file path name ''.pub.pem'' \<noteq> cert_file path name ''.priv.pem''"
    by (auto simp: lit_def)
qed

text \<open>
  C38: what certificate generation leaves behind, and when it fails. It succeeds exactly when the
  directory could be made, the key pair generated, the path has a file name and both files could
  be written; then the public certificate and the private key of that pair are in two different
  files beside each other, in the directory of the given path and named by its file name with
  \<open>.pub.pem\<close> and \<open>.priv.pem\<close> (the first one as long as the file system keeps the two paths
  apart, since it is written first). It panics exactly when the directory and the key pair could
  be made and the path has no file name, such as one that ends in \<open>..\<close>. In every other case it
  returns an error: when the directory or the key pair failed nothing was written, and when the
  public file could not be written the private one is not attempted.
\<close>

theorem certgen_files:
  assumes "file_system F apart" "certgen_main F G path host_san s0 = (r, s)"
    and "made = (case path_parent path of None \<Rightarrow> (Ok (), s0) | Some p \<Rightarrow> fs_create_dir_all F p s0)"
  shows "case (fst made, generate_simple_self_signed G host_san, path_file_name path) of
      (Inr _, Inr (c, k), Some name) \<Rightarrow>
        (let pub = cert_file path name ''.pub.pem''; priv = cert_file path name ''.priv.pem'';
             pub_written = fs_write F pub (cert_pem G c) (snd made);
             priv_written = fs_write F priv (key_pem G k) (snd pub_written)
         in pub \<noteq> priv \<and> path_parent pub = path_parent path \<and> path_parent priv = path_parent path \<and>
           path_file_name pub = Some (name @ lit ''.pub.pem'') \<and> path_file_name priv = Some (name @ lit ''.priv.pem'') \<and>
           (r = Some (Ok ()) \<longleftrightarrow> is_ok (fst pub_written) \<and> is_ok (fst priv_written)) \<and>
           (r = Some (Ok ()) \<longrightarrow> fs_read F priv s = Ok (key_pem G k) \<and>
              (apart priv pub \<longrightarrow> fs_read F pub s = Ok (cert_pem G c))) \<and>
           (r \<noteq> Some (Ok ()) \<longrightarrow> (\<exists>e. r = Some (Err e)) \<and>
              s = (if is_ok (fst pub_written) then snd priv_written else snd pub_written)))
    | (Inr _, Inr _, None) \<Rightarrow> r = None \<and> s = snd made
    | _ \<Rightarrow> (\<exists>e. r = Some (Err e)) \<and> s = snd made"
proof (cases "fst made")
  case (Inl e)
  then show ?thesis
    using assms(2) unfolding certgen_main_def assms(3) [symmetric] by (auto split: prod.splits)
next
  case (Inr u)
  note dir = Inr
  show ?thesis
  proof (cases "generate_simple_self_signed G host_san")
    case (Inl e)
    then show ?thesis
      using assms(2) dir unfolding certgen_main_def assms(3) [symmetric] context_of_def by (auto split: prod.splits)
  next
    case (Inr p)
    note pair = Inr
    obtain c k where p: "p = (c, k)" by fastforce
    show ?thesis
    proof (cases "path_file_name path")
      case None
      then show ?thesis
        using assms(2) dir pair p unfolding certgen_main_def assms(3) [symmetric] context_of_def by (auto split: prod.splits)
    next
      case (Some name)
      obtain w1 s1 where w1: "fs_write F (cert_file path name ''.pub.pem'') (cert_pem G c) (snd made) = (w1, s1)" by fastforce
      obtain w2 s2 where w2: "fs_write F (cert_file path name ''.priv.pem'') (key_pem G k) s1 = (w2, s2)" by fastforce
      have "(r, s) = (case w1 of Inl e \<Rightarrow> (Some (Err (lit ''Failed writing public key'')), s1)
          | Inr _ \<Rightarrow> (case w2 of Inl e \<Rightarrow> (Some (Err (lit ''Failed writing private key'')), s2) | Inr _ \<Rightarrow> (Some (Ok ()), s2)))"
        using assms(2) dir pair p Some w1 w2 unfolding certgen_main_def assms(3) [symmetric] context_of_def
        by (cases made) (auto split: sum.splits)
      then show ?thesis
        using dir pair p Some w1 w2 cert_files_apart [OF Some]
          file_system.write_read [OF assms(1)] file_system.write_apart [OF assms(1)]
        by (cases w1; cases w2) (auto simp: Let_def)
    qed
  qed
qed

definition sample_generator :: "(rstr, nat) cert_generator" where
  "sample_generator =
    \<lparr>generate_simple_self_signed = (\<lambda>san. Ok (san, 5)), cert_pem = (\<lambda>c. into_bytes c), key_pem = (\<lambda>k. [of_nat k])\<rparr>"

theorem certgen_files_witness:
  "\<exists>s. certgen_main map_files sample_generator (lit ''certs/./dev/'') (lit ''x'') Map.empty = (Some (Ok ()), s) \<and>
     fs_read map_files (lit ''certs/dev.pub.pem'') s = Ok [120] \<and>
     fs_read map_files (lit ''certs/dev.priv.pem'') s = Ok [5] \<and>
     fst (certgen_main map_files sample_generator (lit ''certs/..'') (lit ''x'') Map.empty) = None"
proof -
  let ?p = "lit ''certs/./dev/''"
  have n: "path_file_name ?p = Some (lit ''dev'')" "path_file_name (lit ''certs/..'') = None"
      "cert_file ?p (lit ''dev'') ''.pub.pem'' = lit ''certs/dev.pub.pem''"
      "cert_file ?p (lit ''dev'') ''.priv.pem'' = lit ''certs/dev.priv.pem''" "into_bytes (lit ''x'') = [120]"
    by code_simp+
  have "fst (certgen_main map_files sample_generator ?p (lit ''x'') Map.empty) = Some (Ok ())"
    by (auto simp: certgen_main_def sample_generator_def map_files_def context_of_def n(1) split: option.splits)
  then obtain s where s: "certgen_main map_files sample_generator ?p (lit ''x'') Map.empty = (Some (Ok ()), s)"
    by (metis prod.collapse)
  obtain r t where r: "certgen_main map_files sample_generator (lit ''certs/..'') (lit ''x'') Map.empty = (r, t)"
    by fastforce
  have g: "generate_simple_self_signed sample_generator (lit ''x'') = Ok (lit ''x'', 5)" "cert_pem sample_generator = into_bytes"
      "key_pem sample_generator 5 = [5]"
    by (simp_all add: sample_generator_def)
  have made: "(case path_parent p of None \<Rightarrow> (Ok (), m) | Some q \<Rightarrow> fs_create_dir_all map_files q m) = (Ok (), m)" for p m
    by (simp add: map_files_def split: option.splits)
  have "r = None"
    using certgen_files [OF file_map.file_system_axioms r refl] n(2) g made by simp
  then show ?thesis
    using certgen_files [OF file_map.file_system_axioms s refl] s r n g made by (simp add: Let_def) (elim conjE mp, erule not_sym)
qed

section \<open>Loading certificates\<close>

definition ALPN_PREFIX_MS :: "byte list" where
  "ALPN_PREFIX_MS = into_bytes (lit ''ms-'')"

definition ALPN_PREFIX_MS_SNOCAT :: "byte list" where
  "ALPN_PREFIX_MS_SNOCAT = into_bytes (lit ''ms-snocat-'')"

definition ALPN_MS_SNOCAT_1 :: "byte list" where
  "ALPN_MS_SNOCAT_1 = into_bytes (lit ''ms-snocat-1'')"

text \<open>
  The PEM parser and the TLS library: \<open>'d\<close> and \<open>'p\<close> are certificates and private keys,
  \<open>'s\<close> is a root store, \<open>'t\<close> and \<open>'u\<close> the TLS configurations of server and client,
  \<open>'q\<close> and \<open>'r\<close> those configurations taken over by quinn.
\<close>

record 't crypto_config =
  tls_config :: 't
  alpn_protocols :: "byte list list"
  key_log_file :: bool

record ('d, 'p, 's, 't, 'u, 'q, 'r) tls_env =
  pem_private_key :: "byte list \<Rightarrow> (anyhow, 'p option) result"
  pem_certs :: "byte list \<Rightarrow> (anyhow, 'd) result list"
  select_tls13 :: "(anyhow, unit) result"
  with_single_cert :: "'d list \<Rightarrow> 'p \<Rightarrow> (anyhow, 't) result"
  server_quic_config :: "'t crypto_config \<Rightarrow> (anyhow, 'q) result"
  empty_store :: 's
  store_add :: "'d \<Rightarrow> 's \<Rightarrow> (anyhow, 's) result"
  store_add_parsable :: "'d list \<Rightarrow> 's \<Rightarrow> 's"
  native_certs :: "'d list"
  with_root_certificates :: "'s \<Rightarrow> 'u"
  client_quic_config :: "'u crypto_config \<Rightarrow> (anyhow, 'r) result"

fun collect_results :: "('e, 'a) result list \<Rightarrow> ('e, 'a list) result" where
  "collect_results [] = Ok []"
| "collect_results (r # rs) = and_then r (\<lambda>a. map_ok (\<lambda>as. a # as) (collect_results rs))"

subsection \<open>The server\<close>

text \<open>Windows in bytes, the keep-alive interval in seconds and the idle timeout in milliseconds.\<close>

record 'q quinn_server_config =
  server_crypto :: 'q
  keep_alive_interval :: "nat option"
  receive_window :: "32 word"
  send_window :: "64 word"
  stream_receive_window :: "32 word"
  max_idle_timeout :: "nat option"
  migration :: bool

text \<open>A QUIC variable-length integer has 62 bits; \<open>None\<close> is the panic of \<open>unwrap\<close>.\<close>

definition idle_timeout_of_secs :: "nat \<Rightarrow> nat option" where
  "idle_timeout_of_secs secs = (if secs * 1000 < 2 ^ 62 then Some (secs * 1000) else None)"

definition build_quinn_config ::
  "'f fs_ops \<Rightarrow> ('d, 'p, 's, 't, 'u, 'q, 'r) tls_env \<Rightarrow> server_args \<Rightarrow> 'f \<Rightarrow>
   (anyhow, 'q quinn_server_config) result option" where
  "build_quinn_config F E cfg s =
    (case and_then (context_of ''Failed reading cert file'' (fs_read F (cert cfg) s)) (\<lambda>cert_bytes.
          and_then (context_of ''Failed reading private key file'' (fs_read F (key cfg) s)) (\<lambda>priv_bytes.
          and_then (context_of ''Quinn .pem parsing of private key failed'' (pem_private_key E priv_bytes)) (\<lambda>parsed_key.
          and_then (ok_or (lit ''Quinn private key .pem must contain exactly one private key'') parsed_key) (\<lambda>priv_key.
          and_then (context_of ''Quinn .pem parsing of certificates failed'' (collect_results (pem_certs E cert_bytes))) (\<lambda>cert_chain.
          and_then (context_of ''Failed to select TLS1.3 protocol version'' (select_tls13 E)) (\<lambda>_.
          with_single_cert E cert_chain priv_key)))))) of
       Inl e \<Rightarrow> Some (Err e)
     | Inr tls \<Rightarrow>
         Option.bind (idle_timeout_of_secs 30) (\<lambda>idle.
         Some (map_ok (\<lambda>crypto.
             \<lparr>server_crypto = crypto, keep_alive_interval = Some 5, receive_window = 512 * 1024 * 1024,
              send_window = 512 * 1024 * 1024, stream_receive_window = 512 * 1024 * 1024 div 8,
              max_idle_timeout = Some idle, migration = True\<rparr>)
           (context_of ''Failed to build QUIC server crypto config''
             (server_quic_config E \<lparr>tls_config = tls, alpn_protocols = [ALPN_MS_SNOCAT_1], key_log_file = True\<rparr>)))))"

subsection \<open>The client\<close>

fun add_roots :: "('d, 'p, 's, 't, 'u, 'q, 'r) tls_env \<Rightarrow> 'd list \<Rightarrow> 's \<Rightarrow> (anyhow, 's) result" where
  "add_roots E [] st = Ok st"
| "add_roots E (authority # rest) st =
    and_then (context_of ''Failed to add root authority'' (store_add E authority st)) (add_roots E rest)"

definition client_root_store ::
  "'f fs_ops \<Rightarrow> ('d, 'p, 's, 't, 'u, 'q, 'r) tls_env \<Rightarrow> client_args \<Rightarrow> 'f \<Rightarrow> (anyhow, 's) result" where
  "client_root_store F E cfg s =
    map_ok (store_add_parsable E (native_certs E))
      (case authority_cert cfg of
         None \<Rightarrow> Ok (empty_store E)
       | Some path \<Rightarrow>
           and_then (context_of ''Failed reading authority cert file'' (fs_read F path s)) (\<lambda>authority_bytes.
           and_then (context_of ''Quinn .pem parsing of authority certificate(s) failed''
             (collect_results (pem_certs E authority_bytes))) (\<lambda>chain.
           add_roots E chain (empty_store E))))"

definition client_quinn_config ::
  "'f fs_ops \<Rightarrow> ('d, 'p, 's, 't, 'u, 'q, 'r) tls_env \<Rightarrow> client_args \<Rightarrow> 'f \<Rightarrow> (anyhow, 'r) result" where
  "client_quinn_config F E cfg s =
    and_then (client_root_store F E cfg s) (\<lambda>root_authorities.
    and_then (context_of ''Failed to select TLS1.3 protocol version'' (select_tls13 E)) (\<lambda>_.
    context_of ''Failed to build QUIC client crypto config''
      (client_quic_config E \<lparr>tls_config = with_root_certificates E root_authorities,
         alpn_protocols = [ALPN_MS_SNOCAT_1], key_log_file = True\<rparr>)))"

text \<open>The settings of the transport keep a live connection open, and no constant wraps around.\<close>

lemma server_transport_settings:
  assumes "build_quinn_config F E cfg s = Some (Ok c)"
  shows "\<exists>keep idle. keep_alive_interval c = Some keep \<and> max_idle_timeout c = Some idle \<and> keep * 1000 < idle \<and>
    unat (receive_window c) = 2 ^ 29 \<and> unat (send_window c) = 2 ^ 29 \<and> 8 * unat (stream_receive_window c) = 2 ^ 29"
proof -
  have "keep_alive_interval c = Some 5" "max_idle_timeout c = Some 30000" "receive_window c = 512 * 1024 * 1024"
      "send_window c = 512 * 1024 * 1024" "stream_receive_window c = 512 * 1024 * 1024 div 8"
    using assms by (auto simp: build_quinn_config_def idle_timeout_of_secs_def map_ok_Inr_iff split: sum.splits)
  then show ?thesis by simp
qed

section \<open>Generated certificates are loaded\<close>

text \<open>
  What the PEM parser makes of the output of the generator: exactly the certificate \<open>d\<close> and
  the key \<open>p\<close>.
\<close>

definition pem_reads_back ::
  "('c, 'k) cert_generator \<Rightarrow> ('d, 'p, 's, 't, 'u, 'q, 'r) tls_env \<Rightarrow> ('c \<Rightarrow> 'd) \<Rightarrow> ('k \<Rightarrow> 'p) \<Rightarrow> bool" where
  "pem_reads_back G E der private \<longleftrightarrow>
    (\<forall>c. pem_certs E (cert_pem G c) = [Ok (der c)]) \<and> (\<forall>k. pem_private_key E (key_pem G k) = Ok (Some (private k)))"

lemma generated_files_read:
  assumes "file_system F apart" "certgen_main F G path host_san s0 = (Some (Ok ()), s)"
    and "path_file_name path = Some name" "generate_simple_self_signed G host_san = Ok (c, k)"
    and "apart (cert_file path name ''.priv.pem'') (cert_file path name ''.pub.pem'')"
  shows "fs_read F (cert_file path name ''.pub.pem'') s = Ok (cert_pem G c)"
    "fs_read F (cert_file path name ''.priv.pem'') s = Ok (key_pem G k)"
proof -
  obtain n d j s1 s2 u v where w: "path_file_name path = Some n" "generate_simple_self_signed G host_san = Ok (d, j)"
      "fs_write F (cert_file path n ''.pub.pem'') (cert_pem G d) s1 = (Inr u, s2)"
      "fs_write F (cert_file path n ''.priv.pem'') (key_pem G j) s2 = (Inr v, s)"
    by (rule certgen_main_Ok [OF assms(2)])
  have eq: "n = name" "d = c" "j = k" using w(1,2) assms(3,4) by simp_all
  show "fs_read F (cert_file path name ''.pub.pem'') s = Ok (cert_pem G c)"
    using file_system.write_read [OF assms(1) w(3)] file_system.write_apart [OF assms(1,5), of _ s2 _ s] w(4) eq by simp
  show "fs_read F (cert_file path name ''.priv.pem'') s = Ok (key_pem G k)"
    using file_system.write_read [OF assms(1) w(4)] eq by simp
qed

text \<open>
  C37: the files of a successful certificate generation are what the server and the client need.
  A server that is given them as its certificate and key presents exactly the generated
  certificate with its key, a client that is given the public file as its authority has exactly
  the generated certificate beside the native ones in its root store, and both offer the same
  application protocol, whenever the TLS library takes the certificate and the PEM parser reads
  back what the generator wrote.
\<close>

theorem generated_certificates_loaded:
  assumes "file_system F apart" "certgen_main F G path host_san s0 = (Some (Ok ()), s)"
    and "path_file_name path = Some name" "generate_simple_self_signed G host_san = Ok (c, k)"
    and "apart (cert_file path name ''.priv.pem'') (cert_file path name ''.pub.pem'')"
    and "cert scfg = cert_file path name ''.pub.pem''" "key scfg = cert_file path name ''.priv.pem''"
    and "authority_cert ccfg = Some (cert_file path name ''.pub.pem'')"
    and "pem_reads_back G E der private" "select_tls13 E = Ok ()"
    and "with_single_cert E [der c] (private k) = Ok tls" "store_add E (der c) (empty_store E) = Ok st"
  shows "build_quinn_config F E scfg s =
      Some (map_ok (\<lambda>crypto.
             \<lparr>server_crypto = crypto, keep_alive_interval = Some 5, receive_window = 2 ^ 29,
              send_window = 2 ^ 29, stream_receive_window = 2 ^ 26, max_idle_timeout = Some 30000, migration = True\<rparr>)
        (context_of ''Failed to build QUIC server crypto config''
          (server_quic_config E \<lparr>tls_config = tls, alpn_protocols = [ALPN_MS_SNOCAT_1], key_log_file = True\<rparr>))) \<and>
    client_quinn_config F E ccfg s = context_of ''Failed to build QUIC client crypto config''
      (client_quic_config E \<lparr>tls_config = with_root_certificates E (store_add_parsable E (native_certs E) st),
         alpn_protocols = [ALPN_MS_SNOCAT_1], key_log_file = True\<rparr>)"
proof -
  have read: "fs_read F (cert scfg) s = Ok (cert_pem G c)" "fs_read F (key scfg) s = Ok (key_pem G k)"
    using generated_files_read [OF assms(1-5)] assms(6,7) by simp_all
  have pem: "pem_certs E (cert_pem G c) = [Ok (der c)]" "pem_private_key E (key_pem G k) = Ok (Some (private k))"
    using assms(9) by (simp_all add: pem_reads_back_def)
  have auth: "authority_cert ccfg = Some (cert scfg)" using assms(6,8) by simp
  show ?thesis
    by (simp add: build_quinn_config_def client_quinn_config_def client_root_store_def context_of_def
        idle_timeout_of_secs_def read pem auth assms(10-12))
qed

definition sample_tls ::
  "(byte list, byte list, byte list list, byte list list \<times> byte list, byte list list,
    (byte list list \<times> byte list) crypto_config, byte list list crypto_config) tls_env" where
  "sample_tls =
    \<lparr>pem_private_key = (\<lambda>b. Ok (Some b)), pem_certs = (\<lambda>b. [Ok b]), select_tls13 = Ok (),
     with_single_cert = (\<lambda>ds p. Ok (ds, p)), server_quic_config = Ok, empty_store = [],
     store_add = (\<lambda>d st. Ok (d # st)), store_add_parsable = (\<lambda>ds st. st @ ds), native_certs = [[1]],
     with_root_certificates = (\<lambda>st. st), client_quic_config = Ok\<rparr>"

definition sample_client :: client_args where
  "sample_client =
    \<lparr>authority_cert = Some (lit ''certs/dev.pub.pem''), driver_host = SockV4 (Ipv4 127 0 0 1) 9090,
     driver_san = lit ''x'', proxy_target_host = SockV4 (Ipv4 127 0 0 1) 80\<rparr>"

definition sample_server :: server_args where
  "sample_server =
    \<lparr>cert = lit ''certs/dev.pub.pem'', key = lit ''certs/dev.priv.pem'', quinn_bind_addr = SockV4 (Ipv4 127 0 0 1) 9090,
     tcp_bind_ip = V4 (Ipv4 127 0 0 1), tcp_bind_port_range = (8080, 8090)\<rparr>"

theorem generated_certificates_loaded_witness:
  "\<exists>s c. certgen_main map_files sample_generator (lit ''certs/dev'') (lit ''x'') Map.empty = (Some (Ok ()), s) \<and>
     build_quinn_config map_files sample_tls sample_server s = Some (Ok c) \<and>
     tls_config (server_crypto c) = ([[120]], [5]) \<and>
     client_quinn_config map_files sample_tls sample_client s =
       Ok \<lparr>tls_config = [[120], [1]], alpn_protocols = [ALPN_MS_SNOCAT_1], key_log_file = True\<rparr>"
proof -
  let ?p = "lit ''certs/dev''"
  have n: "path_file_name ?p = Some (lit ''dev'')"
      "cert_file ?p (lit ''dev'') ''.pub.pem'' = lit ''certs/dev.pub.pem''"
      "cert_file ?p (lit ''dev'') ''.priv.pem'' = lit ''certs/dev.priv.pem''" "into_bytes (lit ''x'') = [120]"
    by code_simp+
  have "fst (certgen_main map_files sample_generator ?p (lit ''x'') Map.empty) = Some (Ok ())"
    by (auto simp: certgen_main_def sample_generator_def map_files_def context_of_def n(1) split: option.splits)
  then obtain s where s: "certgen_main map_files sample_generator ?p (lit ''x'') Map.empty = (Some (Ok ()), s)"
    by (metis prod.collapse)
  have g: "generate_simple_self_signed sample_generator (lit ''x'') = Ok (lit ''x'', 5)"
    by (simp add: sample_generator_def)
  have pem: "pem_reads_back sample_generator sample_tls into_bytes (\<lambda>k. [of_nat k])"
    by (simp add: pem_reads_back_def sample_generator_def sample_tls_def)
  have args: "cert sample_server = cert_file ?p (lit ''dev'') ''.pub.pem''" "key sample_server = cert_file ?p (lit ''dev'') ''.priv.pem''"
      "authority_cert sample_client = Some (cert_file ?p (lit ''dev'') ''.pub.pem'')"
      "cert_file ?p (lit ''dev'') ''.priv.pem'' \<noteq> cert_file ?p (lit ''dev'') ''.pub.pem''"
    using n by (simp_all add: sample_server_def sample_client_def lit_def)
  show ?thesis
    using generated_certificates_loaded [OF file_map.file_system_axioms s n(1) g args(4,1,2,3) pem, of "([[120]], [5])" "[[120]]"] s n(4)
    by (simp add: sample_tls_def context_of_def)
qed

end
