(* ===== verification/Programs.thy ===== *)
theory Programs
  imports Certificates Extensions Tunnel_Traits
begin

text \<open>
  The two programs put together: \<open>server_main\<close> (\<open>snocat-cli/src/server.rs\<close>) and
  \<open>client_main\<close> (\<open>client.rs\<close>). Each loads its configuration, sets up the daemon and runs
  it. The run of the daemon, the clock, and what connects and binds are parameters; everything
  that is handed to the daemon is the model's own.
\<close>

section \<open>What the daemon is given\<close>

text \<open>The clock gives the milliseconds since the epoch, and \<open>None\<close> before it, which is a panic.\<close>

record ('v, 'm, 'j, 'c, 'y, 'd) daemon_setup =
  setup_services :: 'v
  setup_config :: "(in_memory_registry_record, 'm in_memory, tunnel_name, 'j in_memory_error) daemon_config"
  setup_daemon :: "('m in_memory, tunnel_name) daemon"
  setup_tunnels :: "('c, 64 word) constructed_tunnel_stream"
  setup_accept :: "'y \<Rightarrow> ('d \<times> tunnel_side) option"

text \<open>
  The record constructor of both programs, in its wrappers. The items of \<open>source\<close> that
  \<open>accept\<close> keeps are made into tunnels, with ids counted up from the time.
\<close>

definition main_record_constructor :: "('t, 'x, in_memory_registry_record) record_constructor" where
  "main_record_constructor = ArcOf (arc_record_constructor_new
    (Closure (\<lambda>args. Ok ((rc_id args, rc_name args, rc_attributes args), rc_attributes args))))"

definition daemon_setup_of ::
  "('m, tunnel_name, in_memory_registry_record) dashmap \<Rightarrow> 'v \<Rightarrow> nat \<Rightarrow> 'c \<Rightarrow> ('y \<Rightarrow> ('d \<times> tunnel_side) option) \<Rightarrow>
   ('v, 'm, 'j, 'c, 'y, 'd) daemon_setup" where
  "daemon_setup_of D offered millis source accept =
    \<lparr>setup_services = offered,
     setup_config = with_record_constructor (\<lambda>t. t) main_record_constructor (main_daemon_config D),
     setup_daemon = daemon_new (in_memory_new D),
     setup_tunnels = daemon_construct_tunnels (generator_new (of_nat millis)) source,
     setup_accept = accept\<rparr>"

lemma setup_config_main [simp]:
  "setup_config (daemon_setup_of D offered millis source accept) = main_daemon_config D"
  by (simp add: daemon_setup_of_def with_record_constructor_def main_record_constructor_def main_daemon_config_def)

section \<open>The server\<close>

definition server_main ::
  "'f fs_ops \<Rightarrow> ('d, 'p, 's, 't, 'u, 'q, 'r) tls_env \<Rightarrow>
   ('q quinn_server_config \<Rightarrow> socket_addr \<Rightarrow> (anyhow, 'i option list) result) \<Rightarrow> nat option \<Rightarrow>
   ('m, tunnel_name, in_memory_registry_record) dashmap \<Rightarrow> ('j, 'l) demand_env \<Rightarrow>
   ((peer_tracker \<Rightarrow> (tunnel_id, anyhow) preset_service_registry, 'm, 'x, 'i quinn_listen_endpoint,
       'n \<times> tunnel_side, 'c) daemon_setup \<Rightarrow> (join_error, unit) result) \<Rightarrow> ('n \<Rightarrow> ('e, 'c) result) \<Rightarrow> server_args \<Rightarrow> 'f \<Rightarrow> (anyhow, unit) result option" where
  "server_main F E bind clock D J run handshake cfg s =
    Option.bind (build_quinn_config F E cfg s) (\<lambda>built.
      case and_then built (listen_bind bind (quinn_bind_addr cfg)) of
        Inl e \<Rightarrow> Some (Err e)
      | Inr source \<Rightarrow>
          Option.bind clock (\<lambda>millis.
          Some (map_err (\<lambda>_. lit ''Modular runtime panicked and lost context'')
            (run (daemon_setup_of D (server_services J cfg) millis source (established handshake))))))"

section \<open>The client\<close>

text \<open>
  The task that demands a proxy and waits for its end. \<open>route\<close> is the routed request up to the
  point where the wait ends or a shutdown is requested.
\<close>

definition client_watcher ::
  "'j demand_json \<Rightarrow> client_args \<Rightarrow> (demand_proxy_address_error \<Rightarrow> anyhow) \<Rightarrow>
   ((socket_addr list \<times> (unit client_error, unit) result io, unit) request \<Rightarrow> (anyhow, anyhow watcher_end) result) \<Rightarrow>
   (anyhow, unit) result" where
  "client_watcher J cfg anyhow_of route =
    and_then (map_err anyhow_of (client_demand J cfg)) (\<lambda>req. and_then (route req) watcher_result)"

text \<open>Both tasks must end well; the first error is the result.\<close>

datatype ends_first = DaemonFirst | WatcherFirst

fun join_client_tasks ::
  "ends_first \<Rightarrow> (anyhow, unit) result \<Rightarrow> (anyhow, unit) result \<Rightarrow> (anyhow, unit) result" where
  "join_client_tasks DaemonFirst daemon_res watcher_res = and_then daemon_res (\<lambda>_. watcher_res)"
| "join_client_tasks WatcherFirst daemon_res watcher_res = and_then watcher_res (\<lambda>_. daemon_res)"

definition client_services ::
  "(tcp_stream_service \<Rightarrow> (tunnel_id, anyhow) service) \<Rightarrow> (tunnel_id, anyhow) preset_service_registry" where
  "client_services tcp_service = add_service_blocking (\<lambda>e. e) (tcp_service client_tcp_service) preset_registry_new"

text \<open>
  \<open>connect\<close> starts a connection with a configuration to an address and a server name, and
  answers in turn with its outcome. \<open>joined\<close> is how the watcher's task joins.
\<close>

record ('r, 'c) client_net =
  client_endpoint :: "(anyhow, unit) result"
  connect_with :: "'r \<Rightarrow> socket_addr \<Rightarrow> rstr \<Rightarrow> (anyhow, (anyhow, 'c) result) result"

definition client_main ::
  "'f fs_ops \<Rightarrow> ('d, 'p, 's, 't, 'u, 'q, 'r) tls_env \<Rightarrow> ('r, 'c) client_net \<Rightarrow> nat option \<Rightarrow>
   ('m, tunnel_name, in_memory_registry_record) dashmap \<Rightarrow> (tcp_stream_service \<Rightarrow> (tunnel_id, anyhow) service) \<Rightarrow>
   ('n, 32 word, (32 word, ('c \<times> tunnel_side) list) named_boxed_stream, 'a) stream_map \<Rightarrow>
   (((tunnel_id, anyhow) preset_service_registry, 'm, 'x, 'n dynamic_stream_set,
     32 word \<times> 'c \<times> tunnel_side, 'c) daemon_setup \<Rightarrow> (join_error, unit) result) \<Rightarrow>
   ((anyhow, unit) result \<Rightarrow> (join_error, (anyhow, unit) result) result) \<Rightarrow> 'w demand_json \<Rightarrow> (demand_proxy_address_error \<Rightarrow> anyhow) \<Rightarrow>
   ((socket_addr list \<times> (unit client_error, unit) result io, unit) request \<Rightarrow> (anyhow, anyhow watcher_end) result) \<Rightarrow> ends_first \<Rightarrow>
   client_args \<Rightarrow> 'f \<Rightarrow> (anyhow, unit) result option" where
  "client_main F E N clock D tcp_service M run joined J anyhow_of route first cfg s =
    (case client_quinn_config F E cfg s of
       Inl e \<Rightarrow> Some (Err e)
     | Inr quinn_config \<Rightarrow>
         Option.bind clock (\<lambda>millis.
           case and_then (client_endpoint N) (\<lambda>_.
                and_then (context_of ''Connecting to server''
                  (connect_with N quinn_config (driver_host cfg) (driver_san cfg))) (\<lambda>connecting.
                context_of ''Finalizing connection to server...'' connecting)) of
             Inl e \<Rightarrow> Some (Err e)
           | Inr connection \<Rightarrow>
               Option.bind (add_new_connection M [(connection, Connect)] (0, stream_set_new M)) (\<lambda>(_, _, connections).
               Some (join_client_tasks first
                 (map_err (\<lambda>_. lit ''Daemon panicked and lost context'')
                   (run (daemon_setup_of D (client_services tcp_service) millis connections (Some \<circ> snd))))
                 (flatten_watcher (joined (client_watcher J cfg anyhow_of route)))))))"

section \<open>How the programs end\<close>

lemma join_client_tasks_Ok: "join_client_tasks first a b = Ok () \<longleftrightarrow> a = Ok () \<and> b = Ok ()"
  by (cases first) (auto simp: and_then_Inr_iff)

lemma flatten_watcher_Ok: "flatten_watcher r = Ok () \<longleftrightarrow> r = Ok (Ok ())"
  by (cases r rule: flatten_watcher.cases) auto

lemma first_connection_attached:
  assumes "stream_map_laws M attached"
  obtains d where "add_new_connection M source (0, stream_set_new M) = Some (0, 1, d)"
    "attached (set_streams d) = [0 \<mapsto> new_pre_boxed 0 source]"
proof -
  obtain r m where i: "sm_insert M 0 (new_pre_boxed 0 source) (sm_new M) = (r, m)" by fastforce
  have "r = None \<and> attached m = [0 \<mapsto> new_pre_boxed 0 source]"
    using stream_map_laws.insert_result [OF assms i] stream_map_laws.new_empty [OF assms] by simp
  then show thesis
    using that [of "\<lparr>set_streams = m\<rparr>"] i
    by (simp add: add_new_connection_def attach_stream_def attach_def stream_set_new_def new_pre_boxed_def)
qed

text \<open>
  The client panics only when the clock is before the epoch, and exits well exactly when its
  configuration loads, the server is reached, and both the daemon and the demand end well; the
  daemon is given the one connection it made.
\<close>

lemma client_main_outcome:
  assumes "stream_map_laws M attached"
    and "run_setup = (\<lambda>millis d. run (daemon_setup_of D (client_services tcp_service) millis d (Some \<circ> snd)))"
  shows "(client_main F E N clock D tcp_service M run joined J anyhow_of route first cfg s = None \<longleftrightarrow>
      is_ok (client_quinn_config F E cfg s) \<and> clock = None) \<and>
    (client_main F E N clock D tcp_service M run joined J anyhow_of route first cfg s = Some (Ok ()) \<longleftrightarrow>
      (\<exists>q millis c d. client_quinn_config F E cfg s = Ok q \<and> clock = Some millis \<and> client_endpoint N = Ok () \<and>
         connect_with N q (driver_host cfg) (driver_san cfg) = Ok (Ok c) \<and>
         add_new_connection M [(c, Connect)] (0, stream_set_new M) = Some (0, 1, d) \<and>
         run_setup millis d = Ok () \<and> joined (client_watcher J cfg anyhow_of route) = Ok (Ok ())))"
proof -
  have added: "\<exists>d. add_new_connection M source (0, stream_set_new M) = Some (0, 1, d)" for source
    using first_connection_attached [OF assms(1)] by metis
  show ?thesis
  proof (cases "client_quinn_config F E cfg s")
    case (Inr q)
    define step where "step = and_then (client_endpoint N) (\<lambda>_.
        and_then (context_of ''Connecting to server'' (connect_with N q (driver_host cfg) (driver_san cfg)))
          (\<lambda>connecting. context_of ''Finalizing connection to server...'' connecting))"
    have step_Ok: "step = Ok c \<longleftrightarrow> client_endpoint N = Ok () \<and> connect_with N q (driver_host cfg) (driver_san cfg) = Ok (Ok c)" for c
      by (auto simp: step_def context_of_def and_then_Inr_iff map_err_Inr_iff)
    show ?thesis
    proof (cases step)
      case (Inl e)
      then show ?thesis
        using Inr step_Ok by (cases clock) (auto simp: client_main_def step_def)
    next
      case step: (Inr c)
      obtain d where d: "add_new_connection M [(c, Connect)] (0, stream_set_new M) = Some (0, 1, d)"
        using added by blast
      have "client_main F E N clock D tcp_service M run joined J anyhow_of route first cfg s =
          Option.bind clock (\<lambda>millis. Some (join_client_tasks first
            (map_err (\<lambda>_. lit ''Daemon panicked and lost context'') (run_setup millis d)) (flatten_watcher (joined (client_watcher J cfg anyhow_of route)))))"
        using Inr step d by (cases clock) (simp_all add: client_main_def step_def assms(2))
      then show ?thesis
        using Inr step step_Ok [of c] d
        by (cases clock) (auto simp: join_client_tasks_Ok flatten_watcher_Ok map_err_Inr_iff)
    qed
  qed (simp add: client_main_def)
qed

text \<open>
  The server exits well exactly when its certificate and key load, its address is bound and the
  daemon, given the services and the stream of established connections, ends well.
\<close>

lemma server_main_outcome:
  "server_main F E bind clock D J run handshake cfg s = Some (Ok ()) \<longleftrightarrow>
    (\<exists>q e millis. build_quinn_config F E cfg s = Some (Ok q) \<and> bind q (quinn_bind_addr cfg) = Ok e \<and>
       clock = Some millis \<and>
       run (daemon_setup_of D (server_services J cfg) millis (from_endpoint (quinn_bind_addr cfg) e)
         (established handshake)) = Ok ())"
proof (cases "build_quinn_config F E cfg s")
  case (Some built)
  show ?thesis
  proof (cases built)
    case (Inr q)
    then show ?thesis
      using Some by (cases "bind q (quinn_bind_addr cfg)"; cases clock)
        (auto simp: server_main_def listen_bind_def map_err_Inr_iff)
  qed (simp add: Some server_main_def)
qed (simp add: server_main_def)

end
