(* ===== verification/Options.thy ===== *)
theory Options
  imports Programs
begin

text \<open>
  The options the program declares (\<open>main\<close> of \<open>snocat-cli/src/main.rs\<close>): for each subcommand
  its arguments with their names, validators and defaults. How a command line is matched against
  them is clap's; \<open>accepted\<close> states what clap promises of the matches it returns. The result is
  that the handlers of accepted arguments never panic and never fail.
\<close>

section \<open>Declared options\<close>

record arg_spec =
  arg_name :: rstr
  long :: "rstr option"
  arg_aliases :: "rstr list"
  short :: "char option"
  validator :: "(rstr \<Rightarrow> (rstr, unit) result) option"
  default_value :: "rstr option"
  required :: bool

definition plain_arg :: "string \<Rightarrow> arg_spec" where
  "plain_arg name =
    \<lparr>arg_name = lit name, long = None, arg_aliases = [], short = None, validator = None, default_value = None,
     required = False\<rparr>"

definition client_command ::
  "(rstr \<Rightarrow> bool) \<Rightarrow> (rstr \<Rightarrow> (anyhow, socket_addr list) result) \<Rightarrow> arg_spec list" where
  "client_command path_exists to_socket_addrs =
    [(plain_arg ''authority'')\<lparr>long := Some (lit ''authority''), short := Some CHR ''a'',
       validator := Some (validate_existing_file path_exists)\<rparr>,
     (plain_arg ''driver'')\<lparr>long := Some (lit ''driver''), short := Some CHR ''d'',
       validator := Some (validate_socketaddr to_socket_addrs), required := True\<rparr>,
     (plain_arg ''driver-san'')\<lparr>long := Some (lit ''driver-san''), arg_aliases := [lit ''san''], short := Some CHR ''s'',
       required := True\<rparr>,
     (plain_arg ''target'')\<lparr>long := Some (lit ''target''), short := Some CHR ''t'',
       validator := Some (validate_socketaddr to_socket_addrs), required := True\<rparr>]"

definition server_command ::
  "(rstr \<Rightarrow> bool) \<Rightarrow> (rstr \<Rightarrow> (anyhow, socket_addr list) result) \<Rightarrow> arg_spec list" where
  "server_command path_exists to_socket_addrs =
    [(plain_arg ''cert'')\<lparr>long := Some (lit ''cert''), short := Some CHR ''c'',
       validator := Some (validate_existing_file path_exists), required := True\<rparr>,
     (plain_arg ''key'')\<lparr>long := Some (lit ''key''), short := Some CHR ''k'',
       validator := Some (validate_existing_file path_exists), required := True\<rparr>,
     (plain_arg ''tcp'')\<lparr>long := Some (lit ''tcp''), arg_aliases := [lit ''bindip''], short := Some CHR ''i'',
       validator := Some validate_ipaddr, default_value := Some (lit ''127.0.0.1'')\<rparr>,
     (plain_arg ''bind_range'')\<lparr>long := Some (lit ''ports''), short := Some CHR ''p'',
       validator := Some validate_port_range, default_value := Some (lit ''8080:8090'')\<rparr>,
     (plain_arg ''quic'')\<lparr>long := Some (lit ''quic''), short := Some CHR ''q'',
       validator := Some (validate_socketaddr to_socket_addrs), default_value := Some (lit ''127.0.0.1:9090'')\<rparr>]"

definition cert_command :: "arg_spec list" where
  "cert_command =
    [(plain_arg ''path'')\<lparr>required := True\<rparr>,
     (plain_arg ''san'')\<lparr>long := Some (lit ''san''), default_value := Some (lit ''localhost'')\<rparr>]"

definition subcommands ::
  "(rstr \<Rightarrow> bool) \<Rightarrow> (rstr \<Rightarrow> (anyhow, socket_addr list) result) \<Rightarrow> (rstr \<times> rstr list \<times> arg_spec list) list" where
  "subcommands path_exists to_socket_addrs =
    [(lit ''client'', [lit ''-c''], client_command path_exists to_socket_addrs),
     (lit ''server'', [lit ''-s''], server_command path_exists to_socket_addrs),
     (lit ''cert'', [], cert_command)]"

section \<open>Accepted arguments\<close>

text \<open>
  The promise of clap: a required argument and one with a default have a value, and a value passes
  the validator or is the default. A subcommand is required, so one of the declared is matched.
\<close>

definition arg_accepted :: "(rstr \<Rightarrow> rstr option) \<Rightarrow> arg_spec \<Rightarrow> bool" where
  "arg_accepted value_of a =
    (case value_of (arg_name a) of
       None \<Rightarrow> \<not> required a \<and> default_value a = None
     | Some v \<Rightarrow> default_value a = Some v \<or> (case validator a of None \<Rightarrow> True | Some f \<Rightarrow> is_ok (f v)))"

definition accepted :: "(rstr \<times> rstr list \<times> arg_spec list) list \<Rightarrow> rstr \<times> (rstr \<Rightarrow> rstr option) \<Rightarrow> bool" where
  "accepted commands matches =
    list_ex (\<lambda>(name, _, specs). fst matches = name \<and> list_all (arg_accepted (snd matches)) specs) commands"

text \<open>No two arguments of a subcommand answer to the same name or letter, which clap refuses.\<close>

definition unambiguous :: "arg_spec list \<Rightarrow> bool" where
  "unambiguous specs \<longleftrightarrow> distinct (map arg_name specs) \<and>
     distinct (concat (map (\<lambda>a. (case long a of None \<Rightarrow> [] | Some l \<Rightarrow> [l]) @ arg_aliases a) specs)) \<and>
     distinct (concat (map (\<lambda>a. case short a of None \<Rightarrow> [] | Some c \<Rightarrow> [c]) specs))"

lemmas command_defs = client_command_def server_command_def cert_command_def plain_arg_def

lemma declared_unambiguous: "(name, alias, specs) \<in> set (subcommands pe ts) \<Longrightarrow> unambiguous specs"
  by (auto simp: subcommands_def command_defs unambiguous_def lit_def)

section \<open>Accepted arguments are handled\<close>

lemma default_tcp: "parse_ipaddr (lit ''127.0.0.1'') = Ok (V4 (Ipv4 127 0 0 1))"
proof -
  have "lit ''127.0.0.1'' = show_ip (V4 (Ipv4 127 0 0 1))"
    by (simp add: show_ipv4_def lit_def show_nat.simps)
  then show ?thesis by (simp only:) (rule parse_show_ipaddr, simp)
qed

lemma default_ports: "parse_port_range (lit ''8080:8090'') = Ok (8080, 8090)"
  by (simp add: parse_port_range_def lit_def parse_u16_def parse_uint_def is_digit_def)

lemma accepted_subcommands:
  "accepted (subcommands pe ts) (sub, value_of) \<longleftrightarrow>
     (sub = lit ''client'' \<and> list_all (arg_accepted value_of) (client_command pe ts)) \<or>
     (sub = lit ''server'' \<and> list_all (arg_accepted value_of) (server_command pe ts)) \<or>
     (sub = lit ''cert'' \<and> list_all (arg_accepted value_of) cert_command)"
  by (auto simp: accepted_def subcommands_def)

lemma is_ok_map_ok: "is_ok (map_ok f r) = is_ok r"
  by (cases r) simp_all

lemma validated_value:
  "is_ok (validate_existing_file pe v) \<longleftrightarrow> pe v"
  "is_ok (validate_socketaddr ts v) \<longleftrightarrow> is_ok (parse_socketaddr ts v)"
  "is_ok (validate_ipaddr v) \<longleftrightarrow> is_ok (parse_ipaddr v)"
  "is_ok (validate_port_range v) \<longleftrightarrow> is_ok (parse_port_range v)"
  by (simp_all add: validate_existing_file_def validate_socketaddr_def validate_ipaddr_def validate_port_range_def
      is_ok_map_ok)

lemma is_ok_E: "is_ok r \<Longrightarrow> (\<And>a. r = Ok a \<Longrightarrow> thesis) \<Longrightarrow> thesis"
  by (cases r) auto

lemmas accepted_defs = plain_arg_def arg_accepted_def validated_value default_tcp default_ports

lemma client_arguments_handled:
  assumes "list_all (arg_accepted value_of) (client_command pe ts)"
  shows "\<exists>cfg. client_arg_handling ts value_of = Some (Ok cfg) \<and>
    (\<forall>path. authority_cert cfg = Some path \<longrightarrow> pe path)"
proof -
  note a = assms [unfolded client_command_def list.pred_inject]
  obtain driver where driver: "value_of (lit ''driver'') = Some driver" "is_ok (parse_socketaddr ts driver)"
    using a by (cases "value_of (lit ''driver'')") (simp_all add: accepted_defs)
  obtain target where target: "value_of (lit ''target'') = Some target" "is_ok (parse_socketaddr ts target)"
    using a by (cases "value_of (lit ''target'')") (simp_all add: accepted_defs)
  obtain san where san: "value_of (lit ''driver-san'') = Some san"
    using a by (cases "value_of (lit ''driver-san'')") (simp_all add: accepted_defs)
  have "pe path" if "value_of (lit ''authority'') = Some path" for path
    using a that by (simp add: accepted_defs)
  then show ?thesis
    using driver target san by (elim is_ok_E) (simp add: client_arg_handling_def)
qed

lemma server_arguments_handled:
  assumes "list_all (arg_accepted value_of) (server_command pe ts)"
    and "is_ok (parse_socketaddr ts (lit ''127.0.0.1:9090''))"
  shows "\<exists>cfg. server_arg_handling ts value_of = Some (Ok cfg) \<and> pe (cert cfg) \<and> pe (key cfg)"
proof -
  note a = assms(1) [unfolded server_command_def list.pred_inject]
  obtain c where c: "value_of (lit ''cert'') = Some c" "pe c"
    using a by (cases "value_of (lit ''cert'')") (simp_all add: accepted_defs)
  obtain k where k: "value_of (lit ''key'') = Some k" "pe k"
    using a by (cases "value_of (lit ''key'')") (simp_all add: accepted_defs)
  obtain tcp where tcp: "value_of (lit ''tcp'') = Some tcp" "is_ok (parse_ipaddr tcp)"
    using a by (cases "value_of (lit ''tcp'')") (auto simp: accepted_defs)
  obtain ports where ports: "value_of (lit ''bind_range'') = Some ports" "is_ok (parse_port_range ports)"
    using a by (cases "value_of (lit ''bind_range'')") (auto simp: accepted_defs)
  obtain quic where quic: "value_of (lit ''quic'') = Some quic" "is_ok (parse_socketaddr ts quic)"
    using a assms(2) by (cases "value_of (lit ''quic'')") (auto simp: accepted_defs)
  show ?thesis
    using c k tcp ports quic by (elim is_ok_E) (simp add: server_arg_handling_def)
qed

text \<open>
  Arguments clap accepts are handled without a panic and without an error, and run the program of
  their subcommand: the server with a certificate and key that exist, the client with an authority
  that exists if one is given. The default address of the server has to be one the resolver knows.
\<close>

lemma accepted_arguments_run:
  assumes "accepted (subcommands pe ts) (sub, value_of)"
    and "is_ok (parse_socketaddr ts (lit ''127.0.0.1:9090''))"
  shows "(\<exists>cfg. sub = lit ''client'' \<and> main_args_handler ts server client certgen (sub, value_of) = Some (client cfg) \<and>
        (\<forall>path. authority_cert cfg = Some path \<longrightarrow> pe path)) \<or>
    (\<exists>cfg. sub = lit ''server'' \<and> main_args_handler ts server client certgen (sub, value_of) = Some (server cfg) \<and>
        pe (cert cfg) \<and> pe (key cfg)) \<or>
    (\<exists>path san. sub = lit ''cert'' \<and> main_args_handler ts server client certgen (sub, value_of) = Some (certgen path san))"
proof -
  have ne: "lit ''client'' \<noteq> lit ''server''" "lit ''cert'' \<noteq> lit ''server''" "lit ''cert'' \<noteq> lit ''client''"
    by (simp_all add: lit_def)
  consider "sub = lit ''client''" "list_all (arg_accepted value_of) (client_command pe ts)"
    | "sub = lit ''server''" "list_all (arg_accepted value_of) (server_command pe ts)"
    | "sub = lit ''cert''" "list_all (arg_accepted value_of) cert_command"
    using assms(1) accepted_subcommands by blast
  then show ?thesis
  proof cases
    case 1
    then show ?thesis using client_arguments_handled [OF 1(2)] ne by (auto simp: main_args_handler_def)
  next
    case 2
    then show ?thesis using server_arguments_handled [OF 2(2) assms(2)] ne by (auto simp: main_args_handler_def)
  next
    case 3
    then obtain path san where "value_of (lit ''path'') = Some path" "value_of (lit ''san'') = Some san"
      by (cases "value_of (lit ''path'')"; cases "value_of (lit ''san'')") (auto simp: cert_command_def accepted_defs)
    then show ?thesis using 3(1) ne by (auto simp: main_args_handler_def)
  qed
qed

text \<open>The server started with a certificate and a key only.\<close>

lemma server_defaults_run:
  "main_args_handler (\<lambda>_. Ok [SockV4 (Ipv4 127 0 0 1) 9090]) server client certgen
     (lit ''server'', [lit ''cert'' \<mapsto> lit ''a'', lit ''key'' \<mapsto> lit ''b'', lit ''tcp'' \<mapsto> lit ''127.0.0.1'',
        lit ''bind_range'' \<mapsto> lit ''8080:8090'', lit ''quic'' \<mapsto> lit ''127.0.0.1:9090'']) =
   Some (server \<lparr>cert = lit ''a'', key = lit ''b'', quinn_bind_addr = SockV4 (Ipv4 127 0 0 1) 9090,
     tcp_bind_ip = V4 (Ipv4 127 0 0 1), tcp_bind_port_range = (8080, 8090)\<rparr>)"
proof -
  have "lit ''cert'' \<noteq> lit ''key''" "lit ''cert'' \<noteq> lit ''tcp''" "lit ''cert'' \<noteq> lit ''bind_range''"
    "lit ''cert'' \<noteq> lit ''quic''" "lit ''key'' \<noteq> lit ''tcp''" "lit ''key'' \<noteq> lit ''bind_range''"
    "lit ''key'' \<noteq> lit ''quic''" "lit ''tcp'' \<noteq> lit ''bind_range''" "lit ''tcp'' \<noteq> lit ''quic''"
    "lit ''bind_range'' \<noteq> lit ''quic''"
    by (simp_all add: lit_def)
  then show ?thesis
    by (simp add: main_args_handler_def server_arg_handling_def parse_socketaddr_def default_tcp default_ports)
qed

end
