(* ===== verification/Concurrent_Loops.thy ===== *)
theory Concurrent_Loops
  imports Futures
begin

text \<open>
  The contract of the loop that handles the items of a stream concurrently
  (\<open>try_for_each_concurrent\<close> of the futures crate), which the daemon runs over the links of a
  tunnel and the demand proxy over the connections of a port. The first failure, of the source or
  of an item, is the outcome at once; otherwise the loop ends well when the source has ended and
  every item it yielded is done. \<open>Futures\<close> gives the loop as a function of the events so far.
\<close>

section \<open>The contract\<close>

fun failure :: "'x loop_event \<Rightarrow> 'x option" where
  "failure (SourceFailed x) = Some x"
| "failure (ItemFinished (Inl x)) = Some x"
| "failure _ = None"

text \<open>The number of items in progress, and whether the source has ended.\<close>

fun loop_next :: "'x loop_event \<Rightarrow> nat \<times> bool \<Rightarrow> nat \<times> bool" where
  "loop_next ItemArrived (n, e) = (Suc n, e)"
| "loop_next SourceEnded (n, e) = (n, True)"
| "loop_next (ItemFinished r) (n, e) = (n - 1, e)"
| "loop_next (SourceFailed x) (n, e) = (n, e)"

definition drained_by :: "'x loop_event list \<Rightarrow> bool" where
  "drained_by evs \<longleftrightarrow> (\<exists>k \<le> length evs. fold loop_next (take k evs) (0, False) = (0, True))"

text \<open>As long as the source goes on, the loop is not drained.\<close>

lemma not_drained:
  fixes evs :: "'x loop_event list"
  shows "SourceEnded \<notin> set evs \<Longrightarrow> \<not> drained_by evs"
proof -
  have running: "SourceEnded \<notin> set xs \<Longrightarrow> snd (fold loop_next xs s) = snd s" for xs :: "'x loop_event list" and s
  proof (induction xs arbitrary: s)
    case (Cons ev xs)
    then show ?case by (cases ev; cases s) auto
  qed simp
  assume "SourceEnded \<notin> set evs"
  then have "SourceEnded \<notin> set (take k evs)" for k
    using set_take_subset by fastforce
  then have "\<not> snd (fold loop_next (take k evs) (0, False))" for k
    using running by simp
  then show ?thesis unfolding drained_by_def by (metis snd_conv)
qed

locale concurrent_loop_laws =
  fixes loop :: "'x concurrent_loop"
  assumes first_failure:
      "list_all (\<lambda>ev. failure ev = None) before \<Longrightarrow> \<not> drained_by before \<Longrightarrow> failure ev = Some x \<Longrightarrow>
        loop (before @ ev # after) = Some (Err x)"
    and ends_well: "list_all (\<lambda>ev. failure ev = None) evs \<Longrightarrow> drained_by evs \<Longrightarrow> loop (evs @ after) = Some (Ok ())"
    and goes_on: "list_all (\<lambda>ev. failure ev = None) evs \<Longrightarrow> \<not> drained_by evs \<Longrightarrow> loop evs = None"
begin

lemma failed_item_ends_loop:
  assumes "list_all (\<lambda>ev. failure ev = None) before" "SourceEnded \<notin> set before" "failure ev = Some x"
  shows "loop (before @ ev # after) = Some (Err x)"
  using assms by (intro first_failure not_drained)

end

section \<open>A loop with the contract\<close>

fun run_loop :: "nat \<times> bool \<Rightarrow> 'x concurrent_loop" where
  "run_loop s [] = (if s = (0, True) then Some (Ok ()) else None)"
| "run_loop s (ev # evs) =
    (if s = (0, True) then Some (Ok ())
     else case failure ev of Some x \<Rightarrow> Some (Err x) | None \<Rightarrow> run_loop (loop_next ev s) evs)"

lemma run_loop_drained:
  "list_all (\<lambda>ev. failure ev = None) evs \<Longrightarrow> k \<le> length evs \<Longrightarrow> fold loop_next (take k evs) s = (0, True) \<Longrightarrow>
    run_loop s (evs @ after) = Some (Ok ())"
proof (induction evs arbitrary: s k)
  case Nil
  then show ?case by (cases after) auto
next
  case (Cons ev evs)
  then show ?case by (cases k) (auto simp: option.case_eq_if)
qed

lemma run_loop_running:
  "list_all (\<lambda>ev. failure ev = None) evs \<Longrightarrow> \<forall>k \<le> length evs. fold loop_next (take k evs) s \<noteq> (0, True) \<Longrightarrow>
    run_loop s (evs @ after) = run_loop (fold loop_next evs s) after"
proof (induction evs arbitrary: s)
  case (Cons ev evs)
  have "s \<noteq> (0, True)" using Cons.prems(2) by (metis fold_simps(1) le0 take0)
  moreover have "\<forall>k \<le> length evs. fold loop_next (take k evs) (loop_next ev s) \<noteq> (0, True)"
    using Cons.prems(2) by (metis Suc_le_mono fold_simps(2) length_Cons take_Suc_Cons)
  ultimately show ?case using Cons by simp
qed simp

interpretation plain_loop: concurrent_loop_laws "run_loop (0, False)"
proof
  fix evs before after :: "'a loop_event list" and ev :: "'a loop_event" and x :: 'a
  show "run_loop (0, False) (evs @ after) = Some (Ok ())"
    if "list_all (\<lambda>ev. failure ev = None) evs" "drained_by evs"
    using that run_loop_drained unfolding drained_by_def by blast
  have at_end: "fold loop_next es (0, False) \<noteq> (0, True)" if "\<not> drained_by es" for es :: "'a loop_event list"
    using that by (auto simp: drained_by_def dest: spec [of _ "length es"])
  show "run_loop (0, False) evs = None"
    if "list_all (\<lambda>ev. failure ev = None) evs" "\<not> drained_by evs"
    using run_loop_running [OF that(1), of "(0, False)" "[]"] that(2) at_end [OF that(2)]
    by (auto simp: drained_by_def)
  show "run_loop (0, False) (before @ ev # after) = Some (Err x)"
    if "list_all (\<lambda>ev. failure ev = None) before" "\<not> drained_by before" "failure ev = Some x"
    using run_loop_running [OF that(1), of "(0, False)" "ev # after"] that(2,3) at_end [OF that(2)]
    by (auto simp: drained_by_def)
qed

end
