(* ===== verification/Forwarding.thy ===== *)
theory Forwarding
  imports Programs Concurrent_Loops
begin

text \<open>
  Connections through a demanded port, end to end: the listener of the server
  (\<open>services/demand_proxy.rs\<close>) hands each connection it accepts to the server's router, which
  opens a stream on the client's tunnel, where the client's daemon hands it to its TCP service
  (\<open>proxy_tcp.rs\<close>).
\<close>

section \<open>The listeners of a port\<close>

lemma arrivals: "(loop_next ItemArrived ^^ n) (m, e) = (m + n, e)"
  by (induction n) auto

text \<open>No listener is done before one has reported.\<close>

lemma listeners_not_drained: "0 < n \<Longrightarrow> \<not> drained_by (replicate n ItemArrived @ [SourceEnded])"
  by (auto simp: drained_by_def take_Cons' arrivals)

context concurrent_loop_laws
begin

lemma failed_listener_ends_all:
  "0 < n \<Longrightarrow> loop (replicate n ItemArrived @ [SourceEnded] @ ItemFinished (Err e) # rest) = Some (Err e)"
  using first_failure [OF _ listeners_not_drained, of n "ItemFinished (Err e)" e rest]
  by (simp add: list_all_iff)

end

text \<open>The client with its demand: once it is granted a port it waits for the server to end the proxy.\<close>

definition demand_client_run :: "'j demand_json \<Rightarrow> rstr \<Rightarrow> (unit client_error, unit) result io" where
  "demand_client_run J proxied_subject =
    io_then (demand_client_request J proxied_subject) (\<lambda>_. demand_client_wait)"

lemma net_stuck:
  "0 < n \<Longrightarrow> 0 < m \<Longrightarrow> net_run \<lparr>lhs = Recv n k, rhs = Recv m k', to_rhs = [], to_lhs = []\<rparr> =
    \<lparr>lhs = Recv n k, rhs = Recv m k', to_rhs = [], to_lhs = []\<rparr>"
  by (simp add: net_run.simps [of "\<lparr>lhs = Recv n k, rhs = Recv m k', to_rhs = [], to_lhs = []\<rparr>"] net_next_def)

lemma granted_demand_waits:
  assumes "get_by_id alive (service_peers self) t = Some peer" "parse_address addr = Ok target"
    and "encodes (subject_to_vec J) (subject_from_slice J) subject 256"
    and "encodes (granted_to_vec J) (granted_from_slice J) (Some (granted self port)) 4294967295"
    and "bind_all bind port (bind_addrs self) = Ok bindings"
  shows "\<exists>k k'. net_run (net_start (demand_client_run J subject)
      (demand_service_handle J alive (Ok port) bind listeners self addr t)) =
    \<lparr>lhs = Recv 8 k, rhs = Recv 8 k', to_rhs = [], to_lhs = []\<rparr>"
proof -
  obtain sb where sb: "subject_to_vec J subject = Ok sb" "subject_from_slice J sb = Ok subject" "length sb \<le> 256"
    using assms(3) by (auto simp: encodes_def)
  obtain gb where gb: "granted_to_vec J (Some (granted self port)) = Ok gb"
      "granted_from_slice J gb = Ok (Some (granted self port))" "length gb \<le> 4294967295"
    using assms(4) by (auto simp: encodes_def)
  show ?thesis
    using assms(1,2,5) sb gb
    by (simp add: demand_client_run_def demand_client_wait_def net_start_def demand_defs or_err_def fits_def net_simps
        net_frames(3) [where y = "[]", simplified] net_frames(4) [where x = "[]", simplified] granted_def net_stuck)
qed

lemma length_bind_all: "bind_all bind port ips = Ok bindings \<Longrightarrow> length bindings = length ips"
  by (induction ips arbitrary: bindings) (auto simp: and_then_Inr_iff)

text \<open>
  C36: one forwarded connection that fails ends the proxy of its port for everyone. The listener
  ends with the error of that connection, whatever connections were forwarded before or wait to
  be accepted, and with it the task of all listeners; but in every interleaving the client and the
  service that granted the port keep waiting for each other, with nothing on the way that would
  tell the client.
\<close>

theorem failed_connection_ends_forwarding:
  assumes "concurrent_loop_laws loop"
    and "list_all (\<lambda>ev. ev = TcpAccepted \<or> ev = ConnectionDone (Ok ())) before"
    and "get_by_id alive (service_peers self) t = Some peer" "parse_address addr = Ok target"
    and "encodes (subject_to_vec J) (subject_from_slice J) subject 256"
    and "encodes (granted_to_vec J) (granted_from_slice J) (Some (granted self port)) 4294967295"
    and "bind_addrs self \<noteq> []" "bind_all bind port (bind_addrs self) = Ok bindings"
    and "net_step\<^sup>*\<^sup>* (net_start (demand_client_run J subject)
        (demand_service_handle J alive (Ok port) bind (\<lambda>_ _ _. Err e) self addr t)) c" "settled c"
  shows "run_tcp_listener loop (before @ ConnectionDone (Err e) # after) = Some (Err e) \<and>
    run_tcp_listeners loop True (length bindings) (Err e # rest) = Some (Err e) \<and>
    (\<exists>k k'. c = \<lparr>lhs = Recv 8 k, rhs = Recv 8 k', to_rhs = [], to_lhs = []\<rparr>)"
proof (intro conjI)
  have "list_all (\<lambda>ev. failure ev = None) (map accept_loop_event before)"
    "SourceEnded \<notin> set (map accept_loop_event before)"
    using assms(2) by (auto simp: list_all_iff image_iff)
  then show "run_tcp_listener loop (before @ ConnectionDone (Err e) # after) = Some (Err e)"
    using concurrent_loop_laws.failed_item_ends_loop [OF assms(1), of _ "ItemFinished (Err e)"]
    by (simp add: run_tcp_listener_def)
  show "run_tcp_listeners loop True (length bindings) (Err e # rest) = Some (Err e)"
    using concurrent_loop_laws.failed_listener_ends_all [OF assms(1)] length_bind_all [OF assms(8)] assms(7)
    by (simp add: run_tcp_listeners_def)
  show "\<exists>k k'. c = \<lparr>lhs = Recv 8 k, rhs = Recv 8 k', to_rhs = [], to_lhs = []\<rparr>"
    using granted_demand_waits [OF assms(3-6,8)] net_run_only_end(2) [OF assms(9,10)] by simp
qed

theorem failed_connection_ends_forwarding_witness:
  "run_tcp_listener (run_loop (0, False)) [TcpAccepted, TcpAccepted, ConnectionDone (Err DependencyFailure), TcpAccepted] =
    Some (Err (DependencyFailure :: unit service_error))"
proof -
  let ?n = "net_start (demand_client_run sample_json (lit ''s''))
     (demand_service_handle sample_json (\<lambda>_. True) (Ok 5000) (\<lambda>a. Ok a) (\<lambda>_ _ _. Err DependencyFailure)
       sample_service_state sample_addr 3 :: (unit service_error, unit) result io)"
  have "bind_addrs sample_service_state \<noteq> []"
    "bind_all (\<lambda>a. Ok a) 5000 (bind_addrs sample_service_state) = Ok [SockV4 ipv4_localhost 5000]"
    by (simp_all add: sample_service_state_def demand_proxy_service_new_def handle_dual_stack_addrs_def ipv4_localhost_def)
  from failed_connection_ends_forwarding [OF plain_loop.concurrent_loop_laws_axioms _ sample_demand(1-3) sample_demand(5)
      this conjunct1 [OF net_run_reach [of ?n]] conjunct2 [OF net_run_reach], of "[TcpAccepted, TcpAccepted]" "[TcpAccepted]"]
  show ?thesis by simp
qed

section \<open>The TCP service on a stream\<close>

text \<open>
  \<open>tcp_service_handle\<close> up to the connection. As a service of the daemon it then copies between the
  connection and the stream it was given; \<open>proxied\<close> is that copy, as seen from the stream.
\<close>

definition tcp_service_connect ::
  "('c, 'w, 'r, 'b, 'v, 'x) tcp_env \<Rightarrow> tcp_stream_service \<Rightarrow> route_address \<Rightarrow>
   (anyhow service_error, 'c) result \<times> tcp_call list" where
  "tcp_service_connect E self addr =
    (case target_of_address addr of
       Inl _ \<Rightarrow> (Err AddressError, [])
     | Inr target \<Rightarrow>
         (case resolve E target of
            (Inl _, calls) \<Rightarrow> (Err AddressError, calls)
          | (Inr addrs, calls) \<Rightarrow>
              (case service_connect E self addrs of
                 (Inl ConnectionFailed, calls') \<Rightarrow> (Err DependencyFailure, calls @ calls')
               | (Inl NoLoopbackAddressesFound, calls') \<Rightarrow> (Err AddressError, calls @ calls')
               | (Inr (Inl _), calls') \<Rightarrow> (Err DependencyFailure, calls @ calls')
               | (Inr (Inr connection), calls') \<Rightarrow> (Ok connection, calls @ calls'))))"

definition tcp_service ::
  "('c, 'w, 'r, 'b, 'v, 'x) tcp_env \<Rightarrow> ('c \<Rightarrow> ('x, nat \<times> nat) result io) \<Rightarrow> tcp_stream_service \<Rightarrow>
   ('t, anyhow) service" where
  "tcp_service E proxied self =
    \<lparr>accepts = (\<lambda>addr tunnel. tcp_service_accepts self addr),
     handle = (\<lambda>addr tunnel. case fst (tcp_service_connect E self addr) of
       Inl e \<Rightarrow> Done (Err e)
     | Inr connection \<Rightarrow>
         io_then (io_map_err (\<lambda>e. InternalError (anyhow_of_io E e)) (proxied connection)) (\<lambda>_. Done (Ok ())))\<rparr>"

definition tcp_client :: "('x, nat \<times> nat) result io \<Rightarrow> (nat \<times> nat, 'x) client" where
  "tcp_client proxied =
    \<lparr>protocol_name = proxy_tcp_protocol_name,
     client_handle = (\<lambda>addr. io_map_err client_error.IllegalResponse proxied)\<rparr>"

lemma tcp_service_handle_connect:
  "tcp_service_handle E self addr stream =
    (case tcp_service_connect E self addr of
       (Inl e, calls) \<Rightarrow> (Err e, calls)
     | (Inr connection, calls) \<Rightarrow>
         (map_err (\<lambda>e. InternalError (anyhow_of_io E e)) (map_ok (\<lambda>_. ())
            (proxy_generic_tokio_streams (buf_reader E) (copy_bidirectional E) (conn_split E connection) stream)), calls))"
  by (auto simp: tcp_service_handle_def tcp_service_connect_def split: sum.splits prod.splits tcp_connect_error.splits)

section \<open>The address of a forwarded connection\<close>

lemma show_groups_ascii: "c \<in> set (show_groups gs) \<Longrightarrow> c < 128"
  using show_groups_chars [of c gs] by (auto simp: to_digit_def split: if_splits)

lemma show_ip_ascii: "c \<in> set (show_ip a) \<Longrightarrow> c < 128"
proof -
  have "c < 128" if "c \<in> set (show_ipv4 x)" for x
    using show_ipv4_chars [OF that] by (auto simp: is_digit_def)
  then show "c \<in> set (show_ip a) \<Longrightarrow> c < 128"
    using show_groups_ascii by (cases a) (auto simp: show_ipv6_def lit_def split: prod.splits if_splits)
qed

lemma length_show_groups: "length (show_groups gs) \<le> 5 * length gs"
proof (induction gs rule: show_groups.induct)
  case (2 g)
  then show ?case using length_show_hex_group [of "unat g"] unat_word16_less [of g] by simp
next
  case (3 g h gs)
  then show ?case using length_show_hex_group [of "unat g"] unat_word16_less [of g] by simp
qed simp

lemma length_show_ipv4: "length (show_ipv4 a) \<le> 15"
proof -
  have "length (show_nat (unat b)) \<le> 3" for b :: byte
    by (rule length_show_nat_octet) simp
  from this [of "o1 a"] this [of "o2 a"] this [of "o3 a"] this [of "o4 a"] show ?thesis
    by (simp add: show_ipv4_def)
qed

fun ip_wf :: "ip_addr \<Rightarrow> bool" where
  "ip_wf (V4 a) \<longleftrightarrow> True"
| "ip_wf (V6 a) \<longleftrightarrow> ipv6_wf a"

lemma length_show_ip: "ip_wf a \<Longrightarrow> length (show_ip a) \<le> 82"
proof (cases a)
  case (V6 b)
  assume "ip_wf a"
  then have "length b = 8" using V6 by (simp add: ipv6_wf_def)
  then have b: "length (show_groups (take i b)) \<le> 40" "length (show_groups (drop i b)) \<le> 40"
      "length (show_groups b) \<le> 40" for i
    using length_show_groups [of "take i b"] length_show_groups [of "drop i b"] length_show_groups [of b] by auto
  have "length (show_ipv4 x) \<le> 75" for x using length_show_ipv4 [of x] by linarith
  moreover have "length (show_groups (take i b)) + length (show_groups (drop j b)) \<le> 80" for i j
    using b(1) [of i] b(2) [of j] by linarith
  moreover have "length (show_groups b) \<le> 82" using b(3) by linarith
  ultimately show ?thesis
    using V6 by (auto simp: show_ipv6_def lit_def split: prod.splits)
next
  case (V4 b)
  then show ?thesis using length_show_ipv4 [of b] by simp
qed

lemma length_show_u16: "length (show_u16 p) \<le> 5"
proof -
  have "unat p div 10 div 10 div 10 div 10 < 10" using unat_word16_less [of p] by linarith
  then show ?thesis
    by (simp add: show_u16_def show_nat.simps [of "unat p"] show_nat.simps [of "unat p div 10"]
        show_nat.simps [of "unat p div 10 div 10"] show_nat.simps [of "unat p div 10 div 10 div 10"]
        show_nat.simps [of "unat p div 10 div 10 div 10 div 10"])
qed

lemma ascii_valid: "(\<forall>c \<in> set s. c < 128) \<Longrightarrow> valid_str s"
  by (auto simp: valid_str_def list_all_iff scalar_def)

lemma plain_segment:
  assumes "\<forall>c \<in> set s. c < 128" "\<not> list_ex needs_escaped s"
  shows "estimate_rendered_segment_upper_length_bound s = length s + 1"
proof -
  have "filter needs_escaped s = []" using assms(2) by (simp add: list_ex_iff filter_empty_conv)
  then show ?thesis
    using length_utf8_ascii [OF assms(1)] by (simp add: estimate_rendered_segment_upper_length_bound_def)
qed

lemma forwarded_address:
  fixes port :: port
  assumes "ip_wf ip"
  defines "addr \<equiv> address_of_target (forward_target (Some (show_ip ip), port))"
  shows "valid_address addr" "length (address_into_bytes addr) \<le> 2048"
    "target_of_address addr = Ok (Dns (PreferHigher (show_ip ip) port))"
proof -
  have port: "\<forall>c \<in> set (show_u16 port). c < 128"
    by (auto simp: show_u16_def is_digit_def dest!: show_nat_digits)
  have addr: "addr = \<lparr>segments = [lit ''proxy-tcp'', lit ''dns'', show_ip ip, lit ''tcp'', show_u16 port]\<rparr>"
    by (simp add: addr_def forward_target_def into_suffixed_def address_of_segments_def proxy_tcp_protocol_name_def)
  have lits: "estimate_rendered_segment_upper_length_bound (lit ''proxy-tcp'') = 10"
    "estimate_rendered_segment_upper_length_bound (lit ''dns'') = 4"
    "estimate_rendered_segment_upper_length_bound (lit ''tcp'') = 4"
    by (simp_all add: estimate_rendered_segment_upper_length_bound_def lit_def utf8_char_def needs_escaped_def)
  show "valid_address addr"
    using ascii_valid [OF port] ascii_valid [of "show_ip ip"] show_ip_ascii
    by (auto simp: addr valid_address_def lit_def scalar_def)
  have "length (address_into_bytes addr) = 10 + 4 + (length (show_ip ip) + 1) + 4 + (length (show_u16 port) + 1)"
    using lits plain_segment [OF port show_u16_plain] plain_segment [of "show_ip ip", OF _ show_ip_plain] show_ip_ascii
    by (simp add: addr length_address_into_bytes rendered_capacity_def iter_segments_def)
  then show "length (address_into_bytes addr) \<le> 2048"
    using length_show_ip [OF assms(1)] length_show_u16 [of port] by linarith
  show "target_of_address addr = Ok (Dns (PreferHigher (show_ip ip) port))"
    using target_round [of "forward_target (Some (show_ip ip), port)"] by (simp add: addr_def forward_target_def)
qed

section \<open>A forwarded connection\<close>

lemma served_mapped: "served_outcome (handle (mapped_service f s) addr t) = served_outcome (handle s addr t)"
  by (simp add: served_outcome_def mapped_service_def io_map_err_def io_map_def)

lemma client_finds_tcp_service:
  "target_of_address addr = Ok target \<Longrightarrow>
    find_service (client_services (tcp_service E proxied)) addr t =
      Some (mapped_service (\<lambda>e. e) (tcp_service E proxied client_tcp_service))"
  by (simp add: find_service_def client_services_def add_service_blocking_def preset_registry_new_def
      mapped_service_def tcp_service_def tcp_service_accepts_def)

lemma client_failure_forwarded:
  "service_error_of_route \<circ> (ClientFailed \<circ> client_error.IllegalResponse) = (\<lambda>_. service_error.IllegalResponse)"
  by (simp add: fun_eq_iff)

lemma forward_connection_routed:
  fixes open_link :: "tunnel_id \<Rightarrow> ('t, unit) result"
  assumes "find_by_name_and_comparator iter alive p n registered_at = Some r" "open_link (peer_id r) = Ok ()"
  shows "forward_connection (Some (server_route iter alive registered_at p open_link)) (tcp_client visitor) target n =
    io_bind (client_negotiate (address_of_target (forward_target target))) (\<lambda>negotiated.
      case negotiated of
        Inl e \<Rightarrow> Done (Err (service_error_of_routing (routing_error_of_negotiation (\<lambda>e. e) e :: ('t, 'e) routing_error)))
      | Inr _ \<Rightarrow> io_then (io_map_err (\<lambda>_. service_error.IllegalResponse) visitor) (\<lambda>_. Done (Ok ())))"
  unfolding forward_connection_def request_new_def tcp_client_build_addr_def server_route_def negotiate_and_handle_def
  by (auto simp: assms tcp_client_def io_map_err_def io_map_def io_then_def fun_eq_iff client_failure_forwarded
      intro!: arg_cong [where f = "io_bind _"] split: sum.splits)

text \<open>The calls of the client's TCP service for a forwarded connection.\<close>

lemma forwarded_calls:
  assumes "target_of_address addr = Ok (Dns (PreferHigher host port))"
  defines "q \<equiv> host @ [colon] @ show_u16 port"
  shows "snd (tcp_service_connect E client_tcp_service addr) =
    LookupHost q # (case lookup_host E q of
        Inl _ \<Rightarrow> []
      | Inr as \<Rightarrow> (let bs = filter (\<lambda>a. socket_port a = port) as in if bs = [] then [] else [ConnectTo bs]))"
proof -
  have "dns_contains (PreferHigher host port) a True \<longleftrightarrow> socket_port a = port" for a
    by (cases a) (auto simp: dns_contains_def)
  then show ?thesis
    using assms(1)
    by (auto simp: tcp_service_connect_def resolve_dns_def service_connect_def client_tcp_service_def q_def Let_def
        split: sum.splits)
qed

text \<open>The client's demand can be built, finds the demand proxy and is understood by it.\<close>

lemma demand_understood:
  fixes cfg :: client_args
  defines "host \<equiv> show_ip (socket_ip (proxy_target_host cfg))" and "port \<equiv> socket_port (proxy_target_host cfg)"
  shows "\<exists>req s. client_demand J cfg = Ok req \<and> find_service (server_services D scfg p) (address req) t = Some s \<and>
    parse_address (address req) = Ok (Some host, port)"
proof -
  obtain addr where addr: "demand_build_addr (Dns (Dns4 host port)) = Ok addr" "parse_address addr = Ok (Some host, port)"
    using demand_address_round_trip [of "Dns (Dns4 host port)" host port] show_ip_plain host_def by auto
  have "client_demand J cfg = Ok \<lparr>address = addr, protocol_client = demand_client J []\<rparr>"
    using addr(1) by (simp add: client_demand_def request_new_def host_def port_def)
  moreover have "\<exists>s. find_service (server_services D scfg p) addr t = Some s"
    using addr(2) by (simp add: find_service_def server_services_def add_service_blocking_def preset_registry_new_def
        mapped_service_def demand_service_def demand_accepts_def)
  ultimately show ?thesis using addr(2) by auto
qed

text \<open>
  C35: a connection to a demanded port reaches the target the client asked for. The demand of a
  client can always be built, the server's registry finds the demand proxy for it, and the proxy
  parses the host and port of the client's target out of it. For a connection accepted on the granted port, the
  server's router takes the client's newest tunnel, and every run of the forwarding against the
  client's daemon has the outcome of the visitor's copy against the client's TCP service on a
  fresh stream. That service resolves the host and port of the target and nothing else, and
  connects to the resolved addresses of that port, if there are any, and to nothing else.
\<close>

theorem forwarded_connection_served:
  assumes "table_iteration iter" "peers_inv S p" "finite S"
    and "r \<in> S" "alive r" "peer_name r = n"
    and "\<forall>q \<in> S. alive q \<and> peer_name q = n \<and> q \<noteq> r \<longrightarrow> registered_at q < registered_at r"
    and "open_link (peer_id r) = Ok ()"
    and "ip_wf (socket_ip (proxy_target_host cfg))"
  shows "let host = show_ip (socket_ip (proxy_target_host cfg)); port = socket_port (proxy_target_host cfg);
      addr = address_of_target (forward_target (Some host, port)); q = host @ [colon] @ show_u16 port
    in (\<exists>req s. client_demand J cfg = Ok req \<and> find_service (server_services D scfg p) (address req) tunnel = Some s \<and>
        parse_address (address req) = Ok (Some host, port)) \<and>
      net_run (net_start
          (forward_connection (Some (server_route iter alive registered_at p open_link)) (tcp_client visitor) (Some host, port) n)
          (handle_incoming_request_bistream anyhow_of (find_service (client_services (tcp_service E proxied))) False t)) =
      net_run (net_start
          (io_then (io_map_err (\<lambda>_. service_error.IllegalResponse) visitor) (\<lambda>_. Done (Ok ())))
          (served_outcome (handle (tcp_service E proxied client_tcp_service) addr t))) \<and>
      snd (tcp_service_connect E client_tcp_service addr) =
        LookupHost q # (case lookup_host E q of
            Inl _ \<Rightarrow> []
          | Inr as \<Rightarrow> (let bs = filter (\<lambda>a. socket_port a = port) as in if bs = [] then [] else [ConnectTo bs]))"
proof -
  define ip where "ip = socket_ip (proxy_target_host cfg)"
  define port where "port = socket_port (proxy_target_host cfg)"
  have wf: "ip_wf ip" using assms(9) by (simp add: ip_def)
  have chosen: "find_by_name_and_comparator iter alive p n registered_at = Some r"
    using assms(1-7) by (intro newest_chosen [where S = S]) blast+
  note addr = forwarded_address [OF wf, of port]
  have "net_run (net_start
        (forward_connection (Some (server_route iter alive registered_at p open_link)) (tcp_client visitor) (Some (show_ip ip), port) n)
        (handle_incoming_request_bistream anyhow_of (find_service (client_services (tcp_service E proxied))) False t)) =
      net_run (net_start
        (io_then (io_map_err (\<lambda>_. service_error.IllegalResponse) visitor) (\<lambda>_. Done (Ok ())))
        (served_outcome (handle (tcp_service E proxied client_tcp_service) (address_of_target (forward_target (Some (show_ip ip), port))) t)))"
    unfolding forward_connection_routed [OF chosen, of open_link, OF assms(8)] handle_bistream_eq
    by (simp add: negotiation_then [where fs = "find_service (client_services (tcp_service E proxied))",
          OF addr(1,2) client_finds_tcp_service [OF addr(3)]] served_mapped)
  with demand_understood [of J cfg D scfg p tunnel] forwarded_calls [OF addr(3)] show ?thesis
    unfolding Let_def ip_def [symmetric] port_def [symmetric] by blast
qed

definition sample_tcp_env :: "(unit, unit, unit, unit, unit, unit) tcp_env" where
  "sample_tcp_env =
    \<lparr>lookup_host = (\<lambda>_. Ok [SockV4 ipv4_localhost 80, SockV4 ipv4_localhost 81]), tcp_connect = (\<lambda>_. Ok ()),
     set_nodelay = (\<lambda>_. Ok ()), conn_split = (\<lambda>_. ((), ())), buf_reader = (\<lambda>_ _. ()),
     copy_bidirectional = (\<lambda>_ _. Ok (0, 0)), anyhow_of_io = (\<lambda>_. [])\<rparr>"

definition sample_client_args :: client_args where
  "sample_client_args =
    \<lparr>authority_cert = None, driver_host = SockV4 ipv4_localhost 9090, driver_san = lit ''localhost'',
     proxy_target_host = SockV4 ipv4_localhost 80\<rparr>"

theorem forwarded_connection_served_witness:
  "net_run (net_start
      (forward_connection
        (Some (server_route sorted_iter (\<lambda>_. True) peer_id (tracker_insert sample_peer tracker_new) (\<lambda>_. Ok () :: (unit, unit) result)))
        (tcp_client (Recv 2 (\<lambda>_. Done (Ok (2, 0) :: (unit, nat \<times> nat) result))))
        (Some (show_ip (V4 ipv4_localhost)), 80) (lit ''n'') :: (anyhow service_error, unit) result io)
      (handle_incoming_request_bistream (\<lambda>_. []) (find_service (client_services (tcp_service sample_tcp_env
        (\<lambda>_. Send [7, 8] (\<lambda>_. Done (Ok (0, 2))))))) False 3)) =
    \<lparr>lhs = Done (Ok ()), rhs = Done (Ok ()), to_rhs = [], to_lhs = []\<rparr>"
proof -
  have inv: "peers_inv {sample_peer} (tracker_insert sample_peer tracker_new)"
    using tracker_insert_inv [OF tracker_new_inv, of sample_peer] by simp
  note target = forwarded_address(3) [of "V4 ipv4_localhost" 80, simplified]
  let ?visitor = "Recv 2 (\<lambda>_. Done (Ok (2, 0) :: (unit, nat \<times> nat) result))"
  let ?proxied = "\<lambda>_ :: unit. Send [7, 8] (\<lambda>_. Done (Ok (0, 2) :: (unit, nat \<times> nat) result))"
  let ?addr = "address_of_target (forward_target (Some (show_ipv4 ipv4_localhost), 80))"
  have connects: "fst (tcp_service_connect sample_tcp_env client_tcp_service ?addr) = Ok ()"
    by (simp add: tcp_service_connect_def target resolve_dns_def dns_contains_def service_connect_def
        client_tcp_service_def sample_tcp_env_def)
  have served: "net_run (net_start
      (io_then (io_map_err (\<lambda>_. service_error.IllegalResponse) ?visitor) (\<lambda>_. Done (Ok ())))
      (served_outcome (handle (tcp_service sample_tcp_env ?proxied client_tcp_service) ?addr (3 :: tunnel_id)))) =
    \<lparr>lhs = Done (Ok () :: (anyhow service_error, unit) result), rhs = Done (Ok () :: (anyhow request_processing_error, unit) result), to_rhs = [], to_lhs = []\<rparr>"
    by (simp add: tcp_service_def connects served_outcome_def io_map_err_def io_map_def io_then_def net_start_def net_simps)
  from forwarded_connection_served [OF sorted_table.table_iteration_axioms inv, where 'f = anyhow and r = sample_peer
      and alive = "\<lambda>_. True" and n = "lit ''n''" and registered_at = peer_id and open_link = "\<lambda>_. Ok () :: (unit, unit) result"
      and cfg = sample_client_args and visitor = ?visitor and E = sample_tcp_env and proxied = ?proxied
      and anyhow_of = "\<lambda>_. []" and t = 3]
  show ?thesis
    by (simp add: sample_peer_def sample_client_args_def Let_def served) iprover
qed

end
