(* ===== verification/Peers_View.thy ===== *)
theory Peers_View
  imports Daemon
begin

text \<open>
  \<open>PeersView\<close> (\<open>common/daemon/mod.rs\<close>): the weak pointers to the tables of a tracker that the
  demand proxy and the routers hold. The lookups of theory \<open>Peers\<close> are those of a view whose
  tables are still there; here a view can outlive them.
\<close>

section \<open>Equality and hash of records\<close>

text \<open>The fields fed to the hasher, in their order.\<close>

definition peer_hash :: "peer_record \<Rightarrow> tunnel_id \<times> tunnel_name" where
  "peer_hash r = (peer_id r, peer_name r)"

lemma peer_hash_eq: "peer_eq a b \<longleftrightarrow> peer_hash a = peer_hash b"
  by (simp add: peer_eq_def peer_hash_def)

section \<open>Views\<close>

text \<open>What upgrading the weak pointers of a view gives.\<close>

record peers_view =
  view_by_name :: "(tunnel_name \<rightharpoonup> by_id_table) option"
  view_by_id :: "by_id_table option"

definition peers_view_new :: "(tunnel_name \<rightharpoonup> by_id_table) option \<Rightarrow> by_id_table option \<Rightarrow> peers_view" where
  "peers_view_new peers_by_name peers_by_id = \<lparr>view_by_name = peers_by_name, view_by_id = peers_by_id\<rparr>"

text \<open>\<open>kept\<close> says that some owner of the tracker's tables is left.\<close>

definition tracker_view :: "bool \<Rightarrow> peer_tracker \<Rightarrow> peers_view" where
  "tracker_view kept p =
    (if kept then \<lparr>view_by_name = Some (by_name p), view_by_id = Some (by_id p)\<rparr>
     else \<lparr>view_by_name = None, view_by_id = None\<rparr>)"

definition daemon_peers :: "bool \<Rightarrow> ('s, 'i) daemon \<Rightarrow> peers_view" where
  "daemon_peers kept d =
    (if kept then \<lparr>view_by_name = Some (by_name (peers d)), view_by_id = Some (by_id (peers d))\<rparr>
     else \<lparr>view_by_name = None, view_by_id = None\<rparr>)"

definition view_get_by_id :: "(peer_record \<Rightarrow> bool) \<Rightarrow> peers_view \<Rightarrow> tunnel_id \<Rightarrow> peer_record option" where
  "view_get_by_id alive v i =
    (case view_by_id v of
       Some peers_by_id \<Rightarrow> Option.bind (peers_by_id i) (\<lambda>r. if alive r then Some r else None)
     | None \<Rightarrow> None)"

definition view_get_by_name ::
  "(by_id_table \<Rightarrow> peer_record list) \<Rightarrow> (peer_record \<Rightarrow> bool) \<Rightarrow> peers_view \<Rightarrow> tunnel_name \<Rightarrow> peer_record list" where
  "view_get_by_name iter alive v n =
    (case view_by_name v of
       Some peers_by_name \<Rightarrow>
         (case peers_by_name n of Some subtable \<Rightarrow> filter alive (iter subtable) | None \<Rightarrow> [])
     | None \<Rightarrow> [])"

definition view_find_by_name_and_predicate ::
  "(by_id_table \<Rightarrow> peer_record list) \<Rightarrow> (peer_record \<Rightarrow> bool) \<Rightarrow> peers_view \<Rightarrow> tunnel_name \<Rightarrow>
   (peer_record \<Rightarrow> bool) \<Rightarrow> peer_record option" where
  "view_find_by_name_and_predicate iter alive v n predicate =
    (case view_by_name v of
       Some peers_by_name \<Rightarrow>
         (case peers_by_name n of
            Some subtable \<Rightarrow> find (\<lambda>r. alive r \<and> predicate r) (iter subtable)
          | None \<Rightarrow> None)
     | None \<Rightarrow> None)"

definition view_find_by_comparator ::
  "(by_id_table \<Rightarrow> peer_record list) \<Rightarrow> (peer_record \<Rightarrow> bool) \<Rightarrow> peers_view \<Rightarrow>
   (peer_record \<Rightarrow> 'o :: linorder) \<Rightarrow> peer_record option" where
  "view_find_by_comparator iter alive v key =
    (case view_by_id v of
       Some peers_by_id \<Rightarrow> max_by_key key (filter alive (iter peers_by_id))
     | None \<Rightarrow> None)"

definition view_find_by_name_and_comparator ::
  "(by_id_table \<Rightarrow> peer_record list) \<Rightarrow> (peer_record \<Rightarrow> bool) \<Rightarrow> peers_view \<Rightarrow> tunnel_name \<Rightarrow>
   (peer_record \<Rightarrow> 'o :: linorder) \<Rightarrow> peer_record option" where
  "view_find_by_name_and_comparator iter alive v n key =
    (case view_by_name v of
       Some peers_by_name \<Rightarrow>
         (case peers_by_name n of
            Some subtable \<Rightarrow> max_by_key key (filter alive (iter subtable))
          | None \<Rightarrow> None)
     | None \<Rightarrow> None)"

definition view_all ::
  "(by_id_table \<Rightarrow> peer_record list) \<Rightarrow> (peer_record \<Rightarrow> bool) \<Rightarrow> peers_view \<Rightarrow> peer_record list" where
  "view_all iter alive v = concat (map (\<lambda>t. filter alive (iter t)) (case view_by_id v of Some t \<Rightarrow> [t] | None \<Rightarrow> []))"

lemmas view_defs = view_get_by_id_def view_get_by_name_def view_find_by_name_and_predicate_def
  view_find_by_comparator_def view_find_by_name_and_comparator_def view_all_def tracker_view_def daemon_peers_def

text \<open>While the tables are there, a view answers as the tracker does; afterwards it knows no peer.\<close>

lemma view_of_tracker:
  "view_get_by_id alive (tracker_view True p) i = get_by_id alive p i"
  "view_get_by_name iter alive (tracker_view True p) n = get_by_name iter alive p n"
  "view_find_by_name_and_predicate iter alive (tracker_view True p) n predicate =
    find_by_name_and_predicate iter alive p n predicate"
  "view_find_by_comparator iter alive (tracker_view True p) key = find_by_comparator iter alive p key"
  "view_find_by_name_and_comparator iter alive (tracker_view True p) n key =
    find_by_name_and_comparator iter alive p n key"
  "view_all iter alive (tracker_view True p) = all_peers iter alive p"
  by (simp_all add: view_defs get_by_id_def get_by_name_def find_by_name_and_predicate_def
      find_by_comparator_def find_by_name_and_comparator_def all_peers_def)

lemma view_of_nothing:
  "view_get_by_id alive (tracker_view False p) i = None"
  "view_get_by_name iter alive (tracker_view False p) n = []"
  "view_find_by_name_and_predicate iter alive (tracker_view False p) n predicate = None"
  "view_find_by_comparator iter alive (tracker_view False p) key = None"
  "view_find_by_name_and_comparator iter alive (tracker_view False p) n key = None"
  "view_all iter alive (tracker_view False p) = []"
  by (simp_all add: view_defs)

lemma daemon_peers_view: "daemon_peers kept d = tracker_view kept (peers d)"
  by (simp add: daemon_peers_def tracker_view_def)

text \<open>In every run of the daemon its view lists exactly the listed tunnels that are alive.\<close>

lemma daemon_view_all:
  assumes "daemon_inv d" "table_iteration iter" "finite (listed_peers d)"
  shows "set (view_all iter alive (daemon_peers True d)) = {r \<in> listed_peers d. alive r}"
  using table_iteration.all_peers_set [OF assms(2) daemon_inv_peers [OF assms(1)] assms(3)]
  by (simp add: daemon_peers_view view_of_tracker)

end
