(* ===== verification/Daemon_Events.thy ===== *)
theory Daemon_Events
  imports Daemon
begin

text \<open>
  The event hooks of the daemon (\<open>tunnel_connected\<close>, \<open>tunnel_authenticated\<close> and
  \<open>tunnel_disconnected\<close> of \<open>ModularDaemon\<close> in \<open>common/daemon/mod.rs\<close>): three broadcast
  channels of capacity 32, to which events are sent whether or not anybody listens. Theory
  \<open>Daemon\<close> has the events in the order they are sent; here a subscriber receives them.
\<close>

section \<open>Broadcast channels\<close>

text \<open>
  tokio's channel is a parameter. Its documented behaviour: a receiver is given the values sent
  after it subscribed, in order; one that has fallen behind by more than the capacity is told how
  many values it missed and goes on with the oldest one that is kept. The sequence of sent values
  is a ghost: a value sent while nobody is subscribed is dropped by the channel, and none of the
  laws tells it from one that nobody receives.
\<close>

datatype 'v received = Value 'v | Lagged nat | NothingYet

record ('c, 'p, 'v) broadcast_ops =
  event_channel :: "nat \<Rightarrow> 'c"
  subscribe :: "'c \<Rightarrow> 'p"
  broadcast :: "'v \<Rightarrow> 'c \<Rightarrow> 'c"
  receive :: "'c \<Rightarrow> 'p \<Rightarrow> 'v received \<times> 'p"

locale broadcast_laws =
  fixes B :: "('c, 'p, 'v) broadcast_ops"
    and sent :: "'c \<Rightarrow> 'v list"
    and capacity :: "'c \<Rightarrow> nat"
    and position :: "'p \<Rightarrow> nat"
  assumes new: "sent (event_channel B n) = []" "capacity (event_channel B n) = n"
    and send: "sent (broadcast B v c) = sent c @ [v]" "capacity (broadcast B v c) = capacity c"
    and subscribed: "position (subscribe B c) = length (sent c)"
    and receive_nothing: "position p = length (sent c) \<Longrightarrow> receive B c p = (NothingYet, p)"
    and receive_value: "position p < length (sent c) \<Longrightarrow> length (sent c) - position p \<le> capacity c \<Longrightarrow>
      \<exists>p'. receive B c p = (Value (sent c ! position p), p') \<and> position p' = position p + 1"
    and receive_lagged: "position p < length (sent c) \<Longrightarrow> length (sent c) - position p > capacity c \<Longrightarrow>
      \<exists>p'. receive B c p = (Lagged (length (sent c) - capacity c - position p), p') \<and>
        position p' = length (sent c) - capacity c"

definition list_broadcast :: "('v list \<times> nat, nat, 'v) broadcast_ops" where
  "list_broadcast =
    \<lparr>event_channel = (\<lambda>n. ([], n)),
     subscribe = (\<lambda>(vs, n). length vs),
     broadcast = (\<lambda>v (vs, n). (vs @ [v], n)),
     receive = (\<lambda>(vs, n) p.
       if p \<ge> length vs then (NothingYet, p)
       else if length vs - p \<le> n then (Value (vs ! p), p + 1)
       else (Lagged (length vs - n - p), length vs - n))\<rparr>"

interpretation list_channel: broadcast_laws list_broadcast fst snd "\<lambda>p. p"
  by unfold_locales (auto simp: list_broadcast_def split: prod.splits)

section \<open>The hooks\<close>

record 'c event_channels =
  tunnel_connected :: 'c
  tunnel_authenticated :: 'c
  tunnel_disconnected :: 'c

definition event_channels_new :: "('c, 'p, daemon_event) broadcast_ops \<Rightarrow> 'c event_channels" where
  "event_channels_new B =
    \<lparr>tunnel_connected = event_channel B 32, tunnel_authenticated = event_channel B 32,
     tunnel_disconnected = event_channel B 32\<rparr>"

fun fire_event :: "('c, 'p, daemon_event) broadcast_ops \<Rightarrow> daemon_event \<Rightarrow> 'c event_channels \<Rightarrow> 'c event_channels" where
  "fire_event B (Connected t) chs = chs\<lparr>tunnel_connected := broadcast B (Connected t) (tunnel_connected chs)\<rparr>"
| "fire_event B (Authenticated t n) chs =
    chs\<lparr>tunnel_authenticated := broadcast B (Authenticated t n) (tunnel_authenticated chs)\<rparr>"
| "fire_event B (Disconnected t) chs = chs\<lparr>tunnel_disconnected := broadcast B (Disconnected t) (tunnel_disconnected chs)\<rparr>"

datatype hook = OnConnected | OnAuthenticated | OnDisconnected

fun hook_of :: "daemon_event \<Rightarrow> hook" where
  "hook_of (Connected t) = OnConnected"
| "hook_of (Authenticated t n) = OnAuthenticated"
| "hook_of (Disconnected t) = OnDisconnected"

fun channel_of :: "hook \<Rightarrow> 'c event_channels \<Rightarrow> 'c" where
  "channel_of OnConnected chs = tunnel_connected chs"
| "channel_of OnAuthenticated chs = tunnel_authenticated chs"
| "channel_of OnDisconnected chs = tunnel_disconnected chs"

section \<open>A subscriber\<close>

text \<open>
  The daemon with a subscriber of one hook: steps of the daemon, whose new events go to the
  channels, are interleaved with receptions, which are logged.
\<close>

definition new_events :: "('s, 'i) daemon \<Rightarrow> ('s, 'i) daemon \<Rightarrow> daemon_event list" where
  "new_events d d' = drop (length (events d)) (events d')"

record ('s, 'i, 'c, 'p) observed =
  observed_daemon :: "('s, 'i) daemon"
  channels :: "'c event_channels"
  receiver :: 'p
  receptions :: "daemon_event received list"

inductive observed_step ::
  "('r, 's, 'i, 'x) daemon_config \<Rightarrow> (('a, 'e, 'x) tunnel_lifecycle_error \<Rightarrow> rstr) \<Rightarrow>
   ('c, 'p, daemon_event) broadcast_ops \<Rightarrow> hook \<Rightarrow> ('s, 'i, 'c, 'p) observed \<Rightarrow> ('s, 'i, 'c, 'p) observed \<Rightarrow> bool"
  for cfg show_error B h where
  daemon_moves: "daemon_step cfg show_error (observed_daemon ob) d \<Longrightarrow>
    observed_step cfg show_error B h ob
      (ob\<lparr>observed_daemon := d, channels := fold (fire_event B) (new_events (observed_daemon ob) d) (channels ob)\<rparr>)"
| receives: "receive B (channel_of h (channels ob)) (receiver ob) = (v, p) \<Longrightarrow>
    observed_step cfg show_error B h ob (ob\<lparr>receiver := p, receptions := receptions ob @ [v]\<rparr>)"

definition subscribed_to ::
  "('c, 'p, daemon_event) broadcast_ops \<Rightarrow> hook \<Rightarrow> ('s, 'i) daemon \<Rightarrow> 'c event_channels \<Rightarrow> ('s, 'i, 'c, 'p) observed" where
  "subscribed_to B h d chs =
    \<lparr>observed_daemon = d, channels = chs, receiver = subscribe B (channel_of h chs), receptions = []\<rparr>"

lemma subscribed_to_simps [simp]:
  "observed_daemon (subscribed_to B h d chs) = d" "channels (subscribed_to B h d chs) = chs"
  "receiver (subscribed_to B h d chs) = subscribe B (channel_of h chs)" "receptions (subscribed_to B h d chs) = []"
  by (simp_all add: subscribed_to_def)

text \<open>What is left unread of the events after a log of receptions, if the log fits the events.\<close>

fun unread :: "'v received list \<Rightarrow> 'v list \<Rightarrow> 'v list option" where
  "unread [] vs = Some vs"
| "unread (NothingYet # log) vs = unread log vs"
| "unread (Value v # log) vs = (case vs of w # ws \<Rightarrow> if v = w then unread log ws else None | [] \<Rightarrow> None)"
| "unread (Lagged n # log) vs = (if n \<le> length vs then unread log (drop n vs) else None)"

lemma unread_append: "unread (log @ log') vs = Option.bind (unread log vs) (unread log')"
  by (induction log vs rule: unread.induct) (auto split: list.splits)

lemma unread_more: "unread log vs = Some us \<Longrightarrow> unread log (vs @ ws) = Some (us @ ws)"
  by (induction log vs rule: unread.induct) (auto split: list.splits if_splits)

lemma daemon_step_events:
  "daemon_step cfg show_error d d' \<Longrightarrow> events d' = events d @ new_events d d'"
  by (elim daemon_stepE)
    (auto simp: new_events_def daemon_simps stage_connect_def stage_authenticate_def stage_fail_def stage_register_def
      register_in_registry_def stage_list_def register_as_peer_def stage_report_def report_registration_def
      stage_serve_def announce_disconnection_def deregister_peer_def deregister_registry_def
      split: sum.splits prod.splits option.splits if_splits)

lemma new_events_trans:
  assumes "events d = events d0 @ new_events d0 d" "events d' = events d @ new_events d d'"
  shows "new_events d0 d' = new_events d0 d @ new_events d d'" "events d' = events d0 @ new_events d0 d'"
proof -
  from assms have "events d' = events d0 @ (new_events d0 d @ new_events d d')"
    by simp
  then show "new_events d0 d' = new_events d0 d @ new_events d d'"
    by (metis append_eq_conv_conj new_events_def)
  then show "events d' = events d0 @ new_events d0 d'"
    using assms by simp
qed

text \<open>What the subscriber has not read yet is what the channel has after its position.\<close>

definition follows :: 
  "('c \<Rightarrow> daemon_event list) \<Rightarrow> ('c \<Rightarrow> nat) \<Rightarrow> ('p \<Rightarrow> nat) \<Rightarrow> hook \<Rightarrow> ('s, 'i) daemon \<Rightarrow>
   ('s, 'i, 'c, 'p) observed \<Rightarrow> bool" where
  "follows sent capacity position h d0 ob \<longleftrightarrow> (let c = channel_of h (channels ob) in
     (\<forall>h'. capacity (channel_of h' (channels ob)) = 32) \<and> position (receiver ob) \<le> length (sent c) \<and>
     events (observed_daemon ob) = events d0 @ new_events d0 (observed_daemon ob) \<and>
     unread (receptions ob) (filter (\<lambda>e. hook_of e = h) (new_events d0 (observed_daemon ob))) =
       Some (drop (position (receiver ob)) (sent c)))"

locale daemon_hooks = broadcast_laws B sent capacity position
  for B :: "('c, 'p, daemon_event) broadcast_ops" and sent capacity position
begin

lemma fire_event_sent:
  "sent (channel_of h (fire_event B e chs)) = sent (channel_of h chs) @ (if hook_of e = h then [e] else [])"
  "capacity (channel_of h (fire_event B e chs)) = capacity (channel_of h chs)"
  by ((cases e; cases h; simp add: send), (cases e; cases h; simp add: send))

lemma fired:
  "sent (channel_of h (fold (fire_event B) evs chs)) = sent (channel_of h chs) @ filter (\<lambda>e. hook_of e = h) evs"
  "capacity (channel_of h (fold (fire_event B) evs chs)) = capacity (channel_of h chs)"
  by (induction evs arbitrary: chs) (simp_all add: fire_event_sent)

lemma follows_start:
  "(\<And>h'. capacity (channel_of h' chs) = 32) \<Longrightarrow> follows sent capacity position h d (subscribed_to B h d chs)"
  by (simp add: follows_def subscribed_to_def subscribed new_events_def)

lemma follows_moves:
  assumes "follows sent capacity position h d0 ob" "daemon_step cfg show_error (observed_daemon ob) d"
  shows "follows sent capacity position h d0 (ob\<lparr>observed_daemon := d,
    channels := fold (fire_event B) (new_events (observed_daemon ob) d) (channels ob)\<rparr>)"
proof -
  note new = new_events_trans [OF _ daemon_step_events [OF assms(2)], of d0]
  show ?thesis
    using assms(1) new by (auto simp: follows_def Let_def fired intro: unread_more)
qed

lemma receive_unread:
  assumes "position p \<le> length (sent c)" "0 < capacity c" "receive B c p = (v, p')"
  shows "position p' \<le> length (sent c)"
    "unread [v] (drop (position p) (sent c)) = Some (drop (position p') (sent c))"
    "v = (case drop (position p) (sent c) of
        [] \<Rightarrow> NothingYet
      | u # us \<Rightarrow> if length (u # us) \<le> capacity c then Value u else Lagged (length (u # us) - capacity c))"
proof -
  consider "position p = length (sent c)"
    | "position p < length (sent c)" "length (sent c) - position p \<le> capacity c"
    | "position p < length (sent c)" "length (sent c) - position p > capacity c"
    using assms(1) by linarith
  then have "position p' \<le> length (sent c) \<and>
      unread [v] (drop (position p) (sent c)) = Some (drop (position p') (sent c)) \<and>
      v = (case drop (position p) (sent c) of
        [] \<Rightarrow> NothingYet
      | u # us \<Rightarrow> if length (u # us) \<le> capacity c then Value u else Lagged (length (u # us) - capacity c))"
  proof cases
    case 1
    then show ?thesis using receive_nothing [OF 1] assms(3) by simp
  next
    case 2
    then show ?thesis
      using receive_value [OF 2] assms(3) Cons_nth_drop_Suc [OF 2(1), symmetric] by auto
  next
    case 3
    then obtain u us where us: "drop (position p) (sent c) = u # us"
      by (cases "drop (position p) (sent c)") auto
    have "length (u # us) = length (sent c) - position p"
      using arg_cong [OF us, of length] by simp
    moreover have "drop (length (sent c) - capacity c - position p) (u # us) = drop (length (sent c) - capacity c) (sent c)"
      using 3 unfolding us [symmetric] by simp
    ultimately show ?thesis
      using receive_lagged [OF 3] assms(3) 3 unfolding us by auto
  qed
  then show "position p' \<le> length (sent c)"
    "unread [v] (drop (position p) (sent c)) = Some (drop (position p') (sent c))"
    "v = (case drop (position p) (sent c) of
        [] \<Rightarrow> NothingYet
      | u # us \<Rightarrow> if length (u # us) \<le> capacity c then Value u else Lagged (length (u # us) - capacity c))"
    by blast+
qed

lemma follows_receives:
  assumes "follows sent capacity position h d0 ob" "receive B (channel_of h (channels ob)) (receiver ob) = (v, p)"
  shows "follows sent capacity position h d0 (ob\<lparr>receiver := p, receptions := receptions ob @ [v]\<rparr>)"
  using assms receive_unread(1,2) [OF _ _ assms(2)]
  by (auto simp: follows_def Let_def unread_append)

lemma follows_run:
  assumes "(observed_step cfg show_error B h)\<^sup>*\<^sup>* ob ob'" "follows sent capacity position h d0 ob"
  shows "follows sent capacity position h d0 ob'"
  using assms
proof (induction rule: rtranclp_induct)
  case (step ob1 ob2)
  from step(2) step.IH [OF step.prems] show ?case
    by cases (auto intro: follows_moves follows_receives)
qed

end

interpretation list_hooks: daemon_hooks list_broadcast fst snd "\<lambda>p. p"
  by unfold_locales

lemma channels_new_capacity:
  "broadcast_laws B sent capacity position \<Longrightarrow> capacity (channel_of h (event_channels_new B)) = 32"
  using broadcast_laws.new by (cases h) (auto simp: event_channels_new_def)

text \<open>
  C25: no subscriber of the daemon misses an event without being told. Whenever somebody subscribes
  to one of the three hooks of a running daemon, and however receptions and the stages of tunnels
  are interleaved afterwards, the receptions account for the events of that hook since then, in
  order: each was received, counted in a report of missed events, or is still unread. The next
  reception is the first unread event, unless more than 32 are unread, and then it reports all
  but the last 32 as missed.
\<close>

theorem subscriber_accounts:
  assumes "broadcast_laws B sent capacity position"
    and "(observed_step cfg show_error B h0)\<^sup>*\<^sup>* (subscribed_to B h0 (daemon_new reg) (event_channels_new B)) ob0"
    and "(observed_step cfg show_error B h)\<^sup>*\<^sup>* (subscribed_to B h (observed_daemon ob0) (channels ob0)) ob"
  shows "\<exists>us. unread (receptions ob)
        (filter (\<lambda>e. hook_of e = h) (new_events (observed_daemon ob0) (observed_daemon ob))) = Some us \<and>
      fst (receive B (channel_of h (channels ob)) (receiver ob)) =
        (case us of
           [] \<Rightarrow> NothingYet
         | u # _ \<Rightarrow> if length us \<le> 32 then Value u else Lagged (length us - 32))"
proof -
  have hooks: "daemon_hooks B sent capacity position"
    using assms(1) by (simp add: daemon_hooks_def)
  have "follows sent capacity position h0 (daemon_new reg) ob0"
    using daemon_hooks.follows_run [OF hooks assms(2) daemon_hooks.follows_start [OF hooks]]
      channels_new_capacity [OF assms(1)] by blast
  then have "follows sent capacity position h (observed_daemon ob0) ob"
    using daemon_hooks.follows_run [OF hooks assms(3) daemon_hooks.follows_start [OF hooks]]
    by (simp add: follows_def Let_def)
  then have ob: "\<And>h'. capacity (channel_of h' (channels ob)) = 32"
      "position (receiver ob) \<le> length (sent (channel_of h (channels ob)))"
      "unread (receptions ob) (filter (\<lambda>e. hook_of e = h) (new_events (observed_daemon ob0) (observed_daemon ob))) =
        Some (drop (position (receiver ob)) (sent (channel_of h (channels ob))))"
    by (auto simp: follows_def Let_def)
  obtain v p where v: "receive B (channel_of h (channels ob)) (receiver ob) = (v, p)"
    by fastforce
  from daemon_hooks.receive_unread(3) [OF hooks ob(2) _ v] ob(1,3) v show ?thesis
    by (auto split: list.splits)
qed

text \<open>Tunnels that connect one after the other while nobody receives.\<close>

lemma many_connect:
  assumes "distinct ts" "\<forall>t \<in> set ts. phases (observed_daemon ob) t = None"
  shows "(observed_step cfg show_error B h)\<^sup>*\<^sup>* ob
    (ob\<lparr>observed_daemon := fold stage_connect ts (observed_daemon ob),
        channels := fold (fire_event B) (map Connected ts) (channels ob)\<rparr>)"
  using assms
proof (induction ts arbitrary: ob)
  case (Cons t ts)
  let ?d = "stage_connect t (observed_daemon ob)"
  let ?ob = "ob\<lparr>observed_daemon := ?d, channels := fire_event B (Connected t) (channels ob)\<rparr>"
  have fresh: "\<forall>u \<in> set ts. phases ?d u = None"
    using Cons.prems by (auto simp: stage_connect_def daemon_simps)
  have "daemon_step cfg show_error (observed_daemon ob) ?d"
    using Cons.prems by (intro step_connect) simp
  from observed_step.daemon_moves [OF this, of B h]
  have "observed_step cfg show_error B h ob ?ob"
    by (simp add: new_events_def stage_connect_def daemon_simps)
  moreover have "(observed_step cfg show_error B h)\<^sup>*\<^sup>* ?ob
      (ob\<lparr>observed_daemon := fold stage_connect ts ?d,
          channels := fold (fire_event B) (map Connected ts) (fire_event B (Connected t) (channels ob))\<rparr>)"
    using Cons.IH [of ?ob] Cons.prems fresh by simp
  ultimately show ?case by (simp add: converse_rtranclp_into_rtranclp)
qed simp

lemma connected_events: "events (fold stage_connect ts d) = events d @ map Connected ts"
  by (induction ts arbitrary: d) (simp_all add: stage_connect_def daemon_simps)

lemma connected_channel:
  "tunnel_connected (fold (fire_event B) (map Connected ts) chs) =
    fold (broadcast B) (map Connected ts) (tunnel_connected chs)"
  by (induction ts arbitrary: chs) simp_all

theorem subscriber_accounts_witness:
  "fst (receive list_broadcast
      (fold (broadcast list_broadcast) (map Connected (map of_nat [0..<33])) ([], 32)) 0) = Lagged 1"
proof -
  let ?cfg = "in_memory_config assoc_dashmap"
  let ?show = "\<lambda>_ :: (unit, unit, unit in_memory_error) tunnel_lifecycle_error. lit ''e''"
  let ?d = "daemon_new (in_memory_new assoc_dashmap) :: ((tunnel_name, tunnel_id) assoc in_memory, tunnel_name) daemon"
  let ?ob = "subscribed_to list_broadcast OnConnected ?d (event_channels_new list_broadcast)"
  let ?ts = "map of_nat [0..<33] :: tunnel_id list"
  have "distinct ?ts"
    by (simp add: upt_rec)
  let ?ob' = "?ob\<lparr>observed_daemon := fold stage_connect ?ts ?d,
    channels := fold (fire_event list_broadcast) (map Connected ?ts) (event_channels_new list_broadcast)\<rparr>"
  have run: "(observed_step ?cfg ?show list_broadcast OnConnected)\<^sup>*\<^sup>*
      (subscribed_to list_broadcast OnConnected (observed_daemon ?ob) (channels ?ob)) ?ob'"
    using many_connect [of ?ts ?ob ?cfg ?show list_broadcast OnConnected] \<open>distinct ?ts\<close>
    by (simp add: daemon_new_def)
  have events: "filter (\<lambda>e. hook_of e = OnConnected) (new_events ?d (fold stage_connect ?ts ?d)) = map Connected ?ts"
    by (simp add: new_events_def connected_events daemon_new_def filter_map comp_def)
  have new: "event_channel list_broadcast 32 = ([], 32)" "subscribe list_broadcast ([], 32) = 0"
    by (simp_all add: list_broadcast_def)
  have "receiver ?ob' = 0" "receptions ?ob' = []"
    by (simp_all add: event_channels_new_def new)
  moreover have "channel_of OnConnected (channels ?ob') = fold (broadcast list_broadcast) (map Connected ?ts) ([], 32)"
    using connected_channel [of list_broadcast ?ts "event_channels_new list_broadcast"]
    by (simp only: observed.simps channel_of.simps) (simp add: event_channels_new_def new)
  moreover obtain us where us: "unread (receptions ?ob')
        (filter (\<lambda>e. hook_of e = OnConnected) (new_events (observed_daemon ?ob) (observed_daemon ?ob'))) = Some us"
      "fst (receive list_broadcast (channel_of OnConnected (channels ?ob')) (receiver ?ob')) =
        (case us of [] \<Rightarrow> NothingYet | u # _ \<Rightarrow> if length us \<le> 32 then Value u else Lagged (length us - 32))"
    using subscriber_accounts [OF list_channel.broadcast_laws_axioms rtranclp.rtrancl_refl run] by blast
  moreover have "us = map Connected ?ts"
    using us(1) events by simp
  then have "length us = 33" "us \<noteq> []"
    by simp_all
  ultimately show ?thesis
    by (cases us) simp_all
qed

end
