(* ===== verification/Quic_Logging.thy ===== *)
theory Quic_Logging
  imports Quinn_Tunnel Streams
begin

text \<open>
  The diagnostic events of QUIC tunnels (\<open>quic_logging.rs\<close> and the log lines of
  \<open>tunnel/quinn_tunnel.rs\<close>): the switch, what each operation of a tunnel reports and on which
  level, and that the reports neither change what a tunnel does nor misstate its streams. An
  event keeps the fields that come from the tunnel's state; durations are left out.
\<close>

section \<open>The switch\<close>

definition logging_default :: bool where
  "logging_default = False"

definition logging_enable :: "bool \<Rightarrow> bool" where
  "logging_enable enabled = True"

definition logging_disable :: "bool \<Rightarrow> bool" where
  "logging_disable enabled = False"

definition logging_is_enabled :: "bool \<Rightarrow> bool" where
  "logging_is_enabled enabled = enabled"

section \<open>Events\<close>

datatype log_level = LevelDebug | LevelInfo | LevelWarn | LevelError

datatype quic_log =
    TunnelEstablished tunnel_id tunnel_side
  | StreamAccepted "64 word"
  | StreamOpened "64 word"
  | StreamClosed "64 word"
  | AcceptStopped tunnel_error "64 word"
  | OpenStopped tunnel_error "64 word"
  | TunnelClosing tunnel_close_reason "64 word"
  | ConnectionDropped quinn_connection_error

text \<open>The level of a failed accept or open, and of the conversion of a connection error.\<close>

fun stopped_level :: "tunnel_error \<Rightarrow> log_level" where
  "stopped_level ConnectionClosed = LevelWarn"
| "stopped_level ApplicationClosed = LevelWarn"
| "stopped_level TimedOut = LevelWarn"
| "stopped_level TransportError = LevelError"
| "stopped_level LocallyClosed = LevelDebug"

fun dropped_level :: "quinn_connection_error \<Rightarrow> log_level" where
  "dropped_level VersionMismatch = LevelWarn"
| "dropped_level QuinnTransportError = LevelWarn"
| "dropped_level QuinnConnectionClosed = LevelInfo"
| "dropped_level QuinnApplicationClosed = LevelInfo"
| "dropped_level Reset = LevelWarn"
| "dropped_level QuinnTimedOut = LevelWarn"
| "dropped_level QuinnLocallyClosed = LevelDebug"
| "dropped_level CidsExhausted = LevelWarn"

fun log_level_of :: "quic_log \<Rightarrow> log_level" where
  "log_level_of (TunnelEstablished i side) = LevelInfo"
| "log_level_of (StreamAccepted n) = LevelDebug"
| "log_level_of (StreamOpened n) = LevelDebug"
| "log_level_of (StreamClosed n) = LevelDebug"
| "log_level_of (AcceptStopped e n) = stopped_level e"
| "log_level_of (OpenStopped e n) = stopped_level e"
| "log_level_of (TunnelClosing r n) = LevelInfo"
| "log_level_of (ConnectionDropped e) = dropped_level e"

text \<open>What an operation reports when the switch is on, in the state it finds.\<close>

definition from_connection_log :: "'k quinn_tunnel \<Rightarrow> quic_log list" where
  "from_connection_log q = [TunnelEstablished (qt_id q) (qt_side q)]"

definition close_log :: "tunnel_close_reason \<Rightarrow> 't quinn_state \<Rightarrow> quic_log list" where
  "close_log reason s = [TunnelClosing reason (active_streams s)]"

definition open_link_log :: "(quinn_connection_error, 'b) result \<Rightarrow> 't quinn_state \<Rightarrow> quic_log list" where
  "open_link_log opened s =
    (case opened of
       Inr streams \<Rightarrow> [StreamOpened (active_streams s + 1)]
     | Inl e \<Rightarrow> [ConnectionDropped e, OpenStopped (tunnel_error_of_quinn e) (active_streams s)])"

definition incoming_log ::
  "('k, 't) token_ops \<Rightarrow> 'k quinn_tunnel \<Rightarrow> (quinn_connection_error, 'b) result poll \<Rightarrow> 't quinn_state \<Rightarrow> quic_log list" where
  "incoming_log T q accepted s =
    (if incoming_ended s \<or> is_cancelled T (incoming_closed q) (tokens s) then []
     else case accepted of
       Pending \<Rightarrow> []
     | Ready (Inr streams) \<Rightarrow> [StreamAccepted (active_streams s + 1)]
     | Ready (Inl e) \<Rightarrow> [ConnectionDropped e, AcceptStopped (tunnel_error_of_quinn e) (active_streams s)])"

text \<open>The subtraction of the reported count saturates, that of the counter wraps.\<close>

definition stream_drop_log :: "'t quinn_state \<Rightarrow> quic_log list" where
  "stream_drop_log s = [StreamClosed (if active_streams s = 0 then 0 else active_streams s - 1)]"

section \<open>Accessors and guarded streams\<close>

definition active_stream_count :: "'t quinn_state \<Rightarrow> 64 word" where
  "active_stream_count s = active_streams s"

definition quinn_into_inner :: "'k quinn_tunnel \<Rightarrow> 'c \<Rightarrow> 'i \<Rightarrow> tunnel_id \<times> 'c \<times> tunnel_side \<times> 'i" where
  "quinn_into_inner q connection incoming = (qt_id q, connection, qt_side q, incoming)"

text \<open>The reading half of a link with its guard: reads go to the half, dropping it runs the guard.\<close>

definition guarded_read :: "('r, 'e) async_read \<Rightarrow> ('r \<times> 'g, 'e) async_read" where
  "guarded_read R = \<lparr>poll_read = \<lambda>n. on_fst (poll_read R n)\<rparr>"

lemma guarded_reads: "poll_read (guarded_read R) n (r, g) = apsnd (\<lambda>r. (r, g)) (poll_read R n r)"
  by (simp add: guarded_read_def on_fst_def split: prod.splits)

section \<open>Runs with the switch\<close>

datatype logged_op = EnableLogging | DisableLogging | TunnelOp quinn_op

fun op_log :: "('k, 't) token_ops \<Rightarrow> 'k quinn_tunnel \<Rightarrow> quinn_op \<Rightarrow> 't quinn_run \<Rightarrow> quic_log list" where
  "op_log T q (DoClose r) (s, n, m) = close_log r s"
| "op_log T q (DoOpened r) (s, n, m) = (if n = 0 then [] else open_link_log r s)"
| "op_log T q (DoAccept r) (s, n, m) = incoming_log T q r s"
| "op_log T q DoDropStream (s, n, m) = (if m = 0 then [] else stream_drop_log s)"
| "op_log T q _ c = []"

fun logged_run ::
  "('k, 't) token_ops \<Rightarrow> 'k quinn_tunnel \<Rightarrow> logged_op list \<Rightarrow> bool \<times> 't quinn_run \<Rightarrow> quic_log list \<times> bool \<times> 't quinn_run" where
  "logged_run T q [] c = ([], c)"
| "logged_run T q (EnableLogging # ops) (enabled, c) = logged_run T q ops (logging_enable enabled, c)"
| "logged_run T q (DisableLogging # ops) (enabled, c) = logged_run T q ops (logging_disable enabled, c)"
| "logged_run T q (TunnelOp x # ops) (enabled, c) =
    apfst (\<lambda>log. (if logging_is_enabled enabled then op_log T q x c else []) @ log)
      (logged_run T q ops (enabled, quinn_apply T q x c))"

fun tunnel_ops :: "logged_op list \<Rightarrow> quinn_op list" where
  "tunnel_ops [] = []"
| "tunnel_ops (TunnelOp x # ops) = x # tunnel_ops ops"
| "tunnel_ops (_ # ops) = tunnel_ops ops"

text \<open>The number of open streams that the events tell, if each states it rightly.\<close>

fun recounted :: "quic_log list \<Rightarrow> 64 word \<Rightarrow> 64 word option" where
  "recounted [] n = Some n"
| "recounted (StreamAccepted c # log) n = (if c = n + 1 then recounted log c else None)"
| "recounted (StreamOpened c # log) n = (if c = n + 1 then recounted log c else None)"
| "recounted (StreamClosed c # log) n = (if c = n - 1 then recounted log c else None)"
| "recounted (AcceptStopped e c # log) n = (if c = n then recounted log n else None)"
| "recounted (OpenStopped e c # log) n = (if c = n then recounted log n else None)"
| "recounted (TunnelClosing r c # log) n = (if c = n then recounted log n else None)"
| "recounted (TunnelEstablished i side # log) n = recounted log n"
| "recounted (ConnectionDropped e # log) n = recounted log n"

lemma recounted_append: "recounted (log @ log') n = Option.bind (recounted log n) (recounted log')"
  by (induction log n rule: recounted.induct) auto

text \<open>The switch changes only what is reported: the tunnel runs as without it.\<close>

lemma logging_transparent: "snd (snd (logged_run T q ops (enabled, c))) = quinn_run T q (tunnel_ops ops) c"
  by (induction T q ops "(enabled, c)" arbitrary: enabled c rule: logged_run.induct) (simp_all split: prod.splits)

lemma logging_off_silent: "EnableLogging \<notin> set ops \<Longrightarrow> fst (logged_run T q ops (False, c)) = []"
proof (induction ops arbitrary: c)
  case (Cons x ops)
  then show ?case by (cases x) (auto simp: logging_disable_def logging_is_enabled_def)
qed simp

lemma op_log_recounted:
  assumes "quinn_counts (s, n, m)" "m < 2 ^ 64" "quinn_apply T q x (s, n, m) = (s', n', m')"
  shows "recounted (op_log T q x (s, n, m)) (active_streams s) = Some (active_streams s') \<and> m' \<le> Suc m"
proof -
  have "active_streams s \<noteq> 0" if "m \<noteq> 0"
    using assms(1,2) that by (auto simp: quinn_counts_def word_of_nat_eq_0_iff dest: nat_dvd_not_less)
  then show ?thesis
    using assms(3)
    by (cases x) (auto simp: quinn_defs close_log_def open_link_log_def incoming_log_def stream_drop_log_def Let_def
        split: quinn_splits)
qed

text \<open>
  With the switch on from the creation of a tunnel, every count in its events is the number of its
  open streams at that moment, and the events add up to the counter of the tunnel.
\<close>

lemma logged_counts:
  assumes "quinn_counts (s, n, m)" "m + length ops < 2 ^ 64" "DisableLogging \<notin> set ops"
  shows "recounted (fst (logged_run T q ops (True, s, n, m))) (active_streams s) =
    Some (active_stream_count (fst (quinn_run T q (tunnel_ops ops) (s, n, m))))"
  using assms
proof (induction ops arbitrary: s n m)
  case Nil
  then show ?case by (simp add: active_stream_count_def)
next
  case (Cons x ops)
  show ?case
  proof (cases x)
    case EnableLogging
    with Cons show ?thesis by (simp add: logging_enable_def)
  next
    case DisableLogging
    with Cons show ?thesis by simp
  next
    case (TunnelOp y)
    obtain s' n' m' where y: "quinn_apply T q y (s, n, m) = (s', n', m')" by (metis prod_cases3)
    have "m < 2 ^ 64" using Cons.prems(2) by simp
    note one = op_log_recounted [OF Cons.prems(1) this y]
    have "quinn_counts (s', n', m')"
      using quinn_apply_counts [OF Cons.prems(1), of T q y] y by simp
    from Cons.IH [OF this] Cons.prems one y TunnelOp show ?thesis
      by (simp add: logging_is_enabled_def recounted_append)
  qed
qed

end
