(* ===== verification/Tests_Protocol.thy ===== *)
theory Tests_Protocol
  imports Framed Proxy_Tcp Routing Tunnels
begin

text \<open>
  The unit tests of the protocol modules, run on the model: each test function of
  \<open>common/protocol/address.rs\<close>, \<open>util/framed.rs\<close>, \<open>common/protocol/proxy_tcp.rs\<close>,
  \<open>common/protocol/negotiation.rs\<close> and \<open>simple_ack_authentication.rs\<close> is a boolean definition with its steps and assertions, and a
  lemma says that it passes. So the definitions agree with the expectations the code is tested
  against. A step that unwraps a result is true of a success only.
\<close>

section \<open>Assertions\<close>

definition unwrapped :: "('e, 'a) result \<Rightarrow> ('a \<Rightarrow> bool) \<Rightarrow> bool" where
  "unwrapped r assertion = (case r of Inr a \<Rightarrow> assertion a | Inl e \<Rightarrow> False)"

definition unwrapped_err :: "('e, 'a) result \<Rightarrow> ('e \<Rightarrow> bool) \<Rightarrow> bool" where
  "unwrapped_err r assertion = (case r of Inl e \<Rightarrow> assertion e | Inr a \<Rightarrow> False)"

lemma unwrapped_simps [simp]:
  "unwrapped (Ok a) P = P a" "unwrapped (Err e) P = False"
  "unwrapped_err (Err e) Q = Q e" "unwrapped_err (Ok a) Q = False"
  by (simp_all add: unwrapped_def unwrapped_err_def)

section \<open>Addresses\<close>

definition TRIVIAL_CASE :: rstr where
  "TRIVIAL_CASE = lit ''/hello/world''"

definition TRIVIAL_CASE_SEGMENTS :: "rstr list" where
  "TRIVIAL_CASE_SEGMENTS = [lit ''hello'', lit ''world'']"

definition ESCAPED_CASE :: rstr where
  "ESCAPED_CASE = [slash, backslash, backslash] @ lit ''foo'' @ [backslash, slash] @ lit ''bar'' @
    [slash, slash, backslash, backslash, slash] @ lit ''baz'' @ [backslash, slash]"

definition ESCAPED_CASE_SEGMENTS :: "rstr list" where
  "ESCAPED_CASE_SEGMENTS = [backslash # lit ''foo/bar'', [], [backslash], lit ''baz/'']"

definition MISSING_LEADING_SLASH :: rstr where
  "MISSING_LEADING_SLASH = lit ''hello/world''"

definition from_segments_trivial :: bool where
  "from_segments_trivial = unwrapped (address_from_str TRIVIAL_CASE) (\<lambda>addr. iter_segments addr = TRIVIAL_CASE_SEGMENTS)"

definition display_round_trip_trivial :: bool where
  "display_round_trip_trivial = unwrapped (address_from_str TRIVIAL_CASE) (\<lambda>addr. rendered addr = TRIVIAL_CASE)"

definition error_on_missing_leading_slash :: bool where
  "error_on_missing_leading_slash = unwrapped_err (address_from_str MISSING_LEADING_SLASH) (\<lambda>e. e = InvalidPrefix)"

definition from_segments_zero_length_root :: bool where
  "from_segments_zero_length_root = unwrapped (address_from_str (lit ''/'')) (\<lambda>addr. iter_segments addr = [[]])"

definition display_round_trip_zero_length_root :: bool where
  "display_round_trip_zero_length_root = unwrapped (address_from_str (lit ''/'')) (\<lambda>addr. rendered addr = lit ''/'')"

definition from_segments_zero_length_root_multi :: bool where
  "from_segments_zero_length_root_multi =
    unwrapped (address_from_str (lit ''//'')) (\<lambda>addr. iter_segments addr = [[], []])"

definition display_round_trip_zero_length_root_multi :: bool where
  "display_round_trip_zero_length_root_multi =
    unwrapped (address_from_str (lit ''//'')) (\<lambda>addr. rendered addr = lit ''//'')"

definition from_segments_empty :: bool where
  "from_segments_empty = unwrapped (address_from_str []) (\<lambda>addr. iter_segments addr = [])"

definition display_round_trip_empty :: bool where
  "display_round_trip_empty = unwrapped (address_from_str []) (\<lambda>addr. rendered addr = [])"

definition from_segments_escaped :: bool where
  "from_segments_escaped = unwrapped (address_from_str ESCAPED_CASE) (\<lambda>addr. iter_segments addr = ESCAPED_CASE_SEGMENTS)"

definition display_round_trip_escaped :: bool where
  "display_round_trip_escaped = unwrapped (address_from_str ESCAPED_CASE) (\<lambda>addr. rendered addr = ESCAPED_CASE)"

definition error_on_bad_escape_sequences :: bool where
  "error_on_bad_escape_sequences \<longleftrightarrow>
    unwrapped_err (address_from_str [backslash]) (\<lambda>e. e = InvalidPrefix) \<and>
    unwrapped_err (address_from_str [backslash, slash]) (\<lambda>e. e = InvalidPrefix) \<and>
    unwrapped_err (address_from_str [slash, backslash]) (\<lambda>e. e = InvalidEscapeSequence) \<and>
    unwrapped_err (address_from_str (lit ''/foo'' @ [backslash])) (\<lambda>e. e = InvalidEscapeSequence) \<and>
    unwrapped_err (address_from_str (lit ''/hello'' @ [backslash] @ lit ''x'')) (\<lambda>e. e = InvalidEscapeSequence)"

lemma address_tests_pass:
  "from_segments_trivial" "display_round_trip_trivial" "error_on_missing_leading_slash"
  "from_segments_zero_length_root" "display_round_trip_zero_length_root" "from_segments_zero_length_root_multi"
  "display_round_trip_zero_length_root_multi" "from_segments_empty" "display_round_trip_empty"
  "from_segments_escaped" "display_round_trip_escaped" "error_on_bad_escape_sequences"
  by code_simp+

section \<open>Frames\<close>

text \<open>A cursor over a buffer that is written and then read from its start.\<close>

definition written :: "('e, unit) result io \<Rightarrow> (byte list \<Rightarrow> bool) \<Rightarrow> bool" where
  "written w assertion =
    (case run_io w \<lparr>rx = [], tx = [], wcap = None, read_first = True\<rparr> of
       (Inr _, l) \<Rightarrow> assertion (tx l)
     | (Inl _, l) \<Rightarrow> False)"

definition read_back :: "byte list \<Rightarrow> ('e, 'a) result io \<Rightarrow> ('a \<Rightarrow> bool) \<Rightarrow> bool" where
  "read_back buffer r assertion = unwrapped (fst (run_io r \<lparr>rx = buffer, tx = [], wcap = None, read_first = True\<rparr>)) assertion"

definition TEST_BLOB_LENGTH :: nat where
  "TEST_BLOB_LENGTH = 1234"

definition stream_framed_roundtrip :: bool where
  "stream_framed_roundtrip \<longleftrightarrow>
    (let test_data = map (\<lambda>x. of_nat (x mod 255)) [0..<TEST_BLOB_LENGTH] in
     written (write_frame test_data) (\<lambda>buffer.
       read_back buffer (read_frame None) (\<lambda>deserialized. test_data = deserialized) \<and>
       drop 4 buffer = test_data \<and> length buffer = TEST_BLOB_LENGTH + 4)) \<and>
    (let test_data = [] in
     written (write_frame test_data) (\<lambda>buffer.
       read_back buffer (read_frame None) (\<lambda>result. test_data = result) \<and> length buffer = 4))"

text \<open>\<open>serde_json\<close> is a parameter: \<open>to_vec\<close> of the string \<open>a\<close> has three bytes.\<close>

definition exceeding_maximum_length_is_no_op :: "(rstr \<Rightarrow> ('j, byte list) result) \<Rightarrow> bool" where
  "exceeding_maximum_length_is_no_op to_vec =
    (case run_io (write_framed_json to_vec (lit ''a'') (Some (4 + 2))) \<lparr>rx = [], tx = [], wcap = None, read_first = True\<rparr> of
       (Inl (json_write_error.MaxLengthExceeded expected produced), l) \<Rightarrow> length (tx l) = 0
     | _ \<Rightarrow> False)"

definition stream_json_serialization_roundtrip ::
  "('v \<Rightarrow> ('j, byte list) result) \<Rightarrow> (byte list \<Rightarrow> ('j, 'v) result) \<Rightarrow> 'v \<Rightarrow> bool" where
  "stream_json_serialization_roundtrip to_vec from_slice original =
    written (write_framed_json to_vec original None) (\<lambda>buffer.
      read_back buffer (read_framed_json from_slice None) (\<lambda>deserialized. original = deserialized))"

lemma written_frame: "written (write_frame bs) P = P (frame bs)"
  by (simp add: written_def run_write_frame)

lemma framed_tests_pass:
  "stream_framed_roundtrip"
  "to_vec (lit ''a'') = Ok [34, 97, 34] \<Longrightarrow> exceeding_maximum_length_is_no_op to_vec"
  "to_vec v = Ok bs \<Longrightarrow> from_slice bs = Ok v \<Longrightarrow> length bs < 2 ^ 32 \<Longrightarrow>
    stream_json_serialization_roundtrip to_vec from_slice v"
proof -
  show "stream_framed_roundtrip"
    by (simp add: stream_framed_roundtrip_def written_frame read_back_def run_read_frame_frame [where rest = "[]"]
        fits_def TEST_BLOB_LENGTH_def Let_def) (simp add: frame_def)
  show "to_vec (lit ''a'') = Ok [34, 97, 34] \<Longrightarrow> exceeding_maximum_length_is_no_op to_vec"
    by (simp add: exceeding_maximum_length_is_no_op_def run_write_framed_json fits_def)
  show "to_vec v = Ok bs \<Longrightarrow> from_slice bs = Ok v \<Longrightarrow> length bs < 2 ^ 32 \<Longrightarrow>
      stream_json_serialization_roundtrip to_vec from_slice v"
    by (simp add: stream_json_serialization_roundtrip_def written_def read_back_def run_write_framed_json fits_def
        run_read_framed_json [where b = bs and rest = "[]"])
qed

section \<open>TCP targets\<close>

definition parses_back :: "tcp_stream_target \<Rightarrow> bool" where
  "parses_back t = unwrapped (target_of_address (address_of_target t)) (\<lambda>u. u = t)"

definition test_dns_name_parsing :: bool where
  "test_dns_name_parsing \<longleftrightarrow>
    parses_back (Dns (Dns4 (lit ''127.0.0.1'') 0)) \<and>
    parses_back (Dns (Dns4 (lit ''example.com'') 0)) \<and>
    parses_back (Dns (Dns6 (lit ''example.com'') 65535)) \<and>
    parses_back (Dns (PreferHigher (lit ''example.com'') 443)) \<and>
    parses_back (Dns (Dns6 (lit ''::1'') 8080)) \<and>
    parses_back (Dns (Dns6 (lit ''[::1]'') 8080))"

definition target_parsing :: bool where
  "target_parsing \<longleftrightarrow>
    unwrapped (target_from_str (lit ''/tcp/2468'')) (\<lambda>t. t = SocketAddr (socket_addr_new (V4 ipv4_localhost) 2468)) \<and>
    unwrapped (target_from_str (lit ''/ip4/127.0.0.1/tcp/2468''))
      (\<lambda>t. t = SocketAddr (socket_addr_new (V4 ipv4_localhost) 2468)) \<and>
    unwrapped (target_from_str (lit ''/ip6/::1/tcp/2468''))
      (\<lambda>t. t = SocketAddr (socket_addr_new (V6 ipv6_localhost) 2468)) \<and>
    unwrapped (target_from_str (lit ''/dns4/localhost/tcp/2468'')) (\<lambda>t. t = Dns (Dns4 (lit ''localhost'') 2468)) \<and>
    unwrapped (target_from_str (lit ''/dns6/localhost/tcp/2468'')) (\<lambda>t. t = Dns (Dns6 (lit ''localhost'') 2468))"

lemma parses_back_dns: "parses_back (Dns d)"
  using target_round [of "Dns d"] by (simp add: parses_back_def)

lemma unprefixed_form:
  assumes "target_wf t" "s = rendered (address_of_segments (target_segments t))"
  shows "target_from_str s = Ok (target_parsed t)"
  using target_round_unprefixed [OF assms(1)] assms(2) by simp

lemma proxy_tcp_tests_pass: "test_dns_name_parsing" "target_parsing"
proof -
  show "test_dns_name_parsing" by (simp add: test_dns_name_parsing_def parses_back_dns)
  have "show_u16 2468 = lit ''2468''" "show_ipv4 ipv4_localhost = lit ''127.0.0.1''" "show_ipv6 ipv6_localhost = lit ''::1''"
    by code_simp+
  then have "lit ''/tcp/2468'' = rendered (address_of_segments (target_segments (Port 2468)))"
    "lit ''/ip4/127.0.0.1/tcp/2468'' =
      rendered (address_of_segments (target_segments (SocketAddr (SockV4 ipv4_localhost 2468))))"
    "lit ''/ip6/::1/tcp/2468'' =
      rendered (address_of_segments (target_segments (SocketAddr (SockV6 ipv6_localhost 2468 0 0))))"
    "lit ''/dns4/localhost/tcp/2468'' =
      rendered (address_of_segments (target_segments (Dns (Dns4 (lit ''localhost'') 2468))))"
    "lit ''/dns6/localhost/tcp/2468'' =
      rendered (address_of_segments (target_segments (Dns (Dns6 (lit ''localhost'') 2468))))"
    by (simp_all add: target_segments_def into_suffixed_def address_of_segments_def rendered_def iter_segments_def
        lit_def needs_escaped_def)
  note forms = this [THEN unprefixed_form [rotated]]
  show "target_parsing"
    by (simp add: target_parsing_def forms ipv6_wf_def ipv6_localhost_def)
qed

section \<open>Two parties\<close>

text \<open>
  Tests with two tasks run them against each other; the end of all interleavings is \<open>net_run\<close>.
  \<open>both_unwrapped\<close> says that both tasks end well and their results pass.
\<close>

definition both_unwrapped :: "(('e, 'a) result, ('f, 'b) result) net \<Rightarrow> ('a \<Rightarrow> 'b \<Rightarrow> bool) \<Rightarrow> bool" where
  "both_unwrapped c assertion =
    (case (lhs c, rhs c) of (Done (Inr a), Done (Inr b)) \<Rightarrow> assertion a b | _ \<Rightarrow> False)"

text \<open>A stream of a fresh pair of duplex tunnels, as the opening and the other side get it.\<close>

definition linked :: "tunnel_side \<Rightarrow> bool" where
  "linked opener =
    (case duplex_open_link list_mpsc opener (duplex_channel list_mpsc) of
       (Inr (n, True), e) \<Rightarrow> fst (duplex_poll_incoming list_mpsc (other_side opener) e) = Ready (Some (Ok (n, False)))
     | _ \<Rightarrow> False)"

definition NoOpServiceAcceptAll :: "('t, anyhow) service" where
  "NoOpServiceAcceptAll = \<lparr>accepts = (\<lambda>addr tunnel. True), handle = (\<lambda>addr tunnel. Done (Ok ()))\<rparr>"

definition TestServiceRegistry :: "('t, anyhow) service list \<Rightarrow> ('t, anyhow) service_registry" where
  "TestServiceRegistry svcs addr tunnel = find (\<lambda>s. accepts s addr tunnel) svcs"

definition negotiate_test :: "'t \<Rightarrow> bool" where
  "negotiate_test tunnel \<longleftrightarrow>
    linked Connect \<and>
    unwrapped (address_from_str (lit ''/test/addr'')) (\<lambda>test_addr.
      both_unwrapped (net_run (net_start (client_negotiate test_addr :: (anyhow negotiation_error, unit) result io)
          (service_negotiate (TestServiceRegistry [NoOpServiceAcceptAll]) tunnel)))
        (\<lambda>_ (addr, svc). rendered addr = lit ''/test/addr''))"

definition run_auth :: bool where
  "run_auth \<longleftrightarrow>
    linked Listen \<and>
    (let client_info = \<lparr>info_id = duplex_id (connector (duplex_channel list_mpsc)), info_side = Connect, info_addr = Unidentified\<rparr>;
         server_info = \<lparr>info_id = duplex_id (listener (duplex_channel list_mpsc)), info_side = Listen, info_addr = Unidentified\<rparr>;
         client_auth_task = perform_authentication simple_ack_authenticate client_info
           \<lparr>opened_link = ShutDown, next_incoming = Some (Completed (Ok (Some ())))\<rparr>;
         server_auth_task = perform_authentication simple_ack_authenticate server_info
           \<lparr>opened_link = Completed (Ok ()), next_incoming = None\<rparr>
     in both_unwrapped (net_run (net_start
            (server_auth_task :: (unit authentication_error may_panic, tunnel_name \<times> authentication_attributes) result io)
            (client_auth_task :: (unit authentication_error may_panic, tunnel_name \<times> authentication_attributes) result io)))
          (\<lambda>server_res client_res. fst client_res = lit ''Unidentified'' \<and> fst server_res = lit ''Unidentified''))"

lemma two_party_tests_pass: "negotiate_test tunnel" "run_auth"
proof -
  have linked: "linked side" for side
    by (cases side) (simp_all add: linked_def duplex_open_link_def duplex_poll_incoming_def duplex_channel_def
        duplex_for_def list_mpsc_def)
  let ?a = "\<lparr>segments = [lit ''test'', lit ''addr'']\<rparr>"
  have parsed: "address_from_str (lit ''/test/addr'') = Ok ?a" "rendered ?a = lit ''/test/addr''"
    by code_simp+
  have short: "valid_address ?a" "length (address_into_bytes ?a) \<le> 2048"
    by (simp_all add: address_into_bytes_def into_bytes_def rendered_def iter_segments_def lit_def
        needs_escaped_def utf8_char_def valid_address_def scalar_def)
  have found: "TestServiceRegistry [NoOpServiceAcceptAll] ?a tunnel = Some NoOpServiceAcceptAll"
    by (simp add: TestServiceRegistry_def NoOpServiceAcceptAll_def)
  have finished: "net_run (net_start (Done x) (Done y)) = \<lparr>lhs = Done x, rhs = Done y, to_rhs = [], to_lhs = []\<rparr>" for x y
    by (simp add: net_start_def net_simps)
  have run: "net_run (net_start (client_negotiate ?a) (service_negotiate (TestServiceRegistry [NoOpServiceAcceptAll]) tunnel)) =
      \<lparr>lhs = Done (Ok () :: (anyhow negotiation_error, unit) result), rhs = Done (Ok (?a, NoOpServiceAcceptAll)),
       to_rhs = [], to_lhs = []\<rparr>"
    using negotiation_then [where fs = "TestServiceRegistry [NoOpServiceAcceptAll]", OF short found, of Done Done] unfolding io_bind_Done finished .
  show "negotiate_test tunnel"
    by (simp add: negotiate_test_def linked parsed run both_unwrapped_def)
  let ?s = "\<lparr>info_id = 0, info_side = Listen, info_addr = Unidentified\<rparr>"
  let ?c = "\<lparr>info_id = 1, info_side = Connect, info_addr = Unidentified\<rparr>"
  have auth: "net_run (net_start (simple_ack_authenticate ?s) (simple_ack_authenticate ?c)) =
      \<lparr>lhs = Done (Ok (lit ''Unidentified'', Map.empty) :: (unit authentication_error may_panic, _) result),
       rhs = Done (Ok (lit ''Unidentified'', Map.empty) :: (unit authentication_error may_panic, _) result),
       to_rhs = [], to_lhs = []\<rparr>"
    using ack_run [of ?s ?c] by (simp add: ack_start_def)
  have "perform_authentication h ?s \<lparr>opened_link = Completed (Ok ()), next_incoming = None\<rparr> = h ?s"
      "perform_authentication h ?c \<lparr>opened_link = ShutDown, next_incoming = Some (Completed (Ok (Some ())))\<rparr> = h ?c"
      for h :: "unit authentication_handler"
    by (simp_all add: perform_authentication_def establish_listen_def establish_connect_def map_until_def)
  with auth show "run_auth"
    by (simp add: run_auth_def linked Let_def duplex_channel_def duplex_for_def both_unwrapped_def)
qed

end
