(* ===== verification/Tests_Combinators.thy ===== *)
theory Tests_Combinators
  imports Tunnel_Id Tunnel_Source Extensions Dropkick
begin

text \<open>
  The unit tests of streams, futures, tunnels and drop notifications, run on the model:
  \<open>tunnel/id.rs\<close>, \<open>tunnel/duplex.rs\<close>, \<open>common/tunnel_source/mod.rs\<close>,
  \<open>ext/try_stream/try_fuse_stream.rs\<close>, \<open>ext/future/mod.rs\<close>, \<open>ext/stream.rs\<close> and
  \<open>util/dropkick.rs\<close>. The streams of the tests are always ready, so that collecting one needs no
  waker; \<open>collect\<close> has fuel and gives \<open>None\<close> when it runs out or would have to wait.
\<close>

section \<open>Streams of lists\<close>

fun list_poll :: "'i list \<Rightarrow> 'i option poll \<times> 'i list" where
  "list_poll [] = (Ready None, [])"
| "list_poll (x # xs) = (Ready (Some x), xs)"

fun collect :: "nat \<Rightarrow> ('s, 'i) poll_next_fn \<Rightarrow> 's \<Rightarrow> ('i list \<times> 's) option" where
  "collect 0 p s = None"
| "collect (Suc n) p s =
    (case p s of
       (Pending, s') \<Rightarrow> None
     | (Ready None, s') \<Rightarrow> Some ([], s')
     | (Ready (Some i), s') \<Rightarrow> map_option (apfst (Cons i)) (collect n p s'))"

definition try_collect :: "nat \<Rightarrow> ('s, ('e, 'i) result) poll_next_fn \<Rightarrow> 's \<Rightarrow> ('i list \<times> 's) option" where
  "try_collect n p s =
    (case collect n p s of
       Some (rs, s') \<Rightarrow> if list_all is_ok rs then Some (map projr rs, s') else None
     | None \<Rightarrow> None)"

section \<open>Tunnel ids\<close>

type_synonym fake_tunnel = tunnel_id

definition fused_tunnel_id_stream :: bool where
  "fused_tunnel_id_stream =
    (case collect 10 (constructed_poll_next (\<lambda>params i. i :: fake_tunnel) generator_next list_poll)
       (construct_tunnels (generator_new 0) ([] :: unit list)) of
       Some (res, out) \<Rightarrow>
         res = [] \<and> constructed_is_terminated out \<and> out = constructed_tunnel_stream.Ended
     | None \<Rightarrow> False)"

definition fused_tunnel_id_try_stream :: bool where
  "fused_tunnel_id_try_stream =
    (case try_collect 10 (try_constructed_poll_next (\<lambda>params i. i :: fake_tunnel) generator_next list_poll)
       (try_construct_tunnels (generator_new 0) ([] :: (unit, unit) result list)) of
       Some (res, out) \<Rightarrow>
         res = [] \<and> try_constructed_is_terminated out \<and>
         (\<exists>failed \<in> {True, False}. out = constructed_tunnel_try_stream.Ended failed)
     | None \<Rightarrow> False)"

definition SAMPLE_COUNT :: nat where
  "SAMPLE_COUNT = 3"

definition tunnel_id_stream_incrementing :: bool where
  "tunnel_id_stream_incrementing =
    (case collect 10 (constructed_poll_next (\<lambda>params i. i :: fake_tunnel) generator_next list_poll)
       (construct_tunnels (generator_new 0) (replicate SAMPLE_COUNT ())) of
       Some (res, out) \<Rightarrow> res = map of_nat [0..<SAMPLE_COUNT] \<and> constructed_is_terminated out
     | None \<Rightarrow> False)"

definition tunnel_id_try_stream_incrementing :: bool where
  "tunnel_id_try_stream_incrementing =
    (case try_collect 10 (try_constructed_poll_next (\<lambda>params i. i :: fake_tunnel) generator_next list_poll)
       (try_construct_tunnels (generator_new 0) (replicate SAMPLE_COUNT (Ok () :: (unit, unit) result))) of
       Some (res, out) \<Rightarrow> res = map of_nat [0..<SAMPLE_COUNT] \<and> try_constructed_is_terminated out
     | None \<Rightarrow> False)"

lemma id_tests_pass:
  "fused_tunnel_id_stream" "fused_tunnel_id_try_stream" "tunnel_id_stream_incrementing" "tunnel_id_try_stream_incrementing"
  by (simp_all add: fused_tunnel_id_stream_def fused_tunnel_id_try_stream_def tunnel_id_stream_incrementing_def
      tunnel_id_try_stream_incrementing_def try_collect_def constructed_poll_next_def try_constructed_poll_next_def
      construct_tunnels_def try_construct_tunnels_def generator_new_def generator_next_def SAMPLE_COUNT_def
      numeral_eq_Suc)

section \<open>Fused streams\<close>

definition try_fused_stream_terminate_after_error :: bool where
  "try_fused_stream_terminate_after_error \<longleftrightarrow>
    (let fused = try_fuse_new [Ok 0, Ok 1, Err (), Ok 2, Ok (3 :: int)];
         (res, fused) = poll_nexts (try_fuse_poll_next list_poll) 2 fused;
         (third, fused) = try_fuse_poll_next list_poll fused;
         terminated = try_fuse_is_terminated fused;
         (next_after_error, fused) = try_fuse_poll_next list_poll fused
     in items res = [Ok 0, Ok 1] \<and> third = Ready (Some (Err ())) \<and> terminated \<and>
        next_after_error = Ready None \<and> fused = try_fuse_stream.Ended True)"

definition try_fused_stream_terminate_after_end :: bool where
  "try_fused_stream_terminate_after_end =
    (case try_collect 10 (try_fuse_poll_next list_poll) (try_fuse_new [Ok 0 :: (unit, int) result, Ok 1, Ok 2]) of
       Some (res, fused) \<Rightarrow> res = [0, 1, 2] \<and> try_fuse_is_terminated fused \<and> fused = try_fuse_stream.Ended False
     | None \<Rightarrow> False)"

lemma try_fuse_tests_pass: "try_fused_stream_terminate_after_error" "try_fused_stream_terminate_after_end"
  by (simp_all add: try_fused_stream_terminate_after_error_def try_fused_stream_terminate_after_end_def try_collect_def
      try_fuse_new_def try_fuse_poll_next_def numeral_eq_Suc)

section \<open>Futures\<close>

text \<open>\<open>now_or_never\<close> polls once. A pending future has no state.\<close>

definition now_or_never :: "('s, 'o) poll_fn \<Rightarrow> 's \<Rightarrow> 'o option" where
  "now_or_never p s = (case p s of (Ready v, s') \<Rightarrow> Some v | (Pending, s') \<Rightarrow> None)"

definition ready_poll :: "('o, 'o) poll_fn" where
  "ready_poll v = (Ready v, v)"

definition pending_poll :: "(unit, 'o) poll_fn" where
  "pending_poll s = (Pending, s)"

definition try_poll_until_or_else_failover_test :: bool where
  "try_poll_until_or_else_failover_test \<longleftrightarrow>
    now_or_never (try_poll_until_or_else_poll ready_poll (pending_poll :: (unit, unit) poll_fn))
      (try_poll_until_or_else_ext (Ok () :: (unit, unit) result) () (\<lambda>_. Err ())) = Some (Ok ()) \<and>
    now_or_never (try_poll_until_or_else_poll pending_poll ready_poll)
      (try_poll_until_or_else_ext () () (\<lambda>_. Ok () :: (unit, unit) result)) = Some (Ok ()) \<and>
    now_or_never (try_poll_until_or_else_poll pending_poll ready_poll)
      (try_poll_until_or_else_ext () () (\<lambda>_. Err () :: (unit, unit) result)) = Some (Err ())"

lemma future_tests_pass: "try_poll_until_or_else_failover_test"
  by (simp add: try_poll_until_or_else_failover_test_def now_or_never_def ready_poll_def pending_poll_def
      try_poll_until_or_else_poll_def try_poll_until_or_else_ext_def poll_until_ext_def poll_until_poll_def)

section \<open>Drop notifications\<close>

text \<open>A flag is kicked by setting it.\<close>

definition set_flag :: "'a \<Rightarrow> bool \<Rightarrow> bool" where
  "set_flag target m = True"

definition dropkick_notifies :: bool where
  "dropkick_notifies = dropkick_drop set_flag (dropkick_new ()) False"

definition dropkick_consumable :: bool where
  "dropkick_consumable \<longleftrightarrow> \<not> dropkick_counter set_flag (dropkick_new ()) False"

definition dropkick_callback_notifies :: bool where
  "dropkick_callback_notifies = dropkick_drop (\<lambda>f. kick_fn f) (dropkick_new (\<lambda>m. ((), True))) False"

definition dropkick_callback_consumable :: bool where
  "dropkick_callback_consumable \<longleftrightarrow> \<not> dropkick_counter (\<lambda>f. kick_fn f) (dropkick_new (\<lambda>m. ((), True))) False"

text \<open>The shared target with one handle and \<open>held\<close> further references.\<close>

definition shared_target :: "nat \<Rightarrow> unit shared" where
  "shared_target held = cell (shared_start () 1 held)"

definition dropkick_exclusive_arc_try_unwrap_optimization :: bool where
  "dropkick_exclusive_arc_try_unwrap_optimization =
    (case kick_shared set_flag (shared_target 0) False of (c, panicked, m) \<Rightarrow> m \<and> pending_tasks c = 0)"

definition dropkick_exclusive_mutex_try_lock_optimization :: bool where
  "dropkick_exclusive_mutex_try_lock_optimization =
    (case kick_shared set_flag (shared_target 1) False of (c, panicked, m) \<Rightarrow> m \<and> pending_tasks c = 0)"

definition dropkick_mutex_background_task_test :: bool where
  "dropkick_mutex_background_task_test =
    (case kick_shared set_flag ((shared_target 1)\<lparr>locked := True\<rparr>) False of (c, panicked, m) \<Rightarrow>
       \<not> m \<and> \<not> panicked \<and> 0 < pending_tasks c \<and>
       snd (dropkick_mutex_background_task set_flag (c\<lparr>locked := False\<rparr>) m))"

definition dropkick_counter_take_mutex :: bool where
  "dropkick_counter_take_mutex =
    (case counter_take_mutex (shared_target 0) of (x, c) \<Rightarrow>
       case kick_shared set_flag c False of (c', panicked, m) \<Rightarrow> \<not> m)"

lemma dropkick_tests_pass:
  "dropkick_notifies" "dropkick_consumable" "dropkick_callback_notifies" "dropkick_callback_consumable"
  "dropkick_exclusive_arc_try_unwrap_optimization" "dropkick_exclusive_mutex_try_lock_optimization"
  "dropkick_mutex_background_task_test" "dropkick_counter_take_mutex"
  by (simp_all add: dropkick_notifies_def dropkick_consumable_def dropkick_callback_notifies_def
      dropkick_callback_consumable_def dropkick_exclusive_arc_try_unwrap_optimization_def
      dropkick_exclusive_mutex_try_lock_optimization_def dropkick_mutex_background_task_test_def
      dropkick_counter_take_mutex_def dropkick_laws set_flag_def kick_fn_def shared_target_def shared_start_def
      kick_shared_def dropkick_mutex_background_task_def counter_take_mutex_def kick_mutex_def)

section \<open>Sets of streams\<close>

text \<open>The set over \<open>ordered_streams\<close>, which polls its streams in the order they were attached.\<close>

definition stream_set :: "(nat list \<times> (nat \<rightharpoonup> (nat, 'i list) named_boxed_stream)) dynamic_stream_set" where
  "stream_set = stream_set_new (ordered_streams :: (_, nat, (nat, 'i list) named_boxed_stream, 'i) stream_map)"

definition attached ::
  "nat \<Rightarrow> 'i list \<Rightarrow> (nat list \<times> (nat \<rightharpoonup> (nat, 'i list) named_boxed_stream)) dynamic_stream_set \<Rightarrow>
   (nat, 'i list) named_boxed_stream option \<times> (nat list \<times> (nat \<rightharpoonup> (nat, 'i list) named_boxed_stream)) dynamic_stream_set" where
  "attached i xs d =
    the (attach_stream (ordered_streams :: (_, nat, (nat, 'i list) named_boxed_stream, 'i) stream_map) False i xs d)"

definition detached ::
  "nat \<Rightarrow> (nat list \<times> (nat \<rightharpoonup> (nat, 'i list) named_boxed_stream)) dynamic_stream_set \<Rightarrow>
   (nat, 'i list) named_boxed_stream option \<times> (nat list \<times> (nat \<rightharpoonup> (nat, 'i list) named_boxed_stream)) dynamic_stream_set" where
  "detached i d = the (detach (ordered_streams :: (_, nat, (nat, 'i list) named_boxed_stream, 'i) stream_map) False i d)"

definition set_poll ::
  "((nat list \<times> (nat \<rightharpoonup> (nat, 'i list) named_boxed_stream)) dynamic_stream_set, nat \<times> 'i) poll_next_fn" where
  "set_poll d = (case the (stream_set_poll_next ordered_streams list_poll Unlocked d) of (r, woken, d') \<Rightarrow> (r, d'))"

definition has_item :: "(nat, 'i list) named_boxed_stream option \<Rightarrow> nat \<Rightarrow> 'i \<Rightarrow> bool" where
  "has_item st i x = (case st of Some st \<Rightarrow> stream_id st = i \<and> fst (list_poll (boxed st)) = Ready (Some x) | None \<Rightarrow> False)"

definition add_and_remove :: bool where
  "add_and_remove \<longleftrightarrow>
    (let (r1, set) = attached 1 ''a'' stream_set;
         (r2, set) = attached 2 ''b'' set;
         (replaced_b, set) = attached 2 ''c'' set;
         (detached_a, set) = detached 1 set;
         (detached_c, set) = detached 2 set
     in r1 = None \<and> r2 = None \<and> has_item detached_a 1 (CHR ''a'') \<and> has_item replaced_b 2 (CHR ''b'') \<and>
        has_item detached_c 2 (CHR ''c''))"

definition poll_contents :: bool where
  "poll_contents \<longleftrightarrow>
    (let (r1, set1) = attached 1 ''a'' stream_set;
         (r2, set2) = attached 2 ''b'' set1;
         (replaced, set3) = attached 2 ''c'' set2
     in r1 = None \<and> r2 = None \<and> replaced \<noteq> None \<and>
        (case collect 10 set_poll set3 of
           Some (results, d) \<Rightarrow> set results = {(1, CHR ''a''), (2, CHR ''c'')}
         | None \<Rightarrow> False))"

definition end_of_stream_removal :: bool where
  "end_of_stream_removal \<longleftrightarrow>
    (let (r, d) = attached 1 [1, 2, 3 :: int] stream_set
     in r = None \<and>
        (case collect 10 set_poll d of
           Some (collected, d') \<Rightarrow> collected = [(1, 1), (1, 2), (1, 3)] \<and> fst (detached 1 d') = None
         | None \<Rightarrow> False))"

lemmas stream_set_test_defs = stream_set_def attached_def detached_def set_poll_def has_item_def stream_set_new_def
  attach_stream_def attach_def detach_def new_pre_boxed_def stream_set_poll_next_def ordered_streams_def named_poll_next_def

lemma tunnel_source_tests_pass: "add_and_remove" "poll_contents" "end_of_stream_removal"
  by (simp_all add: add_and_remove_def poll_contents_def end_of_stream_removal_def stream_set_test_defs
      numeral_eq_Suc insert_commute)

section \<open>Duplex tunnels\<close>

text \<open>Dropping a tunnel drops its sender; its downlink was taken before and lives on.\<close>

definition duplex_drop ::
  "tunnel_side \<Rightarrow> (duplex_end list \<times> bool \<times> bool) entangled \<Rightarrow> (duplex_end list \<times> bool \<times> bool) entangled" where
  "duplex_drop side e =
    (let d = end_of side e in
     set_end side (d\<lparr>channel_to_remote := (case channel_to_remote d of (q, tx_alive, rx_alive) \<Rightarrow> (q, False, rx_alive))\<rparr>) e)"

definition duplex_tunnel_test :: bool where
  "duplex_tunnel_test \<longleftrightarrow>
    (let e = duplex_channel list_mpsc;
         (a_link, e) = duplex_open_link list_mpsc Listen e;
         e = duplex_drop Listen e
     in is_ok a_link \<and>
        (case collect 10 (duplex_poll_incoming list_mpsc Connect) e of
           None \<Rightarrow> False
         | Some (of_b, e) \<Rightarrow>
             (let (b_link, e) = duplex_open_link list_mpsc Connect e;
                  e = duplex_drop Connect e
              in length of_b = 1 \<and> is_ok b_link \<and>
                 (case collect 10 (duplex_poll_incoming list_mpsc Listen) e of
                    None \<Rightarrow> False
                  | Some (of_a, e) \<Rightarrow> length of_a = 1))))"

lemma duplex_tests_pass: "duplex_tunnel_test"
  by (simp add: duplex_tunnel_test_def duplex_channel_def duplex_for_def duplex_open_link_def duplex_drop_def
      duplex_poll_incoming_def list_mpsc_def numeral_eq_Suc)

section \<open>Counted tasks\<close>

definition COUNT :: nat where
  "COUNT = 100"

definition no_tasks :: counter_world where
  "no_tasks = \<lparr>strong_count = BASELINE_COUNT, watch = 0\<rparr>"

fun count_up :: "nat \<Rightarrow> nat \<Rightarrow> counter_world \<Rightarrow> bool \<times> bound_counter_tracker list \<times> counter_world" where
  "count_up 0 i w = (True, [], w)"
| "count_up (Suc n) i w =
    (let (t, w') = tracker_new_preregistered w; (passed, ts, w'') = count_up n (i + 1) w'
     in (watch w' = i + 1 \<and> passed, t # ts, w''))"

text \<open>A changed value is a notification, so the count-down asks for a change at every drop.\<close>

fun count_down :: "bound_counter_tracker list \<Rightarrow> counter_world \<Rightarrow> bool \<times> counter_world" where
  "count_down [] w = (True, w)"
| "count_down (t # ts) w =
    (let w' = tracker_drop t w; (passed, w'') = count_down ts w' in (watch w' \<noteq> watch w \<and> passed, w''))"

definition bound_counter_tracking_preregistered :: bool where
  "bound_counter_tracking_preregistered \<longleftrightarrow>
    (let (up, trackers, w) = count_up COUNT 0 no_tasks; (down, w) = count_down trackers w
     in up \<and> down \<and> length trackers = COUNT \<and> watch w = 0)"

text \<open>
  A tracked future that waits for a barrier, with the effect of a poll on the counter: the first
  poll registers the tracker, and the one that completes the future drops it.
\<close>

type_synonym barrier_task = "(bool, bound_counter_tracker, bound_counter_tracker) tracked"

definition barrier_poll :: "(bool, unit) poll_fn" where
  "barrier_poll notified_waiter = (if notified_waiter then Ready () else Pending, notified_waiter)"

definition task_poll :: "barrier_task \<Rightarrow> counter_world \<Rightarrow> unit poll \<times> barrier_task \<times> counter_world" where
  "task_poll s w =
    (case the (tracked_poll (\<lambda>t. t) (\<lambda>t. (Ready (fst (register_sync t w)), t)) barrier_poll s) of (r, s') \<Rightarrow>
       let w = (case tracker s of Some t \<Rightarrow> snd (register_sync t w) | None \<Rightarrow> w)
       in (r, s', case tracker s' of None \<Rightarrow> tracker_drop bound_counter_tracker.Registered w | Some t \<Rightarrow> w))"

definition task_drop :: "barrier_task \<Rightarrow> counter_world \<Rightarrow> counter_world" where
  "task_drop s w = (case tracker s of Some t \<Rightarrow> tracker_drop t w | None \<Rightarrow> w)"

fun polls_all :: "barrier_task list \<Rightarrow> counter_world \<Rightarrow> unit poll list \<times> barrier_task list \<times> counter_world" where
  "polls_all [] w = ([], [], w)"
| "polls_all (s # ss) w =
    (let (r, s', w) = task_poll s w; (rs, ss', w) = polls_all ss w in (r # rs, s' # ss', w))"

definition lazy_pool :: "barrier_task list" where
  "lazy_pool = replicate COUNT (track False bound_counter_tracker.Unregistered)"

fun drops_notify :: "barrier_task list \<Rightarrow> counter_world \<Rightarrow> bool \<times> counter_world" where
  "drops_notify [] w = (True, w)"
| "drops_notify (s # ss) w =
    (let w' = task_drop s w; (passed, w'') = drops_notify ss w' in (watch w' \<noteq> watch w \<and> passed, w''))"

definition bound_counter_tracking_lazy_in_progress_drop :: bool where
  "bound_counter_tracking_lazy_in_progress_drop \<longleftrightarrow>
    (let (results, pool, w) = polls_all lazy_pool no_tasks;
         (down, w') = drops_notify pool w
     in watch no_tasks = 0 \<and> list_all (\<lambda>r. r = Pending) results \<and> watch w \<noteq> 0 \<and> down \<and> watch w' = 0)"

fun completions_notify :: "barrier_task list \<Rightarrow> counter_world \<Rightarrow> bool \<times> counter_world" where
  "completions_notify [] w = (True, w)"
| "completions_notify (s # ss) w =
    (let (r, s', w') = task_poll s w; (passed, w'') = completions_notify ss w'
     in (r = Ready () \<and> watch w' \<noteq> watch w \<and> passed, w''))"

definition bound_counter_tracking_lazy :: bool where
  "bound_counter_tracking_lazy \<longleftrightarrow>
    (let (results, pool, w) = polls_all lazy_pool no_tasks;
         notified_pool = map (\<lambda>s. s\<lparr>fut := Some True\<rparr>) pool;
         (down, w') = completions_notify notified_pool w
     in watch no_tasks = 0 \<and> list_all (\<lambda>r. r = Pending) results \<and> watch w \<noteq> 0 \<and> down \<and> watch w' = 0)"

text \<open>
  The monitored loop: waiting items are taken in order while the limit allows, and a running item
  ends when its phase is notified.
\<close>

fun fill :: "nat option \<Rightarrow> nat list \<Rightarrow> (nat \<times> bound_counter_tracker) list \<Rightarrow> counter_world \<Rightarrow>
  nat list \<times> (nat \<times> bound_counter_tracker) list \<times> counter_world" where
  "fill limit [] running w = ([], running, w)"
| "fill limit (i # waiting) running w =
    (if below_limit limit (length running)
     then (case tracker_new_preregistered w of (t, w') \<Rightarrow> fill limit waiting (running @ [(i, t)]) w')
     else (i # waiting, running, w))"

definition finish_phase :: "nat \<Rightarrow> (nat \<times> bound_counter_tracker) list \<Rightarrow> counter_world \<Rightarrow>
  (nat \<times> bound_counter_tracker) list \<times> counter_world" where
  "finish_phase phase running w =
    (filter (\<lambda>(i, t). phase < i) running, fold tracker_drop (map snd (filter (\<lambda>(i, t). i \<le> phase) running)) w)"

definition CONCURRENCY_LIMIT :: nat where
  "CONCURRENCY_LIMIT = 8"

definition concurrent_monitoring :: bool where
  "concurrent_monitoring \<longleftrightarrow>
    (let waiting0 = replicate 5 2 @ replicate 5 3;
         (waiting1, running1, w1) = fill (Some CONCURRENCY_LIMIT) waiting0 [] no_tasks;
         (left2, v2) = finish_phase 2 running1 w1;
         (waiting2, running2, w2) = fill (Some CONCURRENCY_LIMIT) waiting1 left2 v2;
         (left3, w3) = finish_phase 3 running2 w2
     in watch no_tasks = 0 \<and> watch w1 = CONCURRENCY_LIMIT \<and> watch w2 = 5 \<and> waiting2 = [] \<and> watch w3 = 0)"

text \<open>
  With \<open>n\<close> registered trackers alive, each pass over the trackers or the futures moves the counter by
  one per element; the tests are these passes at their count.
\<close>

definition counted :: "nat \<Rightarrow> counter_world" where
  "counted n = \<lparr>strong_count = n + BASELINE_COUNT, watch = n\<rparr>"

definition started_task :: "bool \<Rightarrow> barrier_task" where
  "started_task notified_waiter =
    \<lparr>fut = Some notified_waiter, tracker = Some bound_counter_tracker.Registered,
     registration = Some None, tracking = Running\<rparr>"

lemma no_tasks_counted: "no_tasks = counted 0"
  by (simp add: no_tasks_def counted_def)

lemma counted_watch [simp]: "watch (counted n) = n"
  by (simp add: counted_def)

lemmas counter_defs = register_sync_def tracker_new_preregistered_def tracker_drop_def
  bound_counter_new_def bound_counter_dropkick_def update_current_count_def BASELINE_COUNT_def
  counted_def

lemma counted_new [simp]:
  "tracker_new_preregistered (counted n) = (bound_counter_tracker.Registered, counted (Suc n))"
  by (simp add: counter_defs)

lemma counted_drop [simp]: "tracker_drop bound_counter_tracker.Registered (counted (Suc n)) = counted n"
  by (simp add: counter_defs)

lemma first_poll:
  "task_poll (track False bound_counter_tracker.Unregistered) (counted n)
   = (Pending, started_task False, counted (Suc n))"
  by (simp add: task_poll_def track_def tracked_new_def started_task_def barrier_poll_def
      tracked_poll.simps counter_defs)

lemma completing_poll:
  "\<exists>s'. task_poll (started_task True) (counted (Suc n)) = (Ready (), s', counted n)"
  by (simp add: task_poll_def started_task_def barrier_poll_def tracked_poll.simps counter_defs)

lemma count_up_counted:
  "count_up k n (counted n) = (True, replicate k bound_counter_tracker.Registered, counted (n + k))"
  by (induction k arbitrary: n) simp_all

lemma count_down_counted:
  "count_down (replicate k bound_counter_tracker.Registered) (counted k) = (True, counted 0)"
  by (induction k) simp_all

lemma polls_all_counted:
  "polls_all (replicate k (track False bound_counter_tracker.Unregistered)) (counted n)
   = (replicate k Pending, replicate k (started_task False), counted (n + k))"
  by (induction k arbitrary: n) (simp_all add: first_poll)

lemma drops_notify_counted:
  "drops_notify (replicate k (started_task False)) (counted k) = (True, counted 0)"
  by (induction k) (simp_all add: task_drop_def started_task_def)

lemma completions_notify_counted:
  "completions_notify (replicate k (started_task True)) (counted k) = (True, counted 0)"
proof (induction k)
  case (Suc k)
  obtain s' where "task_poll (started_task True) (counted (Suc k)) = (Ready (), s', counted k)"
    using completing_poll by blast
  with Suc show ?case by simp
qed simp

lemma notified_started [simp]: "started_task False\<lparr>fut := Some True\<rparr> = started_task True"
  by (simp add: started_task_def)

lemmas counter_passes = count_up_counted [of _ 0, simplified] count_down_counted
  polls_all_counted [of _ 0, simplified] drops_notify_counted completions_notify_counted

lemma counter_tests_pass:
  "bound_counter_tracking_preregistered" "bound_counter_tracking_lazy_in_progress_drop"
  "bound_counter_tracking_lazy"
  by (simp_all add: bound_counter_tracking_preregistered_def bound_counter_tracking_lazy_def
      bound_counter_tracking_lazy_in_progress_drop_def lazy_pool_def no_tasks_counted counter_passes
      list_all_iff COUNT_def)

lemma monitoring_test_passes: "concurrent_monitoring"
  by code_simp

end
