(* ===== verification/Tests_Redis.thy ===== *)
theory Tests_Redis
  imports Redis_Registry
begin

text \<open>
  The integration tests of the Redis registry (\<open>integration_tests\<close> of
  \<open>common/protocol/tunnel/registry/redis.rs\<close>), run on the model. The server is
  \<open>answering_server\<close> with any content, the renewal tasks run while a test sleeps, and a task is
  cancelled when its token is. The entry's JSON and the generated ids are arguments.
\<close>

section \<open>Test registries\<close>

definition from_millis :: "nat \<Rightarrow> duration" where
  "from_millis ms = ms * 1000000"

definition as_millis :: "duration \<Rightarrow> nat" where
  "as_millis d = d div 1000000"

definition create_test_registry :: "('k, 't) token_ops \<Rightarrow> 't \<Rightarrow> 'k redis_registry \<times> 't" where
  "create_test_registry T t =
    redis_registry_new T
      (config_default\<lparr>renewal_rate := from_millis 500, tunnel_entry_lifetime := from_secs 1,
         tunnel_id_ref_lifetime := from_secs 2\<rparr>) t"

text \<open>Tests lower the smallest pause between renewals.\<close>

definition test_renewal_rate :: "redis_registry_config \<Rightarrow> duration" where
  "test_renewal_rate cfg = max (renewal_rate cfg) (from_millis 10)"

definition round_at :: "('k, 't) token_ops \<Rightarrow> 't \<Rightarrow> 'k renewal \<Rightarrow> nat \<Rightarrow> nat renewal_env" where
  "round_at T t task now =
    \<lparr>cancelled_before = listener_is_cancelled T (renewal_canceller task) t,
     cancelled_after = listener_is_cancelled T (renewal_canceller task) t, commands = (\<lambda>_. now)\<rparr>"

text \<open>
  What the renewal tasks of a registry do to the server in a pause of \<open>d\<close> that starts at time 0
  and in which no token is cancelled.
\<close>

definition rounds_within :: "('k, 't) token_ops \<Rightarrow> 't \<Rightarrow> duration \<Rightarrow> 'k renewal \<Rightarrow> nat renewal_env list" where
  "rounds_within T t d task =
    (let rate = test_renewal_rate (renewal_config task)
     in map (\<lambda>i. round_at T t task (Suc i * as_millis rate)) [0..<d div rate])"

definition sleep ::
  "('k, 't) token_ops \<Rightarrow> (nat, 'q) redis_client \<Rightarrow> duration \<Rightarrow> 'k redis_registry \<times> 't \<times> 'q \<Rightarrow> 'k redis_registry \<times> 't \<times> 'q" where
  "sleep T C d w =
    (case w of (reg, t, q) \<Rightarrow>
      (reg, t, fold (\<lambda>task q. snd (run_renewal C task (rounds_within T t d task) q)) (renewals reg) q))"

definition drop_registry :: "('k, 't) token_ops \<Rightarrow> 'k redis_registry \<Rightarrow> 't \<Rightarrow> 't" where
  "drop_registry T reg t = dropkick_drop (kick_token T) (dropkick_new (core_canceller reg)) t"

text \<open>Registering the entry with a new registry, as every test begins.\<close>

type_synonym 'j test_start =
  "('j redis_registry_error, token_path redis_identifier) result \<times>
   token_path redis_registry \<times> token_forest \<times> redis_entries"

definition registered_foo ::
  "('r \<Rightarrow> ('j, byte list) result) \<Rightarrow> (nat \<Rightarrow> rstr) \<Rightarrow> tunnel_name \<Rightarrow> 'r \<Rightarrow> redis_entries \<Rightarrow> 'j test_start" where
  "registered_foo to_vec uuid foo_name foo q =
    (case create_test_registry forest_ops (0, []) of (reg, t) \<Rightarrow>
      redis_register forest_ops answering_server to_vec uuid (\<lambda>_. 0) foo_name foo (reg, t, q))"

definition deregister_at ::
  "(byte list \<Rightarrow> ('j, 'r option) result) \<Rightarrow> nat \<Rightarrow> token_path redis_identifier \<Rightarrow>
   token_path redis_registry \<times> token_forest \<times> redis_entries \<Rightarrow>
   ('j redis_registry_error, 'r option) result \<times> token_path redis_registry \<times> token_forest \<times> redis_entries" where
  "deregister_at from_slice now =
    redis_deregister_identifier forest_ops answering_server from_slice (\<lambda>_. False) (\<lambda>_. now)"

definition lookup_at ::
  "(byte list \<Rightarrow> ('j, 'r option) result) \<Rightarrow> nat \<Rightarrow> tunnel_name \<Rightarrow> redis_entries \<Rightarrow> ('j redis_registry_error, 'r option) result" where
  "lookup_at from_slice now foo_name q = fst (redis_lookup answering_server from_slice (\<lambda>_. now) foo_name q)"

section \<open>The tests\<close>

definition store_and_destroy where
  "store_and_destroy to_vec from_slice uuid foo_name foo q \<longleftrightarrow>
    (case registered_foo to_vec uuid foo_name foo q of
       (Inl e, w) \<Rightarrow> False
     | (Inr ident, w) \<Rightarrow> fst (deregister_at from_slice 0 ident w) = Ok (Some foo))"

definition expiration_refreshes where
  "expiration_refreshes to_vec from_slice uuid foo_name foo q \<longleftrightarrow>
    (case registered_foo to_vec uuid foo_name foo q of
       (Inl e, w) \<Rightarrow> False
     | (Inr ident, w) \<Rightarrow>
         fst (deregister_at from_slice 5000 ident (sleep forest_ops answering_server (from_secs 5) w)) = Ok (Some foo))"

definition renewal_test where
  "renewal_test to_vec from_slice uuid foo_name foo q \<longleftrightarrow>
    (case registered_foo to_vec uuid foo_name foo q of
       (Inl e, w) \<Rightarrow> False
     | (Inr ident, reg, t, q) \<Rightarrow>
         (let rid_key = tunnel_rid_key (ident_rid ident);
              (deleted, q') = rd_del answering_server rid_key 0 q
          in is_ok deleted \<and> live q 0 rid_key \<noteq> None \<and>
             fst (deregister_at from_slice 5000 ident (sleep forest_ops answering_server (from_secs 5) (reg, t, q')))
             = Ok (Some foo)))"

definition cross_registry_lookup where
  "cross_registry_lookup to_vec from_slice uuid foo_name foo q \<longleftrightarrow>
    (case registered_foo to_vec uuid foo_name foo q of
       (Inl e, w) \<Rightarrow> False
     | (Inr ident, reg_a, t, q) \<Rightarrow>
         (case deregister_at from_slice 0 ident (reg_a, t, q) of (removed, _, _, q') \<Rightarrow>
            lookup_at from_slice 0 foo_name q = Ok (Some foo) \<and> (\<exists>r. removed = Ok (Some r)) \<and>
            lookup_at from_slice 0 foo_name q' = Ok None))"

definition registry_core_expiration where
  "registry_core_expiration to_vec from_slice uuid foo_name foo q \<longleftrightarrow>
    (case registered_foo to_vec uuid foo_name foo q of
       (Inl e, w) \<Rightarrow> False
     | (Inr ident, reg_a, t, q) \<Rightarrow>
         (case sleep forest_ops answering_server (2 * tunnel_entry_lifetime (config reg_a))
             (reg_a, drop_registry forest_ops reg_a t, q) of (_, _, q') \<Rightarrow>
            lookup_at from_slice 2000 foo_name q' = Ok None))"

definition registry_ident_expiration where
  "registry_ident_expiration to_vec from_slice uuid foo_name foo q \<longleftrightarrow>
    (case registered_foo to_vec uuid foo_name foo q of
       (Inl e, w) \<Rightarrow> False
     | (Inr ident, reg_a, t, q) \<Rightarrow>
         (case sleep forest_ops answering_server (2 * tunnel_entry_lifetime (config reg_a))
             (reg_a, drop_identifier forest_ops (\<lambda>_. False) ident t, q) of (_, _, q') \<Rightarrow>
            lookup_at from_slice 2000 foo_name q' = Ok None))"

section \<open>They pass\<close>

definition foo_task :: "rstr \<Rightarrow> tunnel_name \<Rightarrow> byte list \<Rightarrow> token_path renewal" where
  "foo_task rid foo_name encoded =
    \<lparr>renewal_canceller = listener_of [0, 1], renewal_name = foo_name, renewal_rid = rid,
     renewal_entry = encoded, renewal_config =
       \<lparr>tunnel_id_ref_lifetime = from_secs 2, tunnel_entry_lifetime = from_secs 1, renewal_rate = from_millis 500\<rparr>\<rparr>"

definition foo_registry :: "rstr \<Rightarrow> tunnel_name \<Rightarrow> byte list \<Rightarrow> token_path redis_registry" where
  "foo_registry rid foo_name encoded =
    \<lparr>config = renewal_config (foo_task rid foo_name encoded), active_registration_map = [rid \<mapsto> [0, 1]],
     core_canceller = [0], renewals = [foo_task rid foo_name encoded]\<rparr>"

lemma registered_foo_eq:
  assumes "to_vec foo = Ok encoded" "q (tunnel_rid_key (uuid 0)) = None"
  shows "registered_foo to_vec uuid foo_name foo q =
    (Ok \<lparr>ident_name = foo_name, ident_rid = uuid 0, ident_registration = Some [0, 1]\<rparr>,
     foo_registry (uuid 0) foo_name encoded, (Suc (Suc 0), []),
     q(tunnel_rid_key (uuid 0) \<mapsto> (encoded, 1000), tunnel_key_for foo_name \<mapsto> (into_bytes (uuid 0), 2000)))"
  using assms
  by (simp add: registered_foo_def create_test_registry_def redis_registry_new_def redis_register_def
      allocate_rid.simps MAX_ITERATIONS_def server_simps register_for_renewals_def foo_registry_def
      foo_task_def)

lemma foo_rounds:
  "rounds_within forest_ops t (from_secs 5) (foo_task rid foo_name encoded) =
    map (\<lambda>i. round_at forest_ops t (foo_task rid foo_name encoded) (Suc i * 500)) [0..<10]"
  by (simp add: rounds_within_def test_renewal_rate_def foo_task_def from_millis_def from_secs_def as_millis_def)

lemma foo_lifetimes [simp]:
  "secs_i64 (tunnel_id_ref_lifetime (renewal_config (foo_task rid foo_name encoded))) = 2"
  "secs_i64 (tunnel_entry_lifetime (renewal_config (foo_task rid foo_name encoded))) = 1"
  by (simp_all add: foo_task_def secs_i64_def as_secs_def from_secs_def)

lemma foo_names [simp]:
  "renewal_name (foo_task rid foo_name encoded) = foo_name"
  "renewal_rid (foo_task rid foo_name encoded) = rid"
  "renewal_entry (foo_task rid foo_name encoded) = encoded"
  "renewals (foo_registry rid foo_name encoded) = [foo_task rid foo_name encoded]"
  "core_canceller (foo_registry rid foo_name encoded) = [0]"
  "config (foo_registry rid foo_name encoded) = renewal_config (foo_task rid foo_name encoded)"
  by (simp_all add: foo_task_def foo_registry_def)

lemma foo_round:
  "undisturbed answering_server (\<lambda>now. now) (round_at forest_ops (n, []) (foo_task rid foo_name encoded) now)"
  "commands (round_at forest_ops t task now) i = now"
  by (auto simp: undisturbed_def round_at_def answered_def answering_server_def listener_is_cancelled_def
      foo_task_def listener_of_def split: option.splits)

text \<open>Five seconds of renewals, ten rounds, keep the entry for another second, or bring it back.\<close>

lemma foo_kept:
  assumes "q (tunnel_key_for foo_name) = Some (raw, 2000)"
    and "q (tunnel_rid_key rid) \<in> {None} \<union> {Some (encoded, d) |d. True}"
  shows "\<exists>q' d. sleep forest_ops answering_server (from_secs 5) (foo_registry rid foo_name encoded, (n, []), q) =
      (foo_registry rid foo_name encoded, (n, []), q') \<and>
    q' (tunnel_rid_key rid) = Some (encoded, d) \<and> 5000 < d"
proof -
  let ?task = "foo_task rid foo_name encoded"
  let ?es = "map (\<lambda>i. round_at forest_ops (n, []) ?task (Suc i * 500)) [0..<10]"
  have "successively (\<lambda>e e'. commands e' 0 < until (commands e 0) 2) ?es"
    by (simp add: successively_conv_nth foo_round(2) until_def)
  moreover have "commands (hd ?es) 0 = 500" "commands (last ?es) 1 = 5000"
    by (simp_all add: hd_map last_map foo_round(2))
  moreover have "\<forall>e \<in> set ?es. undisturbed answering_server (\<lambda>now. now) e"
    by (simp add: foo_round(1))
  ultimately obtain q' d where "run_renewal answering_server ?task ?es q = (False, q')"
      "q' (tunnel_rid_key rid) = Some (encoded, d)" "until 5000 1 \<le> d"
    using renewals_keep_entries [OF answering.redis_laws_axioms, of ?task ?es q raw] assms
    by (fastforce simp: live_def)
  then show ?thesis
    by (simp add: sleep_def foo_rounds until_def)
qed

text \<open>A cancelled task does nothing.\<close>

lemma cancelled_renewal: "\<forall>e \<in> set es. cancelled_before e \<Longrightarrow> snd (run_renewal C task es q) = q"
  by (cases es) simp_all

lemma foo_cancelled:
  assumes "is_cancelled forest_ops [0, 1] t"
  shows "sleep forest_ops answering_server d (foo_registry rid foo_name encoded, t, q) =
    (foo_registry rid foo_name encoded, t, q)"
proof -
  have "\<forall>e \<in> set (rounds_within forest_ops t d (foo_task rid foo_name encoded)). cancelled_before e"
    using assms
    by (auto simp: rounds_within_def Let_def round_at_def listener_is_cancelled_def foo_task_def listener_of_def)
  then show ?thesis by (simp add: sleep_def cancelled_renewal)
qed

lemma deregister_foo:
  assumes "q (tunnel_rid_key rid) = Some (encoded, d)" "now < d" "from_slice encoded = Ok (Some foo)"
  shows "\<exists>t'. deregister_at from_slice now
      \<lparr>ident_name = foo_name, ident_rid = rid, ident_registration = Some k\<rparr>
      (foo_registry rid foo_name encoded, t, q) =
    (Ok (Some foo), (foo_registry rid foo_name encoded)\<lparr>active_registration_map := Map.empty\<rparr>, t',
     q(tunnel_rid_key rid := None))"
  using assms
  by (simp add: deregister_at_def redis_deregister_identifier_def deregister_by_rid_def foo_registry_def
      getdel_or_get_del_def answering_server_def live_def)

lemma lookup_none:
  "live q now (tunnel_key_for foo_name) = None \<Longrightarrow> lookup_at from_slice now foo_name q = Ok None"
  by (simp add: lookup_at_def redis_lookup_def answering_server_def)

text \<open>
  The tests pass for every name and entry, on every server that does not have the generated id,
  when the entry's JSON is read back.
\<close>

lemma redis_kept_tests_pass:
  assumes "to_vec foo = Ok encoded" "from_slice encoded = Ok (Some foo)"
    and "valid_str (uuid 0)" "q (tunnel_rid_key (uuid 0)) = None"
  shows "store_and_destroy to_vec from_slice uuid foo_name foo q"
    "expiration_refreshes to_vec from_slice uuid foo_name foo q"
    "renewal_test to_vec from_slice uuid foo_name foo q"
proof -
  let ?q = "q(tunnel_rid_key (uuid 0) \<mapsto> (encoded, 1000), tunnel_key_for foo_name \<mapsto> (into_bytes (uuid 0), 2000))"
  note start = registered_foo_eq [of to_vec foo encoded q uuid foo_name, OF assms(1,4)]
  show "store_and_destroy to_vec from_slice uuid foo_name foo q"
    using deregister_foo [of ?q "uuid 0" encoded 1000 0 from_slice foo foo_name "[0, 1]" "(Suc (Suc 0), [])"] assms(2)
    by (auto simp: store_and_destroy_def start)
  obtain q1 d1 where "sleep forest_ops answering_server (from_secs 5)
        (foo_registry (uuid 0) foo_name encoded, (Suc (Suc 0), []), ?q) =
        (foo_registry (uuid 0) foo_name encoded, (Suc (Suc 0), []), q1)"
      "q1 (tunnel_rid_key (uuid 0)) = Some (encoded, d1)" "5000 < d1"
    using foo_kept [of ?q foo_name "into_bytes (uuid 0)" "uuid 0" encoded "Suc (Suc 0)"] by auto
  then show "expiration_refreshes to_vec from_slice uuid foo_name foo q"
    using deregister_foo [of q1 "uuid 0" encoded d1 5000 from_slice foo foo_name "[0, 1]" "(Suc (Suc 0), [])"] assms(2)
    by (auto simp: expiration_refreshes_def start)
  obtain q2 d2 where "sleep forest_ops answering_server (from_secs 5)
        (foo_registry (uuid 0) foo_name encoded, (Suc (Suc 0), []), ?q(tunnel_rid_key (uuid 0) := None)) =
        (foo_registry (uuid 0) foo_name encoded, (Suc (Suc 0), []), q2)"
      "q2 (tunnel_rid_key (uuid 0)) = Some (encoded, d2)" "5000 < d2"
    using foo_kept [of "?q(tunnel_rid_key (uuid 0) := None)" foo_name "into_bytes (uuid 0)" "uuid 0" encoded "Suc (Suc 0)"] by auto
  then show "renewal_test to_vec from_slice uuid foo_name foo q"
    using deregister_foo [of q2 "uuid 0" encoded d2 5000 from_slice foo foo_name "[0, 1]" "(Suc (Suc 0), [])"] assms(2)
    by (auto simp: renewal_test_def start answering_server_def live_def Let_def)
qed

lemma redis_gone_tests_pass:
  assumes "to_vec foo = Ok encoded" "from_slice encoded = Ok (Some foo)"
    and "valid_str (uuid 0)" "q (tunnel_rid_key (uuid 0)) = None"
  shows "cross_registry_lookup to_vec from_slice uuid foo_name foo q"
    "registry_core_expiration to_vec from_slice uuid foo_name foo q"
    "registry_ident_expiration to_vec from_slice uuid foo_name foo q"
proof -
  let ?q = "q(tunnel_rid_key (uuid 0) \<mapsto> (encoded, 1000), tunnel_key_for foo_name \<mapsto> (into_bytes (uuid 0), 2000))"
  note start = registered_foo_eq [of to_vec foo encoded q uuid foo_name, OF assms(1,4)]
  have "lookup_at from_slice 0 foo_name ?q = Ok (Some foo)"
    "lookup_at from_slice 0 foo_name (?q(tunnel_rid_key (uuid 0) := None)) = Ok None"
    using assms(2,3)
    by (simp_all add: lookup_at_def redis_lookup_def answering_server_def live_def from_utf8_into_bytes)
  moreover obtain t' where "deregister_at from_slice 0
        \<lparr>ident_name = foo_name, ident_rid = uuid 0, ident_registration = Some [0, 1]\<rparr>
        (foo_registry (uuid 0) foo_name encoded, (Suc (Suc 0), []), ?q) =
      (Ok (Some foo), (foo_registry (uuid 0) foo_name encoded)\<lparr>active_registration_map := Map.empty\<rparr>, t',
       ?q(tunnel_rid_key (uuid 0) := None))"
    using deregister_foo [of ?q "uuid 0" encoded 1000 0 from_slice foo foo_name "[0, 1]" "(Suc (Suc 0), [])"] assms(2)
    by auto
  ultimately show "cross_registry_lookup to_vec from_slice uuid foo_name foo q"
    unfolding cross_registry_lookup_def start by simp
  have "lookup_at from_slice 2000 foo_name ?q = Ok None"
    by (rule lookup_none) (simp add: live_def)
  then show "registry_core_expiration to_vec from_slice uuid foo_name foo q"
    "registry_ident_expiration to_vec from_slice uuid foo_name foo q"
    by (simp_all add: registry_core_expiration_def registry_ident_expiration_def start drop_registry_def
        drop_identifier_def kick_token_def dropkick_drop_def dropkick_new_def foo_cancelled)
qed

end
