(* ===== verification/Spec2Isabelle.thy ===== *)
theory Spec2Isabelle
  imports Prelude Rust_Strings Byte_IO Address Framed Services Negotiation Ports Futures Tunnel_Id Registry
    Ip_Text Streams Proxy_Tcp Dropkick Tunnels Quinn_Tunnel Authentication Peers Daemon Redis_Registry Routing Demand_Proxy
    Tunnel_Source Command_Line Tunnel_Activity Tunnel_Traits Wrapped_Tunnel Extensions Certificates Programs Options
    Concurrent_Loops Forwarding Peers_View Daemon_Events Quic_Logging Tests_Protocol Tests_Combinators Tests_Redis
begin

text \<open>
  A verification development of snocat, a streaming network overlay that carries TCP connections
  over QUIC tunnels. \<open>src/snocat\<close> is the library, \<open>src/snocat-cli\<close> the command-line
  program with a server and a client mode.

  \<^bold>\<open>The program.\<close> A tunnel source yields connections, which become tunnels with fresh ids. The
  daemon authenticates each tunnel, registers its name, lists it as a peer and then serves the
  streams the remote opens: each stream negotiates a route address, for which the service
  registry has a service. Routers go the other way: they open a stream on a tunnel, negotiate an
  address and run a protocol client. The server offers a demand proxy: a client asks for a
  public port, and connections accepted there are routed back through the client's tunnel to its
  TCP service.

  \<^bold>\<open>Conventions.\<close> A \<open>Result\<close> is a sum with \<open>Err\<close> on the left, a struct a record, an enum a
  datatype. Integers whose width matters are words. Futures and streams are poll functions on
  their state. Code that awaits bytes is an \<open>io\<close> tree, run alone by \<open>run_io\<close> or against a
  second party by \<open>net_step\<close>. Shared state is passed explicitly, and concurrent code is an
  inductive step relation. Third-party code is a parameter: a record of its operations, with the
  documented behaviour the code relies on as a locale that is interpreted on a concrete
  instance, or the outcome of a call as an argument.

  \<^bold>\<open>Foundations.\<close>
  \<^item> \<open>Prelude\<close>: results, polls, bytes and the contract of an encoding (\<open>codec\<close>,
    \<open>canonical_codec\<close> and their composition).
  \<^item> \<open>Rust_Strings\<close>, \<open>Ip_Text\<close>: the parts of the standard library's strings, UTF-8,
    integers, IP and socket addresses that the code prints and parses, with their round trips.
  \<^item> \<open>Byte_IO\<close>: byte-stream programs. \<open>net_step\<close> terminates and is confluent, so
    \<open>net_run\<close> gives the one end of all interleavings of two parties.

  \<^bold>\<open>Protocols.\<close>
  \<^item> \<open>Address\<close> (\<open>common/protocol/address.rs\<close>): parsing and rendering are inverse, and the
    rejected strings are characterised.
  \<^item> \<open>Framed\<close> (\<open>util/framed.rs\<close>): round trips of frames and JSON frames, and which streams
    are accepted.
  \<^item> \<open>Services\<close> (\<open>common/protocol/traits.rs\<close>, \<open>common/protocol/service/mod.rs\<close>): errors
    with their conversions, services, also behind references, clients and their adaptors.
  \<^item> \<open>Negotiation\<close> (\<open>common/protocol/negotiation.rs\<close>): each side against any input, and
    the agreement of both sides in every interleaving.
  \<^item> \<open>Proxy_Tcp\<close> (\<open>common/protocol/proxy_tcp.rs\<close>): targets and their text forms, and the
    calls a TCP service may make.
  \<^item> \<open>Authentication\<close> (\<open>common/authentication\<close>): the no-op and the acknowledgement handler,
    and how errors are nested.
  \<^item> \<open>Streams\<close> (\<open>util/mod.rs\<close>, \<open>util/tunnel_stream.rs\<close>): stream adaptors keep their halves
    apart (\<open>two_halves\<close>) and read and write the same under tokio's and futures' traits.

  \<^bold>\<open>Futures and ownership.\<close>
  \<^item> \<open>Futures\<close> (\<open>ext/future\<close>, \<open>ext/stream.rs\<close>): the combinators as instances of
    \<open>fused_future\<close>, tracked futures, and the count of monitored tasks, which stays
    within the loop's limit (\<open>monitor_step\<close>).
  \<^item> \<open>Tunnel_Id\<close> (\<open>tunnel/id.rs\<close>, \<open>ext/try_stream\<close>): id generation with its wrap-around,
    and fused streams (\<open>fused_stream\<close>, \<open>fused_try_stream\<close>).
  \<^item> \<open>Dropkick\<close> (\<open>util/dropkick.rs\<close>, \<open>util/cancellation.rs\<close>): drop notifications, the shared
    target behind a mutex (\<open>shared_step\<close>), and the laws of cancellation tokens
    (\<open>cancellation\<close>).
  \<^item> \<open>Ports\<close> (\<open>server/mod.rs\<close>): the allocator and its handles (\<open>port_step\<close>): live handles
    own different ports as long as \<open>free\<close> is not called for an owned port.
  \<^item> \<open>Extensions\<close> (\<open>ext/future/mod.rs\<close>, \<open>daemon/mod.rs\<close>): the methods that put a future
    into a combinator, and record constructors in any tower of wrappers.

  \<^bold>\<open>Tunnels and the daemon.\<close>
  \<^item> \<open>Tunnels\<close> (\<open>tunnel/mod.rs\<close>, \<open>tunnel/duplex.rs\<close>): close reasons and errors, and
    in-memory tunnels over \<open>mpsc_channel\<close>, which deliver in order.
  \<^item> \<open>Quinn_Tunnel\<close> (\<open>tunnel/quinn_tunnel.rs\<close>): closing, counting and authentication over
    arbitrary runs of its operations.
  \<^item> \<open>Quic_Logging\<close> (\<open>quic_logging.rs\<close>, \<open>tunnel/quinn_tunnel.rs\<close>): what the operations of a
    QUIC tunnel report; the switch changes no run, and the reported stream counts are right.
  \<^item> \<open>Tunnel_Source\<close> (\<open>common/tunnel_source/mod.rs\<close>): the listening endpoint and the dynamic
    set of streams over \<open>stream_map_laws\<close>, which its handles share.
  \<^item> \<open>Tunnel_Traits\<close> (\<open>tunnel/mod.rs\<close>): tunnels behind pointers and their construction
    (\<open>tunnel_constructor\<close>), down to the ids of the tunnels a daemon makes of QUIC connections.
  \<^item> \<open>Tunnel_Activity\<close> (\<open>tunnel/mod.rs\<close>): the stream of active stream counts
    (\<open>activity_step\<close>) over \<open>watch_channel\<close>.
  \<^item> \<open>Registry\<close> (\<open>registry/memory.rs\<close>, \<open>mapped.rs\<close>, \<open>cache.rs\<close>): the contract
    \<open>tunnel_registry\<close>, which the registries fulfil, over \<open>dashmap_laws\<close>.
  \<^item> \<open>Redis_Registry\<close> (\<open>registry/redis.rs\<close>): the registry in Redis with expiring entries and
    the renewal task, over \<open>redis_laws\<close>.
  \<^item> \<open>Peers\<close>, \<open>Daemon\<close> (\<open>common/daemon/mod.rs\<close>): the peer tables, and the lifecycles of any
    number of tunnels interleaved by \<open>daemon_step\<close>: the order of events, which request errors
    end a tunnel, and what tunnels that share a name do to each other.
  \<^item> \<open>Wrapped_Tunnel\<close> (\<open>common/daemon/mod.rs\<close>): the counted owners of a tunnel and the
    callback of the last one; \<open>tunnel_lifecycle_owned\<close> derives from clones and drops when a
    tunnel is closed or deregistered, which \<open>daemon_step\<close> has as a step.
  \<^item> \<open>Peers_View\<close> (\<open>common/daemon/mod.rs\<close>): the weak views of the peer tables, which agree with
    the tables as long as the daemon lives and find nothing afterwards.
  \<^item> \<open>Daemon_Events\<close> (\<open>common/daemon/mod.rs\<close>): subscribers of the three event hooks over
    \<open>broadcast_laws\<close>: no event is missed without a report.

  \<^bold>\<open>The command-line program.\<close>
  \<^item> \<open>Routing\<close> (\<open>services/mod.rs\<close> and the routers of \<open>client.rs\<close> and \<open>server.rs\<close>): a routed
    request runs against the first accepting service of the peer.
  \<^item> \<open>Demand_Proxy\<close> (\<open>services/demand_proxy.rs\<close>): the outcomes of a demand on both sides.
  \<^item> \<open>Command_Line\<close> (\<open>util/validators.rs\<close>, \<open>main.rs\<close>, and what \<open>client.rs\<close> and
    \<open>server.rs\<close> put together).
  \<^item> \<open>Certificates\<close> (\<open>certgen.rs\<close> and the TLS set-up of \<open>client.rs\<close> and \<open>server.rs\<close>): the
    files of the generator, over \<open>file_system\<close>, are what server and client load.
  \<^item> \<open>Programs\<close> (\<open>client.rs\<close>, \<open>server.rs\<close>): \<open>client_main\<close> and \<open>server_main\<close>, and when they
    exit well. The run of the daemon is a parameter there; what it does is theory \<open>Daemon\<close>.
  \<^item> \<open>Options\<close> (\<open>main.rs\<close>): the declared options; arguments that clap accepts are handled
    without a panic or an error.
  \<^item> \<open>Concurrent_Loops\<close>: what the code relies on of \<open>try_for_each_concurrent\<close>
    (\<open>concurrent_loop_laws\<close>).
  \<^item> \<open>Forwarding\<close> (all of the above together): a connection to a demanded port runs as the
    visitor's copy against the TCP service of the client that demanded it, and what one failed
    connection does to the others.

  \<^bold>\<open>The source's tests.\<close> \<open>Tests_Protocol\<close> (addresses, frames, TCP targets, negotiation,
  authentication), \<open>Tests_Combinators\<close> (tunnel ids, fused streams, futures, dropkicks, dynamic
  sets, duplex tunnels, counted tasks) and \<open>Tests_Redis\<close> (the integration tests of the Redis
  registry) run the unit tests of the repository on the model: each test is a definition, and a
  lemma says that it passes.

  \<^bold>\<open>Bounds and fuel.\<close> No definition that models the program takes fuel; \<open>collect\<close> of
  \<open>Tests_Combinators\<close> polls as often as its argument says, more often than the tests' streams
  have items. \<open>net_run\<close>, \<open>tracked_poll\<close> and the retry
  loop \<open>allocate_rid\<close> have termination proofs; the last is bounded by the code's own \<open>MAX_ITERATIONS\<close> of 10.
  Loops that wait for the environment recurse over the list of what it delivers: the incoming
  connections in \<open>accept_loop\<close>, the rounds in \<open>run_renewal\<close>. Properties quantify over all
  such lists, and over all runs of a step relation.

  \<^bold>\<open>Not modelled.\<close> Log lines other than those of QUIC tunnels, and the durations in these;
  \<open>Debug\<close> output; trait declarations without a body (\<open>registry/mod.rs\<close> has only those); boxing
  and downcasting of clients; the methods of \<open>ext/option.rs\<close> and \<open>ext/result.rs\<close>, which wrap or
  unwrap a value; the serialisation of tunnel names; the matching of command lines, the runtime
  and the signal handlers, which are calls of third-party code; the tests of the stream proxies
  and of concurrent duplex tunnels, which time tokio's copying of bytes. The insides of QUIC, TLS,
  Redis, the file system and the tokio and dashmap containers are parameters.
\<close>

end
